(* ===== verification/Prelude.thy ===== *)
theory Prelude
  imports Complex_Main "HOL-Library.Word" "HOL-Library.Tree" "HOL-Library.Multiset"
begin

text \<open>
  What every other theory of the development shares: the outcome type of kernel code and its
  sequencing operator, 32-bit C arithmetic, pointers, and the collections of rewrite rules
  that carry the component proofs.

  Kernel code returns, stops the machine, or never comes back. The type \<open>'a kres\<close> keeps the
  three apart: \<open>Some (Inr x)\<close> is a normal return with result \<open>x\<close>, \<open>Some (Inl e)\<close> is a stop
  (a null pointer access, a division by zero, an array index out of range, a call of \<open>panic\<close>),
  and \<open>None\<close> is a computation that never returns, such as a loop whose condition stays true.
\<close>

section \<open>Outcomes of kernel code\<close>

datatype error = Null_deref | Div_zero | Out_of_bounds | Panic string

type_synonym 'a kres = "(error + 'a) option"

definition ret :: "'a \<Rightarrow> 'a kres" where
  "ret x = Some (Inr x)"

definition err :: "error \<Rightarrow> 'a kres" where
  "err e = Some (Inl e)"

abbreviation hang :: "'a kres" where
  "hang \<equiv> None"

definition kbind :: "'a kres \<Rightarrow> ('a \<Rightarrow> 'b kres) \<Rightarrow> 'b kres" where
  "kbind m f = (case m of None \<Rightarrow> None | Some (Inl e) \<Rightarrow> Some (Inl e) | Some (Inr x) \<Rightarrow> f x)"

named_theorems kres_simps "evaluation of kernel outcomes"

lemma kbind_ret [simp, kres_simps]: "kbind (ret x) f = f x"
  by (simp add: kbind_def ret_def)

lemma kbind_err [simp, kres_simps]: "kbind (err e) f = err e"
  by (simp add: kbind_def err_def)

lemma kbind_hang [simp, kres_simps]: "kbind hang f = hang"
  by (simp add: kbind_def)

lemma ret_inject [simp]: "ret x = ret y \<longleftrightarrow> x = y"
  by (simp add: ret_def)

lemma ret_neq [simp]: "ret x \<noteq> err e" "err e \<noteq> ret x" "ret x \<noteq> hang" "err e \<noteq> hang"
    "hang \<noteq> ret x" "hang \<noteq> err e"
  by (simp_all add: ret_def err_def)

lemma kbind_eq_ret: "kbind m f = ret y \<longleftrightarrow> (\<exists>x. m = ret x \<and> f x = ret y)"
  by (auto simp: kbind_def ret_def split: option.splits sum.splits)

lemma kbind_retE:
  assumes "kbind m f = ret y"
  obtains x where "m = ret x" and "f x = ret y"
  using assms by (auto simp: kbind_eq_ret)

lemma kbind_assoc: "kbind (kbind m f) g = kbind m (\<lambda>x. kbind (f x) g)"
  by (simp add: kbind_def split: option.split sum.split)

text \<open>Sequencing is monotone, so recursive kernel code may call itself under it.\<close>

lemma kbind_mono [partial_function_mono]:
  fixes B :: "('a \<Rightarrow> 'b option) \<Rightarrow> 'c kres" and C :: "'c \<Rightarrow> ('a \<Rightarrow> 'b option) \<Rightarrow> 'd kres"
  assumes B: "mono_option B" and C: "\<And>y. mono_option (C y)"
  shows "mono_option (\<lambda>f. kbind (B f) (\<lambda>y. C y f))"
proof (rule monotoneI)
  fix f g :: "'a \<Rightarrow> 'b option"
  assume fg: "fun_ord option_ord f g"
  have "option_ord (B f) (B g)" using B fg unfolding monotone_def by blast
  moreover have "option_ord (C y f) (C y g)" for y
    using C [of y] fg unfolding monotone_def by blast
  ultimately show "option_ord (kbind (B f) (\<lambda>y. C y f)) (kbind (B g) (\<lambda>y. C y g))"
    by (cases "B f"; cases "B g") (fastforce simp: kbind_def flat_ord_def split: sum.splits)+
qed

section \<open>32-bit C integers\<close>

text \<open>
  The kernel's \<open>int\<close> is 32 bits wide. Results of signed additions and multiplications are
  brought back into range by \<open>i32\<close>, the wrap-around of the RISC-V word instructions. A signed
  division truncates towards zero; a zero divisor is an error.
\<close>

definition i32 :: "int \<Rightarrow> int" where
  "i32 x = (x + 2 ^ 31) mod 2 ^ 32 - 2 ^ 31"

definition cdiv :: "int \<Rightarrow> int \<Rightarrow> int kres" where
  "cdiv a b = (if b = 0 then err Div_zero else ret (i32 (sgn a * sgn b * (\<bar>a\<bar> div \<bar>b\<bar>))))"

lemma i32_id [simp]: "- (2 ^ 31) \<le> x \<Longrightarrow> x < 2 ^ 31 \<Longrightarrow> i32 x = x"
  by (simp add: i32_def mod_pos_pos_trivial)

lemma i32_range: "- (2 ^ 31) \<le> i32 x" "i32 x < 2 ^ 31"
  by (simp_all add: i32_def pos_mod_sign pos_mod_bound algebra_simps)

lemma cdiv_pos:
  assumes "0 \<le> a" "0 < b" "a < 2 ^ 31"
  shows "cdiv a b = ret (a div b)"
proof -
  have "0 \<le> a div b" "a div b \<le> a"
    using assms zdiv_mono2 [of a 1 b] by (simp_all add: pos_imp_zdiv_nonneg_iff)
  moreover have "sgn a * sgn b * (\<bar>a\<bar> div \<bar>b\<bar>) = a div b"
    using assms by (cases "a = 0") (simp_all add: sgn_if del: mult_eq_0_iff)
  ultimately show ?thesis using assms by (simp only: cdiv_def if_False) simp
qed

section \<open>Pointers into the process table\<close>

text \<open>
  A \<open>struct proc *\<close> of the kernel is null or the address of an entry of the array \<open>proc\<close>;
  it is modelled by \<open>None\<close> or the index of the entry.
\<close>

type_synonym ptr = "nat option"

section \<open>Lists\<close>

text \<open>The position of a new element in a list ordered by a key: after all equal keys.\<close>

fun insort_after :: "('a \<Rightarrow> 'k::linorder) \<Rightarrow> 'a \<Rightarrow> 'a list \<Rightarrow> 'a list" where
  "insort_after k x [] = [x]"
| "insort_after k x (y # ys) = (if k y \<le> k x then y # insort_after k x ys else x # y # ys)"

lemma set_insort_after [simp]: "set (insort_after k x xs) = insert x (set xs)"
  by (induction xs) auto

lemma length_insort_after [simp]: "length (insort_after k x xs) = Suc (length xs)"
  by (induction xs) auto

lemma distinct_insort_after [simp]:
  "distinct (insort_after k x xs) \<longleftrightarrow> x \<notin> set xs \<and> distinct xs"
  by (induction xs) auto

lemma insort_after_not_Nil [simp]: "insort_after k x xs \<noteq> []"
  by (induction xs) auto

lemma sorted_insort_after:
  "sorted (map k xs) \<Longrightarrow> sorted (map k (insort_after k x xs))"
  by (induction xs) (auto simp: not_le)

lemma insort_after_append1:
  "\<forall>y \<in> set xs. k y \<le> k x \<Longrightarrow> insort_after k x (xs @ ys) = xs @ insort_after k x ys"
  by (induction xs) auto

lemma insort_after_append2:
  "\<forall>y \<in> set ys. k x < k y \<Longrightarrow> insort_after k x (xs @ ys) = insort_after k x xs @ ys"
proof (induction xs)
  case Nil
  then show ?case by (cases ys) auto
qed auto

lemma insort_after_filter:
  "sorted (map k xs) \<Longrightarrow>
   insort_after k x xs = filter (\<lambda>y. k y \<le> k x) xs @ x # filter (\<lambda>y. k x < k y) xs"
proof (induction xs)
  case (Cons y ys)
  show ?case
  proof (cases "k y \<le> k x")
    case True
    with Cons show ?thesis by auto
  next
    case False
    with Cons.prems have "\<forall>z \<in> set (y # ys). k x < k z" by fastforce
    then have "filter (\<lambda>z. k z \<le> k x) (y # ys) = []" "filter (\<lambda>z. k x < k z) (y # ys) = y # ys"
      by (auto simp: filter_empty_conv filter_id_conv)
    with False show ?thesis by simp
  qed
qed simp

lemma insort_after_cong:
  "(\<And>y. y \<in> insert x (set xs) \<Longrightarrow> k y = k' y) \<Longrightarrow> insort_after k x xs = insort_after k' x xs"
  by (induction xs) auto

end
