(* ===== verification/Proc_Data.thy ===== *)
theory Proc_Data
  imports Prelude
begin

text \<open>
  The data of \<open>proc.h\<close> and the globals of \<open>proc.c\<close>: saved registers, trap frames, the process
  control block, the per-CPU block and the red-black tree header, with the field access
  through a possibly null \<open>struct proc *\<close>. Locks have no field: every operation of the
  development is one critical section or a sequence of them, and the order in which the code
  takes its locks is part of the models of the operations.
\<close>

type_synonym u32 = "32 word"
type_synonym u64 = "64 word"

section \<open>Registers\<close>

record context_regs =
  cx_ra :: u64
  cx_sp :: u64
  cx_s0 :: u64
  cx_s1 :: u64
  cx_s2 :: u64
  cx_s3 :: u64
  cx_s4 :: u64
  cx_s5 :: u64
  cx_s6 :: u64
  cx_s7 :: u64
  cx_s8 :: u64
  cx_s9 :: u64
  cx_s10 :: u64
  cx_s11 :: u64

definition zero_context :: context_regs where
  "zero_context = \<lparr>cx_ra = 0, cx_sp = 0, cx_s0 = 0, cx_s1 = 0, cx_s2 = 0, cx_s3 = 0, cx_s4 = 0,
     cx_s5 = 0, cx_s6 = 0, cx_s7 = 0, cx_s8 = 0, cx_s9 = 0, cx_s10 = 0, cx_s11 = 0\<rparr>"

record trapframe =
  kernel_satp :: u64
  kernel_sp :: u64
  kernel_trap :: u64
  epc :: u64
  kernel_hartid :: u64
  tf_ra :: u64
  tf_sp :: u64
  tf_gp :: u64
  tf_tp :: u64
  tf_t0 :: u64
  tf_t1 :: u64
  tf_t2 :: u64
  tf_s0 :: u64
  tf_s1 :: u64
  tf_a0 :: u64
  tf_a1 :: u64
  tf_a2 :: u64
  tf_a3 :: u64
  tf_a4 :: u64
  tf_a5 :: u64
  tf_a6 :: u64
  tf_a7 :: u64
  tf_s2 :: u64
  tf_s3 :: u64
  tf_s4 :: u64
  tf_s5 :: u64
  tf_s6 :: u64
  tf_s7 :: u64
  tf_s8 :: u64
  tf_s9 :: u64
  tf_s10 :: u64
  tf_s11 :: u64
  tf_t3 :: u64
  tf_t4 :: u64
  tf_t5 :: u64
  tf_t6 :: u64

section \<open>Processes\<close>

datatype procstate = UNUSED | USED | SLEEPING | RUNNABLE | RUNNING | ZOMBIE

datatype nodeColor = RED | BLACK

text \<open>
  A wait channel is the address of some object: of an entry of the process table, of the
  variable \<open>ticks\<close>, or of an object outside the files modelled here. Different objects have
  different addresses.
\<close>

datatype chan = Ch_proc nat | Ch_ticks | Ch_other u64

record proc =
  state :: procstate
  chan :: "chan option"
  killed :: int
  xstate :: int
  pid :: int
  parent :: ptr
  kstack :: u64
  sz :: u64
  pagetable :: u64
  trapframe :: u64
  ctxt :: context_regs
  ofile :: "u64 list"
  cwd :: u64
  name :: string
  virtualRuntime :: int
  currentRuntime :: int
  maxExecutionTime :: int
  niceVal :: int
  weightVal :: int
  color :: nodeColor
  left :: ptr
  right :: ptr
  pParent :: ptr

record cpu =
  cpu_proc :: ptr
  cpu_context :: context_regs
  noff :: int
  intena :: int

section \<open>The ready tree\<close>

record RBTree =
  count :: int
  treeWeight :: int
  root :: ptr
  minvRuntime :: ptr
  period :: int

text \<open>The ready tree and the process table it threads its links through.\<close>

record rbs =
  procs :: "nat \<Rightarrow> proc"
  procTree :: RBTree

section \<open>Access through a pointer\<close>

definition rd :: "(proc \<Rightarrow> 'a) \<Rightarrow> ptr \<Rightarrow> rbs \<Rightarrow> 'a kres" where
  "rd f p s = (case p of None \<Rightarrow> err Null_deref | Some i \<Rightarrow> ret (f (procs s i)))"

definition wr :: "(proc \<Rightarrow> proc) \<Rightarrow> ptr \<Rightarrow> rbs \<Rightarrow> rbs kres" where
  "wr u p s = (case p of None \<Rightarrow> err Null_deref
     | Some i \<Rightarrow> ret (s\<lparr>procs := (procs s)(i := u (procs s i))\<rparr>))"

definition wr_tree :: "(RBTree \<Rightarrow> RBTree) \<Rightarrow> rbs \<Rightarrow> rbs" where
  "wr_tree u s = s\<lparr>procTree := u (procTree s)\<rparr>"

lemma rd_simps [simp, kres_simps]:
  "rd f None s = err Null_deref" "rd f (Some i) s = ret (f (procs s i))"
  by (simp_all add: rd_def)

lemma wr_simps [simp, kres_simps]:
  "wr u None s = err Null_deref"
  "wr u (Some i) s = ret (s\<lparr>procs := (procs s)(i := u (procs s i))\<rparr>)"
  by (simp_all add: wr_def)

lemma wr_tree_simps [simp]:
  "procs (wr_tree u s) = procs s" "procTree (wr_tree u s) = u (procTree s)"
  by (simp_all add: wr_tree_def)

end
