(* ===== verification/RB_Code.thy ===== *)
theory RB_Code
  imports Proc_Data
begin

text \<open>
  The ready tree of \<open>proc.c\<close> as the code has it: a tree threaded through the process table by
  the fields \<open>left\<close>, \<open>right\<close> and \<open>pParent\<close>, with recursive and looping routines that read
  and write those fields. A recursion or loop that malformed links could keep running is a
  \<open>partial_function\<close>, so that not returning is the outcome \<open>hang\<close>; every access through a
  pointer that may be null is an access that may fail. The constants of \<open>param.h\<close> are not part
  of the repository: \<open>NPROC\<close>, the size of the process table, is an argument.
\<close>

section \<open>Set-up and weights\<close>

definition latency :: "nat \<Rightarrow> int" where
  "latency NPROC = int NPROC div 2"

definition min_granularity :: int where
  "min_granularity = 2"

definition rbinit :: "nat \<Rightarrow> rbs \<Rightarrow> rbs" where
  "rbinit NPROC s = wr_tree (\<lambda>t. t\<lparr>count := 0, root := None, treeWeight := 0,
     minvRuntime := None, period := latency NPROC\<rparr>) s"

text \<open>
  The loop of \<open>calculateWight\<close> over \<open>denom\<close>. Its counter \<open>i\<close> is never advanced. The factor
  1.25 is a binary fraction, and the only value the loop can return is the initial one.
\<close>

partial_function (option) weight_loop :: "int \<Rightarrow> int \<Rightarrow> rat \<Rightarrow> rat kres" where
  "weight_loop i nice denom =
     (if i < nice \<and> nice > 0 then weight_loop i nice (denom * (5 / 4)) else ret denom)"

definition calculateWight :: "int \<Rightarrow> int kres" where
  "calculateWight nice =
     (let nice' = (if nice > 30 then 30 else if nice < 0 then 0 else nice)
      in kbind (weight_loop 0 nice' (5 / 4)) (\<lambda>denom. ret \<lfloor>1024 / denom\<rfloor>))"

definition isEmpty :: "rbs \<Rightarrow> bool" where
  "isEmpty s = (count (procTree s) = 0)"

definition isFull :: "nat \<Rightarrow> rbs \<Rightarrow> bool" where
  "isFull NPROC s = (count (procTree s) = int NPROC)"

section \<open>Relatives and rotations\<close>

definition getGrandparentProc :: "ptr \<Rightarrow> rbs \<Rightarrow> ptr kres" where
  "getGrandparentProc process s =
     (if process = None then ret None
      else kbind (rd pParent process s) (\<lambda>par.
        if par = None then ret None else rd pParent par s))"

definition getUncleProc :: "ptr \<Rightarrow> rbs \<Rightarrow> ptr kres" where
  "getUncleProc process s =
     kbind (getGrandparentProc process s) (\<lambda>grandparent.
     if grandparent = None then ret None
     else kbind (rd pParent process s) (\<lambda>par.
       kbind (rd left grandparent s) (\<lambda>gl.
       if par = gl then rd right grandparent s else rd left grandparent s)))"

definition rotateLeft :: "ptr \<Rightarrow> rbs \<Rightarrow> rbs kres" where
  "rotateLeft positionProc s =
     kbind (rd right positionProc s) (\<lambda>save_right_Proc.
     kbind (rd left save_right_Proc s) (\<lambda>srl.
     kbind (wr (right_update (\<lambda>_. srl)) positionProc s) (\<lambda>s.
     kbind (if srl \<noteq> None then wr (pParent_update (\<lambda>_. positionProc)) srl s else ret s) (\<lambda>s.
     kbind (rd pParent positionProc s) (\<lambda>par.
     kbind (wr (pParent_update (\<lambda>_. par)) save_right_Proc s) (\<lambda>s.
     kbind (if par = None then ret (wr_tree (root_update (\<lambda>_. save_right_Proc)) s)
            else kbind (rd left par s) (\<lambda>pl.
              if positionProc = pl then wr (left_update (\<lambda>_. save_right_Proc)) par s
              else wr (right_update (\<lambda>_. save_right_Proc)) par s)) (\<lambda>s.
     kbind (wr (left_update (\<lambda>_. positionProc)) save_right_Proc s) (\<lambda>s.
     wr (pParent_update (\<lambda>_. save_right_Proc)) positionProc s))))))))"

definition rotateRight :: "ptr \<Rightarrow> rbs \<Rightarrow> rbs kres" where
  "rotateRight positionProc s =
     kbind (rd left positionProc s) (\<lambda>save_left_Proc.
     kbind (rd right save_left_Proc s) (\<lambda>slr.
     kbind (wr (left_update (\<lambda>_. slr)) positionProc s) (\<lambda>s.
     kbind (if slr \<noteq> None then wr (pParent_update (\<lambda>_. positionProc)) slr s else ret s) (\<lambda>s.
     kbind (rd pParent positionProc s) (\<lambda>par.
     kbind (wr (pParent_update (\<lambda>_. par)) save_left_Proc s) (\<lambda>s.
     kbind (if par = None then ret (wr_tree (root_update (\<lambda>_. save_left_Proc)) s)
            else kbind (rd right par s) (\<lambda>pr.
              if positionProc = pr then wr (right_update (\<lambda>_. save_left_Proc)) par s
              else wr (left_update (\<lambda>_. save_left_Proc)) par s)) (\<lambda>s.
     kbind (wr (right_update (\<lambda>_. positionProc)) save_left_Proc s) (\<lambda>s.
     wr (pParent_update (\<lambda>_. save_left_Proc)) positionProc s))))))))"

section \<open>Insertion\<close>

partial_function (option) setMinimumVRuntimeproc :: "ptr \<Rightarrow> rbs \<Rightarrow> ptr kres" where
  "setMinimumVRuntimeproc traversingProcess s =
     (if traversingProcess \<noteq> None then
        kbind (rd left traversingProcess s) (\<lambda>l.
          if l \<noteq> None then setMinimumVRuntimeproc l s else ret traversingProcess)
      else ret None)"

partial_function (option) insertProc :: "ptr \<Rightarrow> ptr \<Rightarrow> rbs \<Rightarrow> (ptr \<times> rbs) kres" where
  "insertProc traversingProcess insertingProcess s =
     kbind (wr (color_update (\<lambda>_. RED)) insertingProcess s) (\<lambda>s.
     if traversingProcess = None then ret (insertingProcess, s)
     else
       kbind (rd virtualRuntime traversingProcess s) (\<lambda>tv.
       kbind (rd virtualRuntime insertingProcess s) (\<lambda>iv.
       if tv \<le> iv then
         kbind (wr (pParent_update (\<lambda>_. traversingProcess)) insertingProcess s) (\<lambda>s.
         kbind (rd right traversingProcess s) (\<lambda>r.
         kbind (insertProc r insertingProcess s) (\<lambda>(q, s).
         kbind (wr (right_update (\<lambda>_. q)) traversingProcess s) (\<lambda>s.
         ret (traversingProcess, s)))))
       else
         kbind (wr (pParent_update (\<lambda>_. traversingProcess)) insertingProcess s) (\<lambda>s.
         kbind (rd left traversingProcess s) (\<lambda>l.
         kbind (insertProc l insertingProcess s) (\<lambda>(q, s).
         kbind (wr (left_update (\<lambda>_. q)) traversingProcess s) (\<lambda>s.
         ret (traversingProcess, s))))))))"

text \<open>
  \<open>insertionCases\<close>: the \<open>switch\<close> over \<open>cases\<close>, with the short-circuit conditions of cases 4
  and 5 read in the order the code evaluates them.
\<close>

definition both_eq :: "bool \<Rightarrow> bool kres \<Rightarrow> bool kres" where
  "both_eq a b = (if a then b else ret False)"

partial_function (option) insertionCases :: "ptr \<Rightarrow> int \<Rightarrow> rbs \<Rightarrow> rbs kres" where
  "insertionCases rbProcess cs s =
     (if cs = 1 then
        kbind (rd pParent rbProcess s) (\<lambda>par.
        if par = None then wr (color_update (\<lambda>_. BLACK)) rbProcess s
        else insertionCases rbProcess 2 s)
      else if cs = 2 then
        kbind (rd pParent rbProcess s) (\<lambda>par.
        kbind (rd color par s) (\<lambda>c.
        if c = RED then insertionCases rbProcess 3 s else ret s))
      else if cs = 3 then
        kbind (getUncleProc rbProcess s) (\<lambda>uncle.
        kbind (both_eq (uncle \<noteq> None) (kbind (rd color uncle s) (\<lambda>c. ret (c = RED)))) (\<lambda>red.
        if red then
          kbind (rd pParent rbProcess s) (\<lambda>par.
          kbind (wr (color_update (\<lambda>_. BLACK)) par s) (\<lambda>s.
          kbind (wr (color_update (\<lambda>_. BLACK)) uncle s) (\<lambda>s.
          kbind (getGrandparentProc rbProcess s) (\<lambda>grandparent.
          kbind (wr (color_update (\<lambda>_. RED)) grandparent s) (\<lambda>s.
          insertionCases grandparent 1 s)))))
        else insertionCases rbProcess 4 s))
      else if cs = 4 then
        kbind (getGrandparentProc rbProcess s) (\<lambda>grandparent.
        kbind (rd pParent rbProcess s) (\<lambda>par.
        kbind (rd right par s) (\<lambda>pr.
        kbind (both_eq (rbProcess = pr) (kbind (rd left grandparent s) (\<lambda>gl. ret (par = gl)))) (\<lambda>lr.
        if lr then
          kbind (rotateLeft par s) (\<lambda>s.
          kbind (rd left rbProcess s) (\<lambda>q. insertionCases q 5 s))
        else
          kbind (rd left par s) (\<lambda>pl.
          kbind (both_eq (rbProcess = pl) (kbind (rd right grandparent s) (\<lambda>gr. ret (par = gr)))) (\<lambda>rl.
          if rl then
            kbind (rotateRight par s) (\<lambda>s.
            kbind (rd right rbProcess s) (\<lambda>q. insertionCases q 5 s))
          else insertionCases rbProcess 5 s))))))
      else if cs = 5 then
        kbind (getGrandparentProc rbProcess s) (\<lambda>grandparent.
        if grandparent \<noteq> None then
          kbind (wr (color_update (\<lambda>_. RED)) grandparent s) (\<lambda>s.
          kbind (rd pParent rbProcess s) (\<lambda>par.
          kbind (wr (color_update (\<lambda>_. BLACK)) par s) (\<lambda>s.
          kbind (rd left par s) (\<lambda>pl.
          kbind (both_eq (rbProcess = pl) (kbind (rd left grandparent s) (\<lambda>gl. ret (par = gl)))) (\<lambda>ll.
          if ll then rotateRight grandparent s
          else
            kbind (rd right par s) (\<lambda>pr.
            kbind (both_eq (rbProcess = pr) (kbind (rd right grandparent s) (\<lambda>gr. ret (par = gr)))) (\<lambda>rr.
            if rr then rotateLeft grandparent s else ret s)))))))
        else ret s)
      else ret s)"

definition insertProcess :: "nat \<Rightarrow> ptr \<Rightarrow> rbs \<Rightarrow> rbs kres" where
  "insertProcess NPROC p s =
     (if \<not> isFull NPROC s then
        kbind (insertProc (root (procTree s)) p s) (\<lambda>(r, s).
        let s = wr_tree (root_update (\<lambda>_. r)) s in
        kbind (if count (procTree s) = 0
               then wr (pParent_update (\<lambda>_. None)) (root (procTree s)) s else ret s) (\<lambda>s.
        let s = wr_tree (\<lambda>t. t\<lparr>count := i32 (count t + 1)\<rparr>) s in
        kbind (rd niceVal p s) (\<lambda>nice.
        kbind (calculateWight nice) (\<lambda>w.
        kbind (wr (weightVal_update (\<lambda>_. w)) p s) (\<lambda>s.
        let s = wr_tree (\<lambda>t. t\<lparr>treeWeight := i32 (treeWeight t + w)\<rparr>) s in
        kbind (insertionCases p 1 s) (\<lambda>s.
        kbind (if minvRuntime (procTree s) = None then ret True
               else kbind (rd left (minvRuntime (procTree s)) s) (\<lambda>l. ret (l \<noteq> None))) (\<lambda>stale.
        if stale then
          kbind (setMinimumVRuntimeproc (root (procTree s)) s) (\<lambda>m.
          ret (wr_tree (minvRuntime_update (\<lambda>_. m)) s))
        else ret s)))))))
      else ret s)"

section \<open>Removal of the process with the least virtual runtime\<close>

text \<open>The \<open>while\<close> loop of case 2: the state with \<open>parentProc\<close> and \<open>process\<close> as locals.\<close>

definition is_black :: "ptr \<Rightarrow> rbs \<Rightarrow> bool kres" where
  "is_black p s = (if p = None then ret True else kbind (rd color p s) (\<lambda>c. ret (c = BLACK)))"

partial_function (option) retrieving_loop :: "ptr \<Rightarrow> ptr \<Rightarrow> rbs \<Rightarrow> (ptr \<times> rbs) kres" where
  "retrieving_loop parentProc process s =
     kbind (both_eq (process \<noteq> root (procTree s)) (is_black process s)) (\<lambda>continue.
     if \<not> continue then ret (process, s)
     else
       kbind (rd left parentProc s) (\<lambda>pl.
       if process = pl then
         kbind (rd right parentProc s) (\<lambda>sib.
         kbind (both_eq (sib \<noteq> None) (kbind (rd color sib s) (\<lambda>c. ret (c = RED)))) (\<lambda>red.
         kbind (if red then
                  kbind (wr (color_update (\<lambda>_. BLACK)) sib s) (\<lambda>s.
                  kbind (wr (color_update (\<lambda>_. RED)) parentProc s) (\<lambda>s.
                  kbind (rotateLeft parentProc s) (\<lambda>s.
                  kbind (rd right parentProc s) (\<lambda>sib. ret (sib, s)))))
                else ret (sib, s)) (\<lambda>(sib, s).
         kbind (rd left sib s) (\<lambda>sl.
         kbind (is_black sl s) (\<lambda>slb.
         kbind (both_eq slb (kbind (rd right sib s) (\<lambda>sr. is_black sr s))) (\<lambda>bothb.
         if bothb then
           kbind (wr (color_update (\<lambda>_. RED)) sib s) (\<lambda>s.
           kbind (rd pParent parentProc s) (\<lambda>pp.
           retrieving_loop pp parentProc s))
         else
           kbind (rd right sib s) (\<lambda>sr.
           kbind (is_black sr s) (\<lambda>srb.
           kbind (if srb then
                    kbind (rd left sib s) (\<lambda>sl.
                    kbind (if sl \<noteq> None then wr (color_update (\<lambda>_. BLACK)) sl s else ret s) (\<lambda>s.
                    kbind (wr (color_update (\<lambda>_. RED)) sib s) (\<lambda>s.
                    kbind (rotateRight sib s) (\<lambda>s.
                    kbind (rd right parentProc s) (\<lambda>sib. ret (sib, s))))))
                  else ret (sib, s)) (\<lambda>(sib, s).
           kbind (rd color parentProc s) (\<lambda>pc.
           kbind (wr (color_update (\<lambda>_. pc)) sib s) (\<lambda>s.
           kbind (wr (color_update (\<lambda>_. BLACK)) parentProc s) (\<lambda>s.
           kbind (rd right sib s) (\<lambda>sr.
           kbind (wr (color_update (\<lambda>_. BLACK)) sr s) (\<lambda>s.
           kbind (rotateLeft parentProc s) (\<lambda>s.
           retrieving_loop parentProc (root (procTree s)) s)))))))))))))))
       else retrieving_loop parentProc process s))"

definition retrievingCases2 :: "ptr \<Rightarrow> ptr \<Rightarrow> rbs \<Rightarrow> rbs kres" where
  "retrievingCases2 parentProc process s =
     kbind (retrieving_loop parentProc process s) (\<lambda>(process, s).
     if process \<noteq> None then wr (color_update (\<lambda>_. BLACK)) process s else ret s)"

definition retrievingCases1 :: "ptr \<Rightarrow> ptr \<Rightarrow> rbs \<Rightarrow> rbs kres" where
  "retrievingCases1 parentProc process s =
     kbind (rd right process s) (\<lambda>child.
     kbind (if process = root (procTree s) then
              (let s = wr_tree (root_update (\<lambda>_. child)) s in
               if child \<noteq> None then
                 kbind (wr (pParent_update (\<lambda>_. None)) child s) (\<lambda>s.
                 wr (color_update (\<lambda>_. BLACK)) child s)
               else ret s)
            else
              kbind (rd color process s) (\<lambda>c.
              kbind (both_eq (child \<noteq> None) (kbind (rd color child s) (\<lambda>cc. ret (c \<noteq> cc)))) (\<lambda>differ.
              if differ then
                kbind (wr (pParent_update (\<lambda>_. parentProc)) child s) (\<lambda>s.
                kbind (wr (left_update (\<lambda>_. child)) parentProc s) (\<lambda>s.
                wr (color_update (\<lambda>_. BLACK)) child s))
              else if c = RED then wr (left_update (\<lambda>_. child)) parentProc s
              else
                kbind (if child \<noteq> None
                       then wr (pParent_update (\<lambda>_. parentProc)) child s else ret s) (\<lambda>s.
                kbind (wr (left_update (\<lambda>_. child)) parentProc s) (\<lambda>s.
                retrievingCases2 parentProc child s))))) (\<lambda>s.
     kbind (wr (pParent_update (\<lambda>_. None)) process s) (\<lambda>s.
     kbind (wr (left_update (\<lambda>_. None)) process s) (\<lambda>s.
     wr (right_update (\<lambda>_. None)) process s))))"

definition retrievingCases :: "ptr \<Rightarrow> ptr \<Rightarrow> int \<Rightarrow> rbs \<Rightarrow> rbs kres" where
  "retrievingCases parentProc process cs s =
     (if cs = 1 then retrievingCases1 parentProc process s
      else if cs = 2 then retrievingCases2 parentProc process s
      else ret s)"

definition retrieveProcess :: "nat \<Rightarrow> rbs \<Rightarrow> (ptr \<times> rbs) kres" where
  "retrieveProcess NPROC s =
     (if \<not> isEmpty s then
        kbind (cdiv (latency NPROC) min_granularity) (\<lambda>q.
        let s = (if count (procTree s) > q
                 then wr_tree (\<lambda>t. t\<lparr>period := i32 (count t * min_granularity)\<rparr>) s else s);
            foundProcess = minvRuntime (procTree s) in
        kbind (rd state foundProcess s) (\<lambda>st.
        if st \<noteq> RUNNABLE then ret (None, s)
        else
          kbind (rd pParent (minvRuntime (procTree s)) s) (\<lambda>par.
          kbind (retrievingCases par (minvRuntime (procTree s)) 1 s) (\<lambda>s.
          let s = wr_tree (\<lambda>t. t\<lparr>count := i32 (count t - 1)\<rparr>) s in
          kbind (setMinimumVRuntimeproc (root (procTree s)) s) (\<lambda>m.
          let s = wr_tree (minvRuntime_update (\<lambda>_. m)) s in
          kbind (rd weightVal foundProcess s) (\<lambda>w.
          kbind (cdiv (i32 (period (procTree s) * w)) (treeWeight (procTree s))) (\<lambda>slice.
          kbind (wr (maxExecutionTime_update (\<lambda>_. slice)) foundProcess s) (\<lambda>s.
          ret (foundProcess, wr_tree (\<lambda>t. t\<lparr>treeWeight := i32 (treeWeight t - w)\<rparr>) s)))))))))
      else ret (None, s))"

section \<open>The preemption test\<close>

definition checkPreemption :: "ptr \<Rightarrow> ptr \<Rightarrow> rbs \<Rightarrow> bool kres" where
  "checkPreemption current minv s =
     kbind (rd currentRuntime current s) (\<lambda>procRuntime.
     kbind (rd maxExecutionTime current s) (\<lambda>slice.
     if procRuntime \<ge> slice \<and> procRuntime \<ge> min_granularity then ret True
     else
       kbind (both_eq (minv \<noteq> None)
               (kbind (rd state minv s) (\<lambda>st.
                both_eq (st = RUNNABLE)
                 (kbind (rd virtualRuntime current s) (\<lambda>cv.
                  kbind (rd virtualRuntime minv s) (\<lambda>mv. ret (cv > mv))))))) (\<lambda>behind.
       if behind then
         (if procRuntime \<noteq> 0 \<and> procRuntime \<ge> min_granularity then ret True
          else if procRuntime = 0 then ret True else ret False)
       else ret False)))"

end
