(* ===== verification/RB_Spec.thy ===== *)
theory RB_Spec
  imports Proc_Data
begin

text \<open>
  The mathematical side of the ready tree: red-black trees over process indices, a position in
  a tree as the list of frames from the position up to the root, and the insertion and
  leftmost-removal algorithms of the code as functions on trees and frames. The lemmas show
  that both keep the red-black invariant and what they do to the in-order sequence.
\<close>

section \<open>Red-black trees over process indices\<close>

type_synonym rbtree = "(nat \<times> nodeColor) tree"

abbreviation RN :: "rbtree \<Rightarrow> nat \<Rightarrow> rbtree \<Rightarrow> rbtree" where
  "RN l i r \<equiv> Node l (i, RED) r"

abbreviation BN :: "rbtree \<Rightarrow> nat \<Rightarrow> rbtree \<Rightarrow> rbtree" where
  "BN l i r \<equiv> Node l (i, BLACK) r"

fun ids :: "rbtree \<Rightarrow> nat list" where
  "ids Leaf = []"
| "ids (Node l (i, c) r) = ids l @ i # ids r"

fun tcolor :: "rbtree \<Rightarrow> nodeColor" where
  "tcolor Leaf = BLACK"
| "tcolor (Node _ (_, c) _) = c"

fun paint :: "nodeColor \<Rightarrow> rbtree \<Rightarrow> rbtree" where
  "paint c Leaf = Leaf"
| "paint c (Node l (i, _) r) = Node l (i, c) r"

fun bh :: "rbtree \<Rightarrow> nat" where
  "bh Leaf = 0"
| "bh (Node l (i, c) r) = (if c = BLACK then Suc (bh l) else bh l)"

fun invc :: "rbtree \<Rightarrow> bool" where
  "invc Leaf = True"
| "invc (Node l (i, c) r) =
     ((c = RED \<longrightarrow> tcolor l = BLACK \<and> tcolor r = BLACK) \<and> invc l \<and> invc r)"

fun invh :: "rbtree \<Rightarrow> bool" where
  "invh Leaf = True"
| "invh (Node l (i, c) r) = (bh l = bh r \<and> invh l \<and> invh r)"

definition rb_ok :: "rbtree \<Rightarrow> bool" where
  "rb_ok t \<longleftrightarrow> invc t \<and> invh t \<and> tcolor t = BLACK"

lemma neq_color [simp]: "c \<noteq> BLACK \<longleftrightarrow> c = RED" "c \<noteq> RED \<longleftrightarrow> c = BLACK"
    "BLACK \<noteq> c \<longleftrightarrow> c = RED" "RED \<noteq> c \<longleftrightarrow> c = BLACK"
  by (cases c; simp)+

lemma ids_Nil [simp]: "ids t = [] \<longleftrightarrow> t = Leaf"
  by (cases t rule: ids.cases) auto

lemma ids_paint [simp]: "ids (paint c t) = ids t"
  by (cases t rule: ids.cases) auto

lemma length_ids: "length (ids t) = size t"
  by (induction t rule: ids.induct) auto

lemma tcolor_paint: "tcolor (paint c t) = (if t = Leaf then BLACK else c)"
  by (cases t rule: ids.cases) auto

lemma tcolor_paint_BLACK [simp]: "tcolor (paint BLACK t) = BLACK"
  by (simp add: tcolor_paint)

lemma invh_paint [simp]: "invh (paint c t) = invh t"
  by (cases t rule: ids.cases) auto

lemma paint_paint [simp]: "paint c (paint d t) = paint c t"
  by (cases t rule: ids.cases) auto

lemma paint_black_id [simp]: "tcolor t = BLACK \<Longrightarrow> paint BLACK t = t"
  by (cases t rule: ids.cases) auto

lemma paint_Leaf [simp]: "paint c t = Leaf \<longleftrightarrow> t = Leaf"
  by (cases t rule: ids.cases) auto

lemma invc_paint_black: "invc t \<Longrightarrow> invc (paint BLACK t)"
  by (cases t rule: ids.cases) auto

lemma bh_paint_black: "tcolor t = RED \<Longrightarrow> bh (paint BLACK t) = Suc (bh t)"
  by (cases t rule: ids.cases) auto

lemma bh_paint_red: "tcolor t = BLACK \<Longrightarrow> bh (paint RED t) = bh t - 1"
  by (cases t rule: ids.cases) auto

text \<open>The logarithmic height that the colours and black heights give.\<close>

lemma height_bh: "invc t \<Longrightarrow> invh t \<Longrightarrow> height t \<le> 2 * bh t + (if tcolor t = BLACK then 0 else 1)"
  by (induction t rule: ids.induct) (auto split: if_splits)

lemma bh_size: "invh t \<Longrightarrow> 2 ^ bh t \<le> size1 t"
  by (induction t rule: ids.induct) (auto simp: add_mono)

lemma rb_ok_height: "rb_ok t \<Longrightarrow> 2 ^ (height t div 2) \<le> size t + 1"
proof -
  assume ok: "rb_ok t"
  then have "height t \<le> 2 * bh t" using height_bh [of t] by (simp add: rb_ok_def)
  then have "height t div 2 \<le> bh t" by simp
  then have "(2 :: nat) ^ (height t div 2) \<le> 2 ^ bh t" by (rule power_increasing) simp
  also have "\<dots> \<le> size1 t" using ok by (simp add: rb_ok_def bh_size)
  finally show ?thesis by (simp add: size1_size)
qed

section \<open>Positions\<close>

text \<open>
  \<open>LF i c r\<close> is the step from the left child of node \<open>i\<close> (colour \<open>c\<close>, right subtree \<open>r\<close>) up to
  \<open>i\<close>; \<open>RF l i c\<close> the step from its right child. A context lists the steps from a position to
  the root.
\<close>

datatype frame = LF nat nodeColor rbtree | RF rbtree nat nodeColor

type_synonym ctx = "frame list"

fun fill :: "ctx \<Rightarrow> rbtree \<Rightarrow> rbtree" where
  "fill [] t = t"
| "fill (LF i c r # k) t = fill k (Node t (i, c) r)"
| "fill (RF l i c # k) t = fill k (Node l (i, c) t)"

fun pre :: "ctx \<Rightarrow> nat list" where
  "pre [] = []"
| "pre (LF i c r # k) = pre k"
| "pre (RF l i c # k) = pre k @ ids l @ [i]"

fun post :: "ctx \<Rightarrow> nat list" where
  "post [] = []"
| "post (LF i c r # k) = i # ids r @ post k"
| "post (RF l i c # k) = post k"

lemma ids_fill [simp]: "ids (fill k t) = pre k @ ids t @ post k"
  by (induction k t rule: fill.induct) auto

lemma fill_Leaf: "fill k t = Leaf \<longleftrightarrow> k = [] \<and> t = Leaf"
  by (induction k t rule: fill.induct) auto

fun ctxh :: "nat \<Rightarrow> ctx \<Rightarrow> bool" where
  "ctxh n [] = True"
| "ctxh n (LF i c r # k) = (bh r = n \<and> invh r \<and> ctxh (if c = BLACK then Suc n else n) k)"
| "ctxh n (RF l i c # k) = (bh l = n \<and> invh l \<and> ctxh (if c = BLACK then Suc n else n) k)"

fun ctxc :: "nodeColor \<Rightarrow> ctx \<Rightarrow> bool" where
  "ctxc h [] = (h = BLACK)"
| "ctxc h (LF i c r # k) = ((c = RED \<longrightarrow> h = BLACK \<and> tcolor r = BLACK) \<and> invc r \<and> ctxc c k)"
| "ctxc h (RF l i c # k) = ((c = RED \<longrightarrow> h = BLACK \<and> tcolor l = BLACK) \<and> invc l \<and> ctxc c k)"

lemma ctxc_black: "ctxc h k \<Longrightarrow> ctxc BLACK k"
  by (cases "(h, k)" rule: ctxc.cases) auto

lemma rb_ok_fill:
  "rb_ok (fill k t) \<longleftrightarrow> invc t \<and> invh t \<and> ctxh (bh t) k \<and> ctxc (tcolor t) k"
proof (induction k t rule: fill.induct)
  case (1 t)
  then show ?case by (auto simp: rb_ok_def)
qed auto

lemma rb_ok_Node: "rb_ok (Node l (i, c) r) \<longleftrightarrow>
    c = BLACK \<and> invc l \<and> invc r \<and> invh l \<and> invh r \<and> bh l = bh r"
  by (auto simp: rb_ok_def)

lemma ctxc_single: "ctxc h [f] \<Longrightarrow> ctxc h' [f]"
  by (cases f) auto

section \<open>Insertion\<close>

text \<open>The position at which a key is inserted: to the right of every equal key.\<close>

fun ins_ctx :: "(nat \<Rightarrow> int) \<Rightarrow> int \<Rightarrow> rbtree \<Rightarrow> ctx \<Rightarrow> ctx" where
  "ins_ctx K v Leaf k = k"
| "ins_ctx K v (Node l (i, c) r) k =
     (if K i \<le> v then ins_ctx K v r (RF l i c # k) else ins_ctx K v l (LF i c r # k))"

text \<open>
  The repair of \<open>insertionCases\<close> on trees: the subtree in the hole has a red root and the
  frame above it may be red as well. Recolouring moves the violation two frames up; a
  rotation ends the repair.
\<close>

fun ins_fix :: "ctx \<Rightarrow> rbtree \<Rightarrow> rbtree" where
  "ins_fix [] t = paint BLACK t"
| "ins_fix (LF p RED pr # LF g gc u # k) t =
     (if tcolor u = RED
      then ins_fix k (RN (BN t p pr) g (paint BLACK u))
      else fill k (BN t p (RN pr g u)))"
| "ins_fix (RF pl p RED # RF u g gc # k) t =
     (if tcolor u = RED
      then ins_fix k (RN (paint BLACK u) g (BN pl p t))
      else fill k (BN (RN u g pl) p t))"
| "ins_fix (RF pl p RED # LF g gc u # k) (Node a (x, c) b) =
     (if tcolor u = RED
      then ins_fix k (RN (BN pl p (Node a (x, c) b)) g (paint BLACK u))
      else fill k (BN (RN pl p a) x (RN b g u)))"
| "ins_fix (LF p RED pr # RF u g gc # k) (Node a (x, c) b) =
     (if tcolor u = RED
      then ins_fix k (RN (paint BLACK u) g (BN (Node a (x, c) b) p pr))
      else fill k (BN (RN u g a) x (RN b p pr)))"
| "ins_fix k t = fill k t"

definition rb_insert :: "(nat \<Rightarrow> int) \<Rightarrow> nat \<Rightarrow> rbtree \<Rightarrow> rbtree" where
  "rb_insert K z t = ins_fix (ins_ctx K (K z) t []) (RN Leaf z Leaf)"

lemma fill_ins_ctx_ids:
  assumes "sorted (map K (ids t))" "K z = v"
  shows "pre (ins_ctx K v t k) @ z # post (ins_ctx K v t k) =
    pre k @ insort_after K z (ids t) @ post k"
  using assms
proof (induction K v t k rule: ins_ctx.induct)
  case (2 K v l i c r k)
  then have s: "sorted (map K (ids l))" "sorted (map K (ids r))"
    and le: "\<forall>y \<in> set (ids l). K y \<le> K i" and ge: "\<forall>y \<in> set (ids r). K i \<le> K y"
    by (auto simp: sorted_append)
  show ?case
  proof (cases "K i \<le> v")
    case True
    with le "2.prems" have "\<forall>y \<in> set (ids l). K y \<le> K z" by (meson order_trans)
    with True "2.IH"(1) s "2.prems" show ?thesis by (simp add: insort_after_append1)
  next
    case False
    with ge "2.prems" have "\<forall>y \<in> set (i # ids r). K z < K y" by fastforce
    then have "insort_after K z (ids l @ i # ids r) = insort_after K z (ids l) @ i # ids r"
      by (rule insort_after_append2)
    with False "2.IH"(2) s "2.prems" show ?thesis by simp
  qed
qed auto

lemma ids_ins_fix [simp]: "ids (ins_fix k t) = pre k @ ids t @ post k"
  by (induction k t rule: ins_fix.induct) auto

lemma ids_rb_insert:
  "sorted (map K (ids t)) \<Longrightarrow> ids (rb_insert K z t) = insort_after K z (ids t)"
  using fill_ins_ctx_ids [of K t z "K z" "[]"] by (simp add: rb_insert_def)

lemma ins_fix_rb_ok:
  assumes "tcolor t = RED" "invc t" "invh t" "ctxh (bh t) k" "ctxc BLACK k"
  shows "rb_ok (ins_fix k t)"
  using assms
proof (induction k t rule: ins_fix.induct)
  case (1 t)
  then show ?case by (simp add: rb_ok_def invc_paint_black)
next
  case (2 p pr g gc u k t)
  then show ?case
    by (auto simp: rb_ok_fill bh_paint_black invc_paint_black intro: ctxc_black)
next
  case (3 pl p u g gc k t)
  then show ?case
    by (auto simp: rb_ok_fill bh_paint_black invc_paint_black intro: ctxc_black)
next
  case (4 pl p g gc u k a x c b)
  then show ?case
    by (auto simp: rb_ok_fill bh_paint_black invc_paint_black intro: ctxc_black)
next
  case (5 p pr u g gc k a x c b)
  then show ?case
    by (auto simp: rb_ok_fill bh_paint_black invc_paint_black intro: ctxc_black)
qed (auto simp: rb_ok_fill rb_ok_Node intro: ctxc_single)

lemma ins_ctx_ok:
  assumes "rb_ok (fill k t)"
  shows "ctxh 0 (ins_ctx K v t k) \<and> ctxc BLACK (ins_ctx K v t k)"
  using assms
proof (induction K v t k rule: ins_ctx.induct)
  case (1 K v k)
  then show ?case by (simp add: rb_ok_fill)
qed auto

lemma rb_ok_insert: "rb_ok t \<Longrightarrow> rb_ok (rb_insert K z t)"
  using ins_ctx_ok [of "[]" t K "K z"] by (simp add: rb_insert_def ins_fix_rb_ok)

section \<open>Removal of the leftmost node\<close>

fun min_ctx :: "rbtree \<Rightarrow> ctx \<Rightarrow> ctx \<times> nat \<times> nodeColor \<times> rbtree" where
  "min_ctx (Node Leaf (i, c) r) k = (k, i, c, r)"
| "min_ctx (Node l (i, c) r) k = min_ctx l (LF i c r # k)"
| "min_ctx Leaf k = (k, 0, BLACK, Leaf)"

fun kids_black :: "rbtree \<Rightarrow> bool" where
  "kids_black Leaf = True"
| "kids_black (Node l _ r) = (tcolor l = BLACK \<and> tcolor r = BLACK)"

text \<open>The final rotations of the loop of case 2, at a sibling with a red child.\<close>

fun del_rot :: "rbtree \<Rightarrow> nat \<Rightarrow> nodeColor \<Rightarrow> rbtree \<Rightarrow> rbtree" where
  "del_rot t p pc (Node sl (s, sc) sr) =
     (if tcolor sr = RED then Node (BN t p sl) (s, pc) (paint BLACK sr)
      else case sl of
          Node a (y, _) b \<Rightarrow> Node (BN t p a) (y, pc) (BN b s sr)
        | Leaf \<Rightarrow> Node (BN t p Leaf) (s, pc) sr)"
| "del_rot t p pc Leaf = Node t (p, pc) Leaf"

fun del_fix :: "ctx \<Rightarrow> rbtree \<Rightarrow> rbtree" where
  "del_fix [] t = paint BLACK t"
| "del_fix (LF p pc s # k) t =
     (if tcolor t = RED then fill (LF p pc s # k) (paint BLACK t)
      else case s of
          Node sl (si, RED) sr \<Rightarrow>
            (if kids_black sl then fill (LF si BLACK sr # k) (BN t p (paint RED sl))
             else paint BLACK (fill (LF si BLACK sr # k) (del_rot t p RED sl)))
        | _ \<Rightarrow>
            (if kids_black s then del_fix k (Node t (p, pc) (paint RED s))
             else paint BLACK (fill k (del_rot t p pc s))))"
| "del_fix (RF l p pc # k) t = fill (RF l p pc # k) t"

definition rb_delmin :: "rbtree \<Rightarrow> rbtree" where
  "rb_delmin t = (case min_ctx t [] of (k, i, c, r) \<Rightarrow>
     if k = [] then paint BLACK r
     else if r \<noteq> Leaf \<and> c \<noteq> tcolor r then fill k (paint BLACK r)
     else if c = RED then fill k r
     else del_fix k r)"

fun is_LF :: "frame \<Rightarrow> bool" where
  "is_LF (LF i c r) = True"
| "is_LF (RF l i c) = False"

lemma pre_LF [simp]: "list_all is_LF k \<Longrightarrow> pre k = []"
  by (induction k rule: pre.induct) auto

lemma min_ctx_fill:
  "t \<noteq> Leaf \<Longrightarrow> min_ctx t k = (k', i, c, r) \<Longrightarrow> fill k' (Node Leaf (i, c) r) = fill k t"
  by (induction t k rule: min_ctx.induct) auto

lemma min_ctx_LF:
  "list_all is_LF k \<Longrightarrow> min_ctx t k = (k', i, c, r) \<Longrightarrow> list_all is_LF k'"
  by (induction t k rule: min_ctx.induct) auto

lemma min_ctx_hd:
  assumes "t \<noteq> Leaf" "min_ctx t [] = (k, i, c, r)"
  shows "ids t = i # ids r @ post k"
proof -
  have "ids t = ids (fill k (Node Leaf (i, c) r))"
    using min_ctx_fill [OF assms] by simp
  moreover have "pre k = []" using min_ctx_LF [of "[]"] assms by simp
  ultimately show ?thesis by simp
qed

lemma ids_del_rot [simp]: "ids (del_rot t p pc s) = ids t @ p # ids s"
  by (cases "(t, p, pc, s)" rule: del_rot.cases) (auto split: tree.split)

lemma ids_del_fix: "list_all is_LF k \<Longrightarrow> ids (del_fix k t) = ids t @ post k"
  by (induction k t rule: del_fix.induct) (auto split: tree.split nodeColor.split)

lemma ids_rb_delmin: "t \<noteq> Leaf \<Longrightarrow> ids (rb_delmin t) = tl (ids t)"
  using min_ctx_hd [of t] min_ctx_LF [of "[]" t]
  by (auto simp: rb_delmin_def ids_del_fix split: prod.split)

lemma del_rot_ok:
  assumes "invc t" "invh t" "tcolor s = BLACK" "invc s" "invh s" "bh s = Suc (bh t)"
    and "\<not> kids_black s"
  shows "invc (paint BLACK (del_rot t p pc s))" "invh (del_rot t p pc s)"
    and "bh (del_rot t p pc s) = Suc (bh t) + (if pc = BLACK then 1 else 0)"
    and "tcolor (del_rot t p pc s) = pc" "pc = RED \<Longrightarrow> invc (del_rot t p pc s)"
    "invc (del_rot t p pc s)"
  using assms
  by (cases "(t, p, pc, s)" rule: del_rot.cases;
      auto simp: bh_paint_black invc_paint_black split: tree.split if_splits)+

lemma rb_ok_black: "rb_ok t \<Longrightarrow> rb_ok (paint BLACK t)"
  by (simp add: rb_ok_def)

lemma del_fix_ok:
  assumes "list_all is_LF k" "invc (paint BLACK t)" "invh t"
    and "ctxh (Suc (bh t)) k" "ctxc BLACK k"
  shows "rb_ok (del_fix k t)"
  using assms
proof (induction k t rule: del_fix.induct)
  case (1 t)
  then show ?case by (simp add: rb_ok_def)
next
  case (2 p pc s k t)
  show ?case
  proof (cases "tcolor t = RED")
    case True
    with "2.prems" show ?thesis by (auto simp: rb_ok_fill bh_paint_black)
  next
    case False
    then have t: "tcolor t = BLACK" "invc t" "invh t" using "2.prems" by auto
    have s: "bh s = Suc (bh t)" "invh s" "invc s" and k: "list_all is_LF k" "ctxc BLACK k"
      "ctxc pc k" "pc = RED \<Longrightarrow> tcolor s = BLACK"
      "ctxh (if pc = BLACK then Suc (Suc (bh t)) else Suc (bh t)) k"
      using "2.prems" by (auto intro: ctxc_black)
    from s(1) obtain sl si sc sr where se: "s = Node sl (si, sc) sr"
      by (cases s rule: ids.cases) auto
    show ?thesis
    proof (cases "sc = RED")
      case True
      with se s have sl: "tcolor sl = BLACK" "invc sl" "invh sl" "bh sl = Suc (bh t)"
        and sr: "tcolor sr = BLACK" "invc sr" "invh sr" "bh sr = Suc (bh t)"
        by auto
      have "pc = BLACK" using True se k(4) by (cases pc) auto
      have "rb_ok (fill (LF si BLACK sr # k) (BN t p (paint RED sl)))" if "kids_black sl"
        using that sl sr t k \<open>pc = BLACK\<close>
        by (cases sl rule: ids.cases) (auto simp: rb_ok_fill)
      moreover have "rb_ok (fill (LF si BLACK sr # k) (del_rot t p RED sl))"
        if "\<not> kids_black sl"
        using that sl sr t k \<open>pc = BLACK\<close>
        by (simp add: rb_ok_fill del_rot_ok del: fill.simps)
      ultimately show ?thesis using t se True by (simp add: rb_ok_black del: fill.simps)
    next
      case False
      then have sc: "sc = BLACK" by simp
      have "rb_ok (del_fix k (Node t (p, pc) (paint RED s)))" if kb: "kids_black s"
      proof (rule "2.IH"(2))
        show "invc (paint BLACK (Node t (p, pc) (paint RED s)))"
          using kb s t se sc by auto
        show "invh (Node t (p, pc) (paint RED s))" using s t se sc by auto
        show "ctxh (Suc (bh (Node t (p, pc) (paint RED s)))) k"
          using k s se sc by (auto split: if_splits)
      qed (use k t kb se sc False in auto)
      moreover have "rb_ok (fill k (del_rot t p pc s))" if nb: "\<not> kids_black s"
      proof -
        have "tcolor s = BLACK" using se sc by simp
        note rot = del_rot_ok [OF t(2,3) this s(3,2,1) nb]
        show ?thesis unfolding rb_ok_fill using rot k by (simp split: if_splits)
      qed
      ultimately show ?thesis using t se sc by (simp add: rb_ok_black)
    qed
  qed
qed simp

lemma rb_ok_delmin: "rb_ok t \<Longrightarrow> rb_ok (rb_delmin t)"
proof (cases "t = Leaf")
  case False
  assume ok: "rb_ok t"
  obtain k i c r where m: "min_ctx t [] = (k, i, c, r)" by (metis prod_cases4)
  have LF: "list_all is_LF k" using min_ctx_LF [OF _ m] by simp
  have f: "rb_ok (fill k (Node Leaf (i, c) r))" using min_ctx_fill [OF False m] ok by simp
  then have r: "invc r" "invh r" "bh r = 0" "c = RED \<Longrightarrow> tcolor r = BLACK"
    and k: "ctxh (if c = BLACK then 1 else 0) k" "ctxc c k"
    by (auto simp: rb_ok_fill)
  have "rb_ok (paint BLACK r)" using r by (simp add: rb_ok_def invc_paint_black)
  moreover have "rb_ok (fill k (paint BLACK r))" if "c \<noteq> tcolor r" "r \<noteq> Leaf"
    using that r k by (cases c) (auto simp: rb_ok_fill bh_paint_black invc_paint_black ctxc_black)
  moreover have "rb_ok (fill k r)" if "c = RED"
    using that r k by (auto simp: rb_ok_fill intro: ctxc_black)
  moreover have "rb_ok (del_fix k r)" if "c = BLACK"
    using that r k LF by (simp add: del_fix_ok invc_paint_black)
  ultimately show ?thesis using m by (auto simp: rb_delmin_def)
qed (simp add: rb_delmin_def)

end
