(* ===== verification/RB_Heap.thy ===== *)
theory RB_Heap
  imports RB_Code RB_Spec
begin

text \<open>
  The representation of a tree by the links of the process table, positions included, and the
  effect of the pointer primitives on it: reading a node, repainting a node, and the two
  rotations. Every operation changes links and colours of tree nodes only; \<open>only_links\<close> says so.
\<close>

section \<open>A tree in the process table\<close>

fun rootp :: "rbtree \<Rightarrow> ptr" where
  "rootp Leaf = None"
| "rootp (Node _ (i, _) _) = Some i"

fun tree_at :: "(nat \<Rightarrow> proc) \<Rightarrow> ptr \<Rightarrow> rbtree \<Rightarrow> bool" where
  "tree_at h pp Leaf \<longleftrightarrow> True"
| "tree_at h pp (Node l (i, c) r) \<longleftrightarrow> pParent (h i) = pp \<and> color (h i) = c \<and>
     left (h i) = rootp l \<and> right (h i) = rootp r \<and> tree_at h (Some i) l \<and> tree_at h (Some i) r"

definition rep :: "rbs \<Rightarrow> rbtree \<Rightarrow> bool" where
  "rep s t \<longleftrightarrow> root (procTree s) = rootp t \<and> tree_at (procs s) None t \<and> distinct (ids t)"

fun fnode :: "frame \<Rightarrow> nat" where
  "fnode (LF i c r) = i"
| "fnode (RF l i c) = i"

fun ctx_par :: "ctx \<Rightarrow> ptr" where
  "ctx_par [] = None"
| "ctx_par (f # k) = Some (fnode f)"

fun ctx_root :: "ptr \<Rightarrow> ctx \<Rightarrow> ptr" where
  "ctx_root q [] = q"
| "ctx_root q (f # k) = ctx_root (Some (fnode f)) k"

fun ctx_at :: "(nat \<Rightarrow> proc) \<Rightarrow> ptr \<Rightarrow> ctx \<Rightarrow> bool" where
  "ctx_at h q [] \<longleftrightarrow> True"
| "ctx_at h q (LF i c r # k) \<longleftrightarrow> pParent (h i) = ctx_par k \<and> color (h i) = c \<and>
     left (h i) = q \<and> right (h i) = rootp r \<and> tree_at h (Some i) r \<and> ctx_at h (Some i) k"
| "ctx_at h q (RF l i c # k) \<longleftrightarrow> pParent (h i) = ctx_par k \<and> color (h i) = c \<and>
     left (h i) = rootp l \<and> right (h i) = q \<and> tree_at h (Some i) l \<and> ctx_at h (Some i) k"

lemma rootp_None [simp]: "rootp t = None \<longleftrightarrow> t = Leaf" "None = rootp t \<longleftrightarrow> t = Leaf"
  by (cases t rule: ids.cases; simp)+

lemma rootp_in: "rootp t = Some i \<Longrightarrow> i \<in> set (ids t)"
  by (cases t rule: ids.cases) auto

lemma rootp_notin: "i \<notin> set (ids t) \<Longrightarrow> rootp t \<noteq> Some i" "i \<notin> set (ids t) \<Longrightarrow> Some i \<noteq> rootp t"
  by (cases t rule: ids.cases; auto)+

lemma rootp_paint [simp]: "rootp (paint c t) = rootp t"
  by (cases t rule: ids.cases) auto

lemma rootp_fill: "rootp (fill k t) = ctx_root (rootp t) k"
  by (induction k t rule: fill.induct) auto

lemma tree_at_fill:
  "tree_at h None (fill k t) \<longleftrightarrow> tree_at h (ctx_par k) t \<and> ctx_at h (rootp t) k"
  by (induction k t rule: fill.induct) auto

lemma rep_fill:
  "rep s (fill k t) \<longleftrightarrow> root (procTree s) = ctx_root (rootp t) k \<and>
     tree_at (procs s) (ctx_par k) t \<and> ctx_at (procs s) (rootp t) k \<and>
     distinct (pre k @ ids t @ post k)"
  by (simp add: rep_def rootp_fill tree_at_fill conj_ac)

text \<open>Nodes outside a tree do not matter to it.\<close>

definition links :: "proc \<Rightarrow> ptr \<times> ptr \<times> ptr \<times> nodeColor" where
  "links p = (left p, right p, pParent p, color p)"

lemma tree_at_cong:
  "(\<And>i. i \<in> set (ids t) \<Longrightarrow> links (h i) = links (h' i)) \<Longrightarrow> tree_at h pp t \<longleftrightarrow> tree_at h' pp t"
  by (induction h pp t rule: tree_at.induct) (auto simp: links_def)

lemma ctx_at_cong:
  "(\<And>i. i \<in> set (pre k) \<union> set (post k) \<Longrightarrow> links (h i) = links (h' i)) \<Longrightarrow>
   ctx_at h q k \<longleftrightarrow> ctx_at h' q k"
proof (induction h q k rule: ctx_at.induct)
  case (2 h q i c r k)
  have "tree_at h (Some i) r \<longleftrightarrow> tree_at h' (Some i) r"
    by (rule tree_at_cong) (use "2.prems" in auto)
  moreover have "ctx_at h (Some i) k \<longleftrightarrow> ctx_at h' (Some i) k"
    by (rule "2.IH") (use "2.prems" in auto)
  moreover have "links (h i) = links (h' i)" using "2.prems" by simp
  ultimately show ?case by (simp add: links_def)
next
  case (3 h q l i c k)
  have "tree_at h (Some i) l \<longleftrightarrow> tree_at h' (Some i) l"
    by (rule tree_at_cong) (use "3.prems" in auto)
  moreover have "ctx_at h (Some i) k \<longleftrightarrow> ctx_at h' (Some i) k"
    by (rule "3.IH") (use "3.prems" in auto)
  moreover have "links (h i) = links (h' i)" using "3.prems" by simp
  ultimately show ?case by (simp add: links_def)
qed simp

lemma tree_at_upd [simp]: "i \<notin> set (ids t) \<Longrightarrow> tree_at (h(i := x)) pp t \<longleftrightarrow> tree_at h pp t"
  by (rule tree_at_cong) auto

lemma ctx_at_upd [simp]:
  "i \<notin> set (pre k) \<Longrightarrow> i \<notin> set (post k) \<Longrightarrow> ctx_at (h(i := x)) q k \<longleftrightarrow> ctx_at h q k"
  by (rule ctx_at_cong) auto

lemma rep_cong:
  assumes "rep s t" "root (procTree s') = root (procTree s)"
    and "\<And>i. i \<in> set (ids t) \<Longrightarrow> links (procs s' i) = links (procs s i)"
  shows "rep s' t"
  using assms tree_at_cong [of t "procs s'" "procs s" None] by (simp add: rep_def)

text \<open>Changes of links and colours only, within a set of nodes.\<close>

definition relink :: "proc \<Rightarrow> proc \<Rightarrow> bool" where
  "relink p q \<longleftrightarrow>
     q = p\<lparr>color := color q, left := left q, right := right q, pParent := pParent q\<rparr>"

definition only_links :: "nat set \<Rightarrow> rbs \<Rightarrow> rbs \<Rightarrow> bool" where
  "only_links A s s' \<longleftrightarrow> procTree s' = (procTree s)\<lparr>root := root (procTree s')\<rparr> \<and>
     (\<forall>i. relink (procs s i) (procs s' i)) \<and> (\<forall>i. i \<notin> A \<longrightarrow> procs s' i = procs s i)"

lemma relink_refl [simp]: "relink p p"
  by (simp add: relink_def)

lemma relink_trans: "relink p q \<Longrightarrow> relink q r \<Longrightarrow> relink p r"
  by (cases p, cases q, cases r) (simp add: relink_def)

lemma relink_upd [simp]:
  "relink p (q\<lparr>color := c\<rparr>) = relink p q" "relink p (q\<lparr>left := a\<rparr>) = relink p q"
  "relink p (q\<lparr>right := a\<rparr>) = relink p q" "relink p (q\<lparr>pParent := a\<rparr>) = relink p q"
  by (cases p, cases q, simp add: relink_def)+

lemma relink_fields:
  assumes "relink p q"
  shows "state q = state p" "virtualRuntime q = virtualRuntime p"
    "currentRuntime q = currentRuntime p" "maxExecutionTime q = maxExecutionTime p"
    "niceVal q = niceVal p" "weightVal q = weightVal p" "pid q = pid p" "chan q = chan p"
    "killed q = killed p" "parent q = parent p"
  using assms by (cases p, cases q, simp add: relink_def)+

lemma only_links_refl [simp]: "only_links A s s"
  by (simp add: only_links_def)

lemma only_links_trans:
  "only_links A s s' \<Longrightarrow> only_links A s' s'' \<Longrightarrow> only_links A s s''"
  by (cases "procTree s"; cases "procTree s'"; cases "procTree s''")
    (auto simp: only_links_def intro: relink_trans)

lemma only_links_mono: "only_links A s s' \<Longrightarrow> A \<subseteq> B \<Longrightarrow> only_links B s s'"
  by (auto simp: only_links_def)

lemma only_links_fields:
  assumes "only_links A s s'"
  shows "virtualRuntime (procs s' i) = virtualRuntime (procs s i)"
    "weightVal (procs s' i) = weightVal (procs s i)" "state (procs s' i) = state (procs s i)"
    "niceVal (procs s' i) = niceVal (procs s i)"
    "count (procTree s') = count (procTree s)" "minvRuntime (procTree s') = minvRuntime (procTree s)"
    "treeWeight (procTree s') = treeWeight (procTree s)" "period (procTree s') = period (procTree s)"
    "i \<notin> A \<Longrightarrow> procs s' i = procs s i" "relink (procs s i) (procs s' i)"
  using assms relink_fields [of "procs s i" "procs s' i"]
  by (auto simp: only_links_def) (metis RBTree.select_convs RBTree.surjective RBTree.update_convs)+

section \<open>Reading and repainting at a position\<close>

lemma rep_node:
  assumes "rep s (fill k (Node l (i, c) r))"
  shows "left (procs s i) = rootp l" "right (procs s i) = rootp r" "color (procs s i) = c"
    "pParent (procs s i) = ctx_par k" "i \<notin> set (ids l)" "i \<notin> set (ids r)"
    "i \<notin> set (pre k)" "i \<notin> set (post k)"
  using assms by (auto simp: rep_fill)

lemma rep_up:
  "rep s (fill k (Node l (i, c) r)) \<Longrightarrow> rep s (fill (LF i c r # k) l)"
  "rep s (fill k (Node l (i, c) r)) \<Longrightarrow> rep s (fill (RF l i c # k) r)"
  by simp_all

lemma rep_paint:
  assumes "rep s (fill k (Node l (i, c) r))"
  shows "rep (s\<lparr>procs := (procs s)(i := (procs s i)\<lparr>color := c'\<rparr>)\<rparr>) (fill k (Node l (i, c') r))"
  using assms by (auto simp: rep_fill)

lemma only_links_set [simp]:
  "i \<in> A \<Longrightarrow> only_links A s (s\<lparr>procs := (procs s)(i := (procs s i)\<lparr>color := c\<rparr>)\<rparr>)"
  by (simp add: only_links_def)

section \<open>Rotations\<close>

lemma ctx_cases [case_names Nil LF RF]:
  fixes k :: ctx
  assumes "k = [] \<Longrightarrow> P" "\<And>i c r k'. k = LF i c r # k' \<Longrightarrow> P" "\<And>l i c k'. k = RF l i c # k' \<Longrightarrow> P"
  shows P
  using assms by (cases k) (auto, metis frame.exhaust)

lemma rotateLeft_rep:
  assumes r: "rep s (fill k (Node a (x, cx) (Node b (y, cy) c)))"
  shows "\<exists>s'. rotateLeft (Some x) s = ret s' \<and> rep s' (fill k (Node (Node a (x, cx) b) (y, cy) c)) \<and>
    only_links (set (ids (fill k (Node a (x, cx) (Node b (y, cy) c))))) s s'"
proof (cases k rule: ctx_cases)
  case Nil
  with r show ?thesis
    by (cases b rule: ids.cases) (auto simp: rep_def rotateLeft_def only_links_def)
next
  case (LF i ci ri k')
  with r show ?thesis
    by (cases b rule: ids.cases)
      (auto simp: rep_fill rotateLeft_def only_links_def rootp_notin)
next
  case (RF li i ci k')
  with r show ?thesis
    by (cases b rule: ids.cases)
      (auto simp: rep_fill rotateLeft_def only_links_def rootp_notin)
qed

lemma rotateRight_rep:
  assumes r: "rep s (fill k (Node (Node a (x, cx) b) (y, cy) c))"
  shows "\<exists>s'. rotateRight (Some y) s = ret s' \<and> rep s' (fill k (Node a (x, cx) (Node b (y, cy) c))) \<and>
    only_links (set (ids (fill k (Node (Node a (x, cx) b) (y, cy) c)))) s s'"
proof (cases k rule: ctx_cases)
  case Nil
  with r show ?thesis
    by (cases b rule: ids.cases) (auto simp: rep_def rotateRight_def only_links_def)
next
  case (LF i ci ri k')
  with r show ?thesis
    by (cases b rule: ids.cases)
      (auto simp: rep_fill rotateRight_def only_links_def rootp_notin)
next
  case (RF li i ci k')
  with r show ?thesis
    by (cases b rule: ids.cases)
      (auto simp: rep_fill rotateRight_def only_links_def rootp_notin)
qed

end
