(* ===== verification/RB_Insert.thy ===== *)
theory RB_Insert
  imports RB_Heap
begin

text \<open>
  Insertion: the pointer routines \<open>insertProc\<close>, \<open>insertionCases\<close> and
  \<open>setMinimumVRuntimeproc\<close> return on every well-formed ready tree, follow no null pointer, and
  compute the insertion, the repair and the minimum of the tree algorithms.
\<close>

section \<open>Weights\<close>

lemma weight_loop_returns:
  assumes "weight_loop i nice d = Some x"
  shows "\<not> (i < nice \<and> nice > 0)"
proof (rule weight_loop.raw_induct [where P = "\<lambda>i nice d x. \<not> (i < nice \<and> nice > 0)", OF _ assms])
  fix f :: "int \<Rightarrow> int \<Rightarrow> rat \<Rightarrow> rat kres" and i nice d x
  assume IH: "\<And>i nice d x. f i nice d = Some x \<Longrightarrow> \<not> (i < nice \<and> nice > 0)"
    and eq: "(if i < nice \<and> nice > 0 then f i nice (d * (5 / 4)) else ret d) = Some x"
  show "\<not> (i < nice \<and> nice > 0)"
  proof
    assume c: "i < nice \<and> nice > 0"
    with eq have "f i nice (d * (5 / 4)) = Some x" by simp
    with IH c show False by blast
  qed
qed

lemma weight_loop_value: "weight_loop i nice d = (if i < nice \<and> nice > 0 then hang else ret d)"
proof (cases "i < nice \<and> nice > 0")
  case True
  then have "weight_loop i nice d \<noteq> Some x" for x using weight_loop_returns by blast
  then have "weight_loop i nice d = hang" by (cases "weight_loop i nice d") auto
  with True show ?thesis by simp
next
  case False
  then show ?thesis by (subst weight_loop.simps) auto
qed

lemma floor_819: "\<lfloor>1024 / (5 / 4 :: rat)\<rfloor> = 819"
  by (simp add: floor_eq_iff)

lemma calculateWight_value: "calculateWight nice = (if nice > 0 then hang else ret 819)"
  using floor_819 by (simp add: calculateWight_def weight_loop_value)

section \<open>The minimum\<close>

lemma ids_hd_Node: "l \<noteq> Leaf \<Longrightarrow> hd (ids (Node l (i, c) r)) = hd (ids l)"
  by simp

definition minp :: "nat list \<Rightarrow> ptr" where
  "minp q = (if q = [] then None else Some (hd q))"

lemma minp_simps [simp]: "minp [] = None" "minp (x # q) = Some x"
  by (simp_all add: minp_def)

lemma setMinimum_at:
  "tree_at (procs s) pp t \<Longrightarrow> setMinimumVRuntimeproc (rootp t) s = ret (minp (ids t))"
proof (induction "procs s" pp t rule: tree_at.induct)
  case (1 pp)
  then show ?case by (subst setMinimumVRuntimeproc.simps) simp
next
  case (2 pp l i c r)
  then show ?case
    by (subst setMinimumVRuntimeproc.simps) (auto simp: minp_def)
qed

lemma setMinimum_rep:
  "rep s t \<Longrightarrow> setMinimumVRuntimeproc (root (procTree s)) s = ret (minp (ids t))"
  using setMinimum_at [of s None t] by (simp add: rep_def)

section \<open>The descent\<close>

fun ins_raw :: "(nat \<Rightarrow> int) \<Rightarrow> int \<Rightarrow> nat \<Rightarrow> rbtree \<Rightarrow> rbtree" where
  "ins_raw K v z Leaf = RN Leaf z Leaf"
| "ins_raw K v z (Node l (i, c) r) =
     (if K i \<le> v then Node l (i, c) (ins_raw K v z r) else Node (ins_raw K v z l) (i, c) r)"

lemma fill_ins_ctx: "fill (ins_ctx K v t k) (RN Leaf z Leaf) = fill k (ins_raw K v z t)"
  by (induction K v t k rule: ins_ctx.induct) auto

lemma rootp_ins_raw: "t \<noteq> Leaf \<Longrightarrow> rootp (ins_raw K v z t) = rootp t"
  by (cases t rule: ids.cases) auto

lemma set_ids_ins_raw [simp]: "set (ids (ins_raw K v z t)) = insert z (set (ids t))"
  by (induction t rule: ids.induct) auto

lemma ins_raw_cong:
  "(\<And>i. i \<in> set (ids t) \<Longrightarrow> K i = K' i) \<Longrightarrow> ins_raw K v z t = ins_raw K' v z t"
  by (induction t rule: ids.induct) auto

lemma insertProc_at:
  fixes K :: "nat \<Rightarrow> int"
  assumes "tree_at (procs s) pp t" "distinct (ids t)" "z \<notin> set (ids t)"
    and "left (procs s z) = None" "right (procs s z) = None"
    and "t = Leaf \<Longrightarrow> pParent (procs s z) = pp"
    and "\<And>i. i \<in> insert z (set (ids t)) \<Longrightarrow> K i = virtualRuntime (procs s i)"
  shows "\<exists>s'. insertProc (rootp t) (Some z) s = ret (rootp (ins_raw K (K z) z t), s') \<and>
    tree_at (procs s') pp (ins_raw K (K z) z t) \<and> procTree s' = procTree s \<and>
    only_links (insert z (set (ids t))) s s'"
  using assms
proof (induction t arbitrary: s pp rule: ids.induct)
  case 1
  then show ?case by (subst insertProc.simps) (auto simp: only_links_def)
next
  case (2 l i c r)
  define s1 where "s1 = s\<lparr>procs := (procs s)(z := (procs s z)\<lparr>color := RED, pParent := Some i\<rparr>)\<rparr>"
  have zi: "z \<noteq> i" "z \<notin> set (ids l)" "z \<notin> set (ids r)" using "2.prems"(3) by auto
  have dj: "\<And>j. j \<in> set (ids l) \<Longrightarrow> j \<notin> set (ids r)"
      "\<And>j. j \<in> set (ids r) \<Longrightarrow> j \<notin> set (ids l)"
    using "2.prems"(2) by auto
  have K: "K i = virtualRuntime (procs s i)" "K z = virtualRuntime (procs s z)"
    using "2.prems"(7) by auto
  have o1: "only_links (insert z A) s s1" for A by (simp add: s1_def only_links_def)
  have s1: "tree_at (procs s1) (Some i) l" "tree_at (procs s1) (Some i) r"
    "left (procs s1 z) = None" "right (procs s1 z) = None" "pParent (procs s1 z) = Some i"
    "\<And>j. virtualRuntime (procs s1 j) = virtualRuntime (procs s j)"
    using "2.prems"(1,4,5) zi by (simp_all add: s1_def)
  let ?t = "Node l (i, c) r"
  show ?case
  proof (cases "K i \<le> K z")
    case True
    have "\<exists>s'. insertProc (rootp r) (Some z) s1 = ret (rootp (ins_raw K (K z) z r), s') \<and>
        tree_at (procs s') (Some i) (ins_raw K (K z) z r) \<and> procTree s' = procTree s1 \<and>
        only_links (insert z (set (ids r))) s1 s'"
      by (rule "2.IH"(2)) (use "2.prems"(2,7) zi s1 in auto)
    then obtain s2 where s2: "insertProc (rootp r) (Some z) s1 = ret (rootp (ins_raw K (K z) z r), s2)"
      "tree_at (procs s2) (Some i) (ins_raw K (K z) z r)" "procTree s2 = procTree s"
      and o2: "only_links (insert z (set (ids r))) s1 s2"
      by (auto simp: s1_def)
    have same: "procs s2 j = procs s j" if "j \<notin> insert z (set (ids r))" for j
      using that only_links_fields(9) [OF o2] by (simp add: s1_def)
    define s3 where "s3 = s2\<lparr>procs := (procs s2)(i := (procs s2 i)\<lparr>right := rootp (ins_raw K (K z) z r)\<rparr>)\<rparr>"
    have "insertProc (Some i) (Some z) s = ret (Some i, s3)"
      using True K s2 zi "2.prems"(1)
      by (subst insertProc.simps) (simp add: s1_def s3_def)
    moreover have "tree_at (procs s3) pp (ins_raw K (K z) z ?t)"
    proof -
      have "tree_at (procs s2) (Some i) l \<longleftrightarrow> tree_at (procs s) (Some i) l"
        by (rule tree_at_cong) (metis same dj zi insertE)
      then show ?thesis
        using True s2 same [of i] zi "2.prems"(1,2) by (simp add: s3_def)
    qed
    moreover have "only_links (insert z (set (ids ?t))) s s3"
      using only_links_trans [OF o1 only_links_mono [OF o2]] s2(3)
      by (auto simp: s3_def only_links_def)
    ultimately show ?thesis using True s2(3) by (simp add: s3_def)
  next
    case False
    have "\<exists>s'. insertProc (rootp l) (Some z) s1 = ret (rootp (ins_raw K (K z) z l), s') \<and>
        tree_at (procs s') (Some i) (ins_raw K (K z) z l) \<and> procTree s' = procTree s1 \<and>
        only_links (insert z (set (ids l))) s1 s'"
      by (rule "2.IH"(1)) (use "2.prems"(2,7) zi s1 in auto)
    then obtain s2 where s2: "insertProc (rootp l) (Some z) s1 = ret (rootp (ins_raw K (K z) z l), s2)"
      "tree_at (procs s2) (Some i) (ins_raw K (K z) z l)" "procTree s2 = procTree s"
      and o2: "only_links (insert z (set (ids l))) s1 s2"
      by (auto simp: s1_def)
    have same: "procs s2 j = procs s j" if "j \<notin> insert z (set (ids l))" for j
      using that only_links_fields(9) [OF o2] by (simp add: s1_def)
    define s3 where "s3 = s2\<lparr>procs := (procs s2)(i := (procs s2 i)\<lparr>left := rootp (ins_raw K (K z) z l)\<rparr>)\<rparr>"
    have "insertProc (Some i) (Some z) s = ret (Some i, s3)"
      using False K s2 zi "2.prems"(1)
      by (subst insertProc.simps) (simp add: s1_def s3_def)
    moreover have "tree_at (procs s3) pp (ins_raw K (K z) z ?t)"
    proof -
      have "tree_at (procs s2) (Some i) r \<longleftrightarrow> tree_at (procs s) (Some i) r"
        by (rule tree_at_cong) (metis same dj zi insertE)
      then show ?thesis
        using False s2 same [of i] zi "2.prems"(1,2) by (simp add: s3_def)
    qed
    moreover have "only_links (insert z (set (ids ?t))) s s3"
      using only_links_trans [OF o1 only_links_mono [OF o2]] s2(3)
      by (auto simp: s3_def only_links_def)
    ultimately show ?thesis using False s2(3) by (simp add: s3_def)
  qed
qed

section \<open>The repair\<close>

lemma insertionCases_1: "insertionCases p 1 s =
   kbind (rd pParent p s) (\<lambda>par.
   if par = None then wr (color_update (\<lambda>_. BLACK)) p s else insertionCases p 2 s)"
  by (subst insertionCases.simps) simp

lemma insertionCases_2: "insertionCases p 2 s =
   kbind (rd pParent p s) (\<lambda>par. kbind (rd color par s) (\<lambda>c.
   if c = RED then insertionCases p 3 s else ret s))"
  by (subst insertionCases.simps) simp

lemma insertionCases_3: "insertionCases p 3 s =
   kbind (getUncleProc p s) (\<lambda>uncle.
   kbind (both_eq (uncle \<noteq> None) (kbind (rd color uncle s) (\<lambda>c. ret (c = RED)))) (\<lambda>red.
   if red then
     kbind (rd pParent p s) (\<lambda>par.
     kbind (wr (color_update (\<lambda>_. BLACK)) par s) (\<lambda>s.
     kbind (wr (color_update (\<lambda>_. BLACK)) uncle s) (\<lambda>s.
     kbind (getGrandparentProc p s) (\<lambda>grandparent.
     kbind (wr (color_update (\<lambda>_. RED)) grandparent s) (\<lambda>s.
     insertionCases grandparent 1 s)))))
   else insertionCases p 4 s))"
  by (subst insertionCases.simps) simp

lemma insertionCases_4: "insertionCases p 4 s =
   kbind (getGrandparentProc p s) (\<lambda>grandparent.
   kbind (rd pParent p s) (\<lambda>par.
   kbind (rd right par s) (\<lambda>pr.
   kbind (both_eq (p = pr) (kbind (rd left grandparent s) (\<lambda>gl. ret (par = gl)))) (\<lambda>lr.
   if lr then
     kbind (rotateLeft par s) (\<lambda>s. kbind (rd left p s) (\<lambda>q. insertionCases q 5 s))
   else
     kbind (rd left par s) (\<lambda>pl.
     kbind (both_eq (p = pl) (kbind (rd right grandparent s) (\<lambda>gr. ret (par = gr)))) (\<lambda>rl.
     if rl then
       kbind (rotateRight par s) (\<lambda>s. kbind (rd right p s) (\<lambda>q. insertionCases q 5 s))
     else insertionCases p 5 s))))))"
  by (subst insertionCases.simps) simp

lemma insertionCases_5: "insertionCases p 5 s =
   kbind (getGrandparentProc p s) (\<lambda>grandparent.
   if grandparent \<noteq> None then
     kbind (wr (color_update (\<lambda>_. RED)) grandparent s) (\<lambda>s.
     kbind (rd pParent p s) (\<lambda>par.
     kbind (wr (color_update (\<lambda>_. BLACK)) par s) (\<lambda>s.
     kbind (rd left par s) (\<lambda>pl.
     kbind (both_eq (p = pl) (kbind (rd left grandparent s) (\<lambda>gl. ret (par = gl)))) (\<lambda>ll.
     if ll then rotateRight grandparent s
     else
       kbind (rd right par s) (\<lambda>pr.
       kbind (both_eq (p = pr) (kbind (rd right grandparent s) (\<lambda>gr. ret (par = gr)))) (\<lambda>rr.
       if rr then rotateLeft grandparent s else ret s)))))))
   else ret s)"
  by (subst insertionCases.simps) simp

fun fsub :: "frame \<Rightarrow> rbtree" where
  "fsub (LF i c r) = r"
| "fsub (RF l i c) = l"

fun fcolor :: "frame \<Rightarrow> nodeColor" where
  "fcolor (LF i c r) = c"
| "fcolor (RF l i c) = c"

fun plug :: "frame \<Rightarrow> nodeColor \<Rightarrow> rbtree \<Rightarrow> rbtree" where
  "plug (LF i _ r) c t = Node t (i, c) r"
| "plug (RF l i _) c t = Node l (i, c) t"

fun fblack :: "frame \<Rightarrow> frame" where
  "fblack (LF i c r) = LF i c (paint BLACK r)"
| "fblack (RF l i c) = RF (paint BLACK l) i c"

lemma grandparent_rep:
  "rep s (fill (f # g # k) (Node a (x, c) b)) \<Longrightarrow>
   getGrandparentProc (Some x) s = ret (Some (fnode g))"
  by (cases f; cases g) (auto simp: rep_fill getGrandparentProc_def)

lemma uncle_rep:
  "rep s (fill (f # g # k) (Node a (x, c) b)) \<Longrightarrow> getUncleProc (Some x) s = ret (rootp (fsub g))"
  by (cases f; cases g)
    (auto simp: rep_fill getUncleProc_def getGrandparentProc_def rootp_notin)

lemma parent_rep:
  "rep s (fill (f # k) (Node a (x, c) b)) \<Longrightarrow>
   pParent (procs s x) = Some (fnode f) \<and> color (procs s (fnode f)) = fcolor f"
  by (cases f) (auto simp: rep_fill)

text \<open>The recolouring of case 3.\<close>

definition recolor :: "nat \<Rightarrow> nat \<Rightarrow> nat \<Rightarrow> rbs \<Rightarrow> rbs" where
  "recolor p u g s = s\<lparr>procs := (procs s)
     (p := (procs s p)\<lparr>color := BLACK\<rparr>, u := (procs s u)\<lparr>color := BLACK\<rparr>,
      g := (procs s g)\<lparr>color := RED\<rparr>)\<rparr>"

lemma red_uncle_rep:
  assumes r: "rep s (fill (f # g # k) (Node a (x, c) b))" and u: "fsub g = Node ul (u, RED) ur"
  defines "s3 \<equiv> recolor (fnode f) u (fnode g) s"
  shows "insertionCases (Some x) 3 s = insertionCases (Some (fnode g)) 1 s3"
    "rep s3 (fill k (plug (fblack g) RED (plug f BLACK (Node a (x, c) b))))"
    "only_links (set (ids (fill (f # g # k) (Node a (x, c) b)))) s s3"
proof -
  note gp = grandparent_rep [OF r] and un = uncle_rep [OF r] and pa = parent_rep [OF r]
  have uc: "color (procs s u) = RED"
    using r u by (cases f; cases g) (auto simp: rep_fill)
  have d: "fnode f \<noteq> u" "fnode f \<noteq> fnode g" "u \<noteq> fnode g" "x \<noteq> fnode f" "x \<noteq> u" "x \<noteq> fnode g"
    using r u by (cases f; cases g; auto simp: rep_fill)+
  have gp': "getGrandparentProc (Some x) (s\<lparr>procs := (procs s)
      (fnode f := (procs s (fnode f))\<lparr>color := BLACK\<rparr>, u := (procs s u)\<lparr>color := BLACK\<rparr>)\<rparr>)
      = ret (Some (fnode g))"
    using gp pa d by (auto simp: getGrandparentProc_def)
  show "insertionCases (Some x) 3 s = insertionCases (Some (fnode g)) 1 s3"
    using un pa uc u d gp'
    by (simp add: insertionCases_3 both_eq_def s3_def recolor_def)
  show "rep s3 (fill k (plug (fblack g) RED (plug f BLACK (Node a (x, c) b))))"
    using r u d unfolding s3_def recolor_def
    by (cases f; cases g) (auto simp: rep_fill)
  show "only_links (set (ids (fill (f # g # k) (Node a (x, c) b)))) s s3"
    using u unfolding s3_def recolor_def
    by (cases f; cases g) (auto simp: only_links_def)
qed

text \<open>The rotations of cases 4 and 5.\<close>

lemma case5_LL:
  assumes r: "rep s (fill k (Node (Node (Node a (x, c) b) (p, pc) pr) (g, gc) u))"
  shows "\<exists>s'. insertionCases (Some x) 5 s = ret s' \<and>
    rep s' (fill k (BN (Node a (x, c) b) p (RN pr g u))) \<and>
    only_links (set (ids (fill k (Node (Node (Node a (x, c) b) (p, pc) pr) (g, gc) u)))) s s'"
proof -
  define s2 where "s2 = s\<lparr>procs := (procs s)
    (g := (procs s g)\<lparr>color := RED\<rparr>, p := (procs s p)\<lparr>color := BLACK\<rparr>)\<rparr>"
  have gp: "getGrandparentProc (Some x) s = ret (Some g)"
    using grandparent_rep [of s "LF p pc pr" "LF g gc u" k a x c b] r by simp
  have r2: "rep s2 (fill k (RN (BN (Node a (x, c) b) p pr) g u))"
    using r unfolding s2_def by (auto simp: rep_fill)
  have o2: "only_links (set (ids (fill k (Node (Node (Node a (x, c) b) (p, pc) pr) (g, gc) u)))) s s2"
    unfolding s2_def by (auto simp: only_links_def)
  have "insertionCases (Some x) 5 s = rotateRight (Some g) s2"
    using r gp by (auto simp: insertionCases_5 both_eq_def rep_fill s2_def)
  then show ?thesis
    using rotateRight_rep [OF r2] only_links_trans [OF o2] by auto
qed

lemma case5_RR:
  assumes r: "rep s (fill k (Node u (g, gc) (Node pl (p, pc) (Node a (x, c) b))))"
  shows "\<exists>s'. insertionCases (Some x) 5 s = ret s' \<and>
    rep s' (fill k (BN (RN u g pl) p (Node a (x, c) b))) \<and>
    only_links (set (ids (fill k (Node u (g, gc) (Node pl (p, pc) (Node a (x, c) b)))))) s s'"
proof -
  define s2 where "s2 = s\<lparr>procs := (procs s)
    (g := (procs s g)\<lparr>color := RED\<rparr>, p := (procs s p)\<lparr>color := BLACK\<rparr>)\<rparr>"
  have gp: "getGrandparentProc (Some x) s = ret (Some g)"
    using grandparent_rep [of s "RF pl p pc" "RF u g gc" k a x c b] r by simp
  have r2: "rep s2 (fill k (RN u g (BN pl p (Node a (x, c) b))))"
    using r unfolding s2_def by (auto simp: rep_fill)
  have o2: "only_links (set (ids (fill k (Node u (g, gc) (Node pl (p, pc) (Node a (x, c) b)))))) s s2"
    unfolding s2_def by (auto simp: only_links_def)
  have "insertionCases (Some x) 5 s = rotateLeft (Some g) s2"
    using r gp by (auto simp: insertionCases_5 both_eq_def rep_fill s2_def rootp_notin)
  then show ?thesis
    using rotateLeft_rep [OF r2] only_links_trans [OF o2] by auto
qed

lemma case4_LL:
  assumes r: "rep s (fill k (Node (Node (Node a (x, c) b) (p, pc) pr) (g, gc) u))"
  shows "insertionCases (Some x) 4 s = insertionCases (Some x) 5 s"
  using r grandparent_rep [of s "LF p pc pr" "LF g gc u" k a x c b]
  by (auto simp: insertionCases_4 both_eq_def rep_fill rootp_notin)

lemma case4_RR:
  assumes r: "rep s (fill k (Node u (g, gc) (Node pl (p, pc) (Node a (x, c) b))))"
  shows "insertionCases (Some x) 4 s = insertionCases (Some x) 5 s"
  using r grandparent_rep [of s "RF pl p pc" "RF u g gc" k a x c b]
  by (auto simp: insertionCases_4 both_eq_def rep_fill rootp_notin)

lemma case4_LR:
  assumes r: "rep s (fill k (Node (Node pl (p, pc) (Node a (x, c) b)) (g, gc) u))"
  shows "\<exists>s'. insertionCases (Some x) 4 s = ret s' \<and> rep s' (fill k (BN (Node pl (p, pc) a) x (RN b g u))) \<and>
    only_links (set (ids (fill k (Node (Node pl (p, pc) (Node a (x, c) b)) (g, gc) u)))) s s'"
proof -
  have gp: "getGrandparentProc (Some x) s = ret (Some g)"
    using grandparent_rep [of s "RF pl p pc" "LF g gc u" k a x c b] r by simp
  obtain s1 where s1: "rotateLeft (Some p) s = ret s1"
    "rep s1 (fill (LF g gc u # k) (Node (Node pl (p, pc) a) (x, c) b))"
    "only_links (set (ids (fill k (Node (Node pl (p, pc) (Node a (x, c) b)) (g, gc) u)))) s s1"
    using rotateLeft_rep [of s "LF g gc u # k" pl p pc a x c b] r by auto
  have "left (procs s1 x) = Some p" using rep_node(1) [OF s1(2)] by simp
  then have e: "insertionCases (Some x) 4 s = insertionCases (Some p) 5 s1"
    using r gp s1(1) by (auto simp: insertionCases_4 both_eq_def rep_fill)
  obtain s' where s': "insertionCases (Some p) 5 s1 = ret s'"
    "rep s' (fill k (BN (Node pl (p, pc) a) x (RN b g u)))"
    "only_links (set (ids (fill k (Node (Node pl (p, pc) (Node a (x, c) b)) (g, gc) u)))) s1 s'"
    using case5_LL [of s1 k pl p pc a x c b g gc u] s1(2) by auto
  show ?thesis using e s' only_links_trans [OF s1(3) s'(3)] by auto
qed

lemma case4_RL:
  assumes r: "rep s (fill k (Node u (g, gc) (Node (Node a (x, c) b) (p, pc) pr)))"
  shows "\<exists>s'. insertionCases (Some x) 4 s = ret s' \<and> rep s' (fill k (BN (RN u g a) x (Node b (p, pc) pr))) \<and>
    only_links (set (ids (fill k (Node u (g, gc) (Node (Node a (x, c) b) (p, pc) pr))))) s s'"
proof -
  have gp: "getGrandparentProc (Some x) s = ret (Some g)"
    using grandparent_rep [of s "LF p pc pr" "RF u g gc" k a x c b] r by simp
  obtain s1 where s1: "rotateRight (Some p) s = ret s1"
    "rep s1 (fill (RF u g gc # k) (Node a (x, c) (Node b (p, pc) pr)))"
    "only_links (set (ids (fill k (Node u (g, gc) (Node (Node a (x, c) b) (p, pc) pr))))) s s1"
    using rotateRight_rep [of s "RF u g gc # k" a x c b p pc pr] r by auto
  have "right (procs s1 x) = Some p" using rep_node(2) [OF s1(2)] by simp
  then have e: "insertionCases (Some x) 4 s = insertionCases (Some p) 5 s1"
    using r gp s1(1) by (auto simp: insertionCases_4 both_eq_def rep_fill rootp_notin)
  obtain s' where s': "insertionCases (Some p) 5 s1 = ret s'"
    "rep s' (fill k (BN (RN u g a) x (Node b (p, pc) pr)))"
    "only_links (set (ids (fill k (Node u (g, gc) (Node (Node a (x, c) b) (p, pc) pr))))) s1 s'"
    using case5_RR [of s1 k u g gc a x c b p pc pr] s1(2) by auto
  show ?thesis using e s' only_links_trans [OF s1(3) s'(3)] by auto
qed

lemma ins_fix_black: "fcolor f = BLACK \<Longrightarrow> ins_fix (f # k) t = fill (f # k) t"
  by (cases "(f # k, t)" rule: ins_fix.cases) auto

lemma ins_fix_red_uncle:
  "fcolor f = RED \<Longrightarrow> tcolor (fsub g) = RED \<Longrightarrow>
   ins_fix (f # g # k) (Node a (x, c) b) =
     ins_fix k (plug (fblack g) RED (plug f BLACK (Node a (x, c) b)))"
  by (cases f; cases g) auto

lemma plug_Node: "\<exists>a b. plug g RED t = Node a (fnode g, RED) b"
  by (cases g) auto

lemma insertionCases_rep:
  assumes "rep s (fill k (Node a (x, RED) b))" "ctxc BLACK k"
  shows "\<exists>s'. insertionCases (Some x) 1 s = ret s' \<and> rep s' (ins_fix k (Node a (x, RED) b)) \<and>
    only_links (set (ids (fill k (Node a (x, RED) b)))) s s'"
  using assms
proof (induction k arbitrary: s a x b rule: length_induct)
  case (1 k)
  note r = "1.prems"(1)
  let ?t = "Node a (x, RED) b"
  show ?case
  proof (cases k)
    case Nil
    then show ?thesis
      using r rep_paint [of s "[]" a x RED b BLACK] by (auto simp: insertionCases_1 rep_def)
  next
    case (Cons f k1)
    note pa = parent_rep [OF r [unfolded Cons]]
    have ic: "insertionCases (Some x) 1 s =
        (if fcolor f = RED then insertionCases (Some x) 3 s else ret s)"
      using pa by (simp add: insertionCases_1 insertionCases_2)
    show ?thesis
    proof (cases "fcolor f = RED")
      case False
      then show ?thesis using r Cons ic by (simp add: ins_fix_black)
    next
      case red: True
      have "k1 \<noteq> []" using "1.prems"(2) Cons red by (cases f) auto
      then obtain g k' where g: "k1 = g # k'" by (cases k1) auto
      have cc: "ctxc BLACK k'"
        using "1.prems"(2) Cons g by (cases f; cases g) (auto intro: ctxc_black)
      note r' = r [unfolded Cons g]
      show ?thesis
      proof (cases "tcolor (fsub g) = RED")
        case True
        then obtain ul u ur where u: "fsub g = Node ul (u, RED) ur"
          by (cases "fsub g" rule: ids.cases) auto
        obtain a' b' where t': "plug (fblack g) RED (plug f BLACK ?t) = Node a' (fnode g, RED) b'"
          using plug_Node [of "fblack g"] by (cases g) auto
        note ru = red_uncle_rep [OF r' u]
        obtain s' where s': "insertionCases (Some (fnode g)) 1 (recolor (fnode f) u (fnode g) s) = ret s'"
          "rep s' (ins_fix k' (Node a' (fnode g, RED) b'))"
          "only_links (set (ids (fill k' (Node a' (fnode g, RED) b')))) (recolor (fnode f) u (fnode g) s) s'"
          using "1.IH" [rule_format, of k' "recolor (fnode f) u (fnode g) s" a' "fnode g" b']
            ru(2) cc Cons g by (auto simp: t')
        have "set (ids (fill k' (Node a' (fnode g, RED) b'))) = set (ids (fill k ?t))"
          unfolding t' [symmetric] Cons g by (cases f; cases g) auto
        then have "only_links (set (ids (fill k ?t))) s s'"
          using only_links_trans [OF ru(3)] s'(3) Cons g by simp
        then show ?thesis
          using ic red s' ru(1) True Cons g t' by (simp add: ins_fix_red_uncle)
      next
        case False
        then have ub: "tcolor (fsub g) = BLACK" by simp
        have i3: "insertionCases (Some x) 3 s = insertionCases (Some x) 4 s"
          using uncle_rep [OF r'] ub r'
          by (cases f; cases g; cases "fsub g" rule: ids.cases)
            (auto simp: insertionCases_3 both_eq_def rep_fill)
        show ?thesis
        proof (cases f)
          case f: (LF p pc pr)
          show ?thesis
          proof (cases g)
            case (LF gi gc u)
            then show ?thesis
              using case5_LL [of s k' a x RED b p pc pr gi gc u]
                case4_LL [of s k' a x RED b p pc pr gi gc u] r' f ic red i3 Cons g ub by auto
          next
            case (RF u gi gc)
            then show ?thesis
              using case4_RL [of s k' u gi gc a x RED b p pc pr] r' f ic red i3 Cons g ub by auto
          qed
        next
          case f: (RF pl p pc)
          show ?thesis
          proof (cases g)
            case (LF gi gc u)
            then show ?thesis
              using case4_LR [of s k' pl p pc a x RED b gi gc u] r' f ic red i3 Cons g ub by auto
          next
            case (RF u gi gc)
            then show ?thesis
              using case5_RR [of s k' u gi gc pl p pc a x RED b]
                case4_RR [of s k' u gi gc pl p pc a x RED b] r' f ic red i3 Cons g ub by auto
          qed
        qed
      qed
    qed
  qed
qed

section \<open>The cached minimum\<close>

text \<open>
  \<open>insertProcess\<close> recomputes the cached minimum only when the old one has a left child. A node
  inserted before the old minimum becomes its left child, and the repair keeps it there.
\<close>

fun lchild :: "rbtree \<Rightarrow> nat \<Rightarrow> nat \<Rightarrow> bool" where
  "lchild Leaf m z \<longleftrightarrow> False"
| "lchild (Node l (i, c) r) m z \<longleftrightarrow> (i = m \<and> rootp l = Some z) \<or> lchild l m z \<or> lchild r m z"

lemma lchild_paint [simp]: "lchild (paint c t) m z = lchild t m z"
  by (cases t rule: ids.cases) auto

lemma lchild_fill: "lchild t m z \<Longrightarrow> lchild (fill k t) m z"
  by (induction k t rule: fill.induct) auto

lemma lchild_at: "tree_at h pp t \<Longrightarrow> lchild t m z \<Longrightarrow> left (h m) = Some z"
  by (induction h pp t rule: tree_at.induct) auto

lemma lchild_ins_fix: "list_all is_LF k \<Longrightarrow> lchild t m z \<Longrightarrow> lchild (ins_fix k t) m z"
  by (induction k t rule: ins_fix.induct) (auto intro: lchild_fill)

lemma lchild_ins_fix_hd:
  assumes "list_all is_LF k" "rootp t = Some z"
  shows "lchild (ins_fix (LF m c r # k) t) m z"
proof (cases "c = BLACK \<or> k = []")
  case True
  then have "ins_fix (LF m c r # k) t = fill (LF m c r # k) t"
    by (cases "(LF m c r # k, t)" rule: ins_fix.cases) auto
  with assms show ?thesis by (simp add: lchild_fill)
next
  case False
  then obtain g gc u k' where k: "k = LF g gc u # k'" and c: "c = RED"
    using assms(1) by (cases k rule: ctx_cases) auto
  with assms show ?thesis by (auto simp: lchild_ins_fix lchild_fill)
qed

lemma ins_ctx_first:
  assumes "t \<noteq> Leaf" "\<forall>y \<in> set (ids t). v < K y"
  shows "\<exists>c r k'. ins_ctx K v t k = LF (hd (ids t)) c r # k' \<and>
    (list_all is_LF k \<longrightarrow> list_all is_LF k')"
  using assms
proof (induction K v t k rule: ins_ctx.induct)
  case (2 K v l i c r k)
  then have "\<not> K i \<le> v" by simp
  with "2.IH"(2) "2.prems" show ?case by (cases "l = Leaf") auto
qed simp

lemma rb_insert_lchild:
  assumes "t \<noteq> Leaf" "\<forall>y \<in> set (ids t). K z < K y"
  shows "lchild (rb_insert K z t) (hd (ids t)) z"
  using ins_ctx_first [OF assms, of "[]"]
  by (auto simp: rb_insert_def lchild_ins_fix_hd)

end
