(* ===== verification/RB_Remove.thy ===== *)
theory RB_Remove
  imports RB_Insert
begin

text \<open>
  Removal: the loop of \<open>retrievingCases\<close> ends on every well-formed ready tree and computes the
  repair \<open>del_fix\<close>; removing the leftmost node computes \<open>rb_delmin\<close>.
\<close>

section \<open>One round of the loop\<close>

lemma ctx_root_in:
  "ctx_root (Some i) k = Some j \<Longrightarrow> j = i \<or> j \<in> set (pre k) \<or> j \<in> set (post k)"
proof (induction k arbitrary: i)
  case (Cons f k)
  then show ?case by (cases f) auto
qed simp

lemma ctx_root_Some: "\<exists>j. ctx_root (Some i) k = Some j"
  by (induction k arbitrary: i) auto

lemma not_root:
  assumes "rep s (fill (f # k) t)"
  shows "rootp t \<noteq> root (procTree s)"
proof -
  obtain j where j: "ctx_root (Some (fnode f)) k = Some j" using ctx_root_Some by blast
  then have "j \<in> set (pre (f # k)) \<union> set (post (f # k))"
    using ctx_root_in [OF j] by (cases f) auto
  then have "j \<notin> set (ids t)" using assms by (auto simp: rep_fill)
  then show ?thesis using assms j rootp_in [of t j] by (auto simp: rep_fill)
qed

lemma is_black_at: "tree_at (procs s) pp t \<Longrightarrow> is_black (rootp t) s = ret (tcolor t = BLACK)"
  by (cases t rule: ids.cases) (auto simp: is_black_def)

lemma is_black_focus: "rep s (fill k t) \<Longrightarrow> is_black (rootp t) s = ret (tcolor t = BLACK)"
  using is_black_at by (auto simp: rep_fill)

definition rot_tail :: "ptr \<Rightarrow> ptr \<Rightarrow> rbs \<Rightarrow> rbs kres" where
  "rot_tail par sib s =
     kbind (rd color par s) (\<lambda>pc.
     kbind (wr (color_update (\<lambda>_. pc)) sib s) (\<lambda>s.
     kbind (wr (color_update (\<lambda>_. BLACK)) par s) (\<lambda>s.
     kbind (rd right sib s) (\<lambda>sr.
     kbind (wr (color_update (\<lambda>_. BLACK)) sr s) (\<lambda>s.
     rotateLeft par s)))))"

definition red_sibling :: "ptr \<Rightarrow> ptr \<Rightarrow> rbs \<Rightarrow> (ptr \<times> rbs) kres" where
  "red_sibling par sib s =
     kbind (wr (color_update (\<lambda>_. BLACK)) sib s) (\<lambda>s.
     kbind (wr (color_update (\<lambda>_. RED)) par s) (\<lambda>s.
     kbind (rotateLeft par s) (\<lambda>s.
     kbind (rd right par s) (\<lambda>sib. ret (sib, s)))))"

definition black_sr :: "ptr \<Rightarrow> ptr \<Rightarrow> rbs \<Rightarrow> (ptr \<times> rbs) kres" where
  "black_sr par sib s =
     kbind (rd left sib s) (\<lambda>sl.
     kbind (if sl \<noteq> None then wr (color_update (\<lambda>_. BLACK)) sl s else ret s) (\<lambda>s.
     kbind (wr (color_update (\<lambda>_. RED)) sib s) (\<lambda>s.
     kbind (rotateRight sib s) (\<lambda>s.
     kbind (rd right par s) (\<lambda>sib. ret (sib, s))))))"

definition black_sibling :: "ptr \<Rightarrow> ptr \<Rightarrow> rbs \<Rightarrow> (ptr \<times> rbs) kres" where
  "black_sibling par sib s =
     kbind (rd left sib s) (\<lambda>sl.
     kbind (is_black sl s) (\<lambda>slb.
     kbind (both_eq slb (kbind (rd right sib s) (\<lambda>sr. is_black sr s))) (\<lambda>bothb.
     if bothb then
       kbind (wr (color_update (\<lambda>_. RED)) sib s) (\<lambda>s.
       kbind (rd pParent par s) (\<lambda>pp. retrieving_loop pp par s))
     else
       kbind (rd right sib s) (\<lambda>sr.
       kbind (is_black sr s) (\<lambda>srb.
       kbind (if srb then black_sr par sib s else ret (sib, s)) (\<lambda>(sib, s).
       kbind (rot_tail par sib s) (\<lambda>s. retrieving_loop par (root (procTree s)) s)))))))"

lemma loop_unfold: "retrieving_loop par q s =
   kbind (both_eq (q \<noteq> root (procTree s)) (is_black q s)) (\<lambda>continue.
   if \<not> continue then ret (q, s)
   else
     kbind (rd left par s) (\<lambda>pl.
     if q = pl then
       kbind (rd right par s) (\<lambda>sib.
       kbind (both_eq (sib \<noteq> None) (kbind (rd color sib s) (\<lambda>c. ret (c = RED)))) (\<lambda>red.
       kbind (if red then red_sibling par sib s else ret (sib, s)) (\<lambda>(sib, s).
       black_sibling par sib s)))
     else retrieving_loop par q s))"
  unfolding red_sibling_def black_sibling_def black_sr_def rot_tail_def
  by (subst retrieving_loop.simps) (simp only: kbind_assoc)

text \<open>The loop stops at the root or at a red node.\<close>

lemma loop_root: "retrieving_loop par (root (procTree s)) s = ret (root (procTree s), s)"
  by (subst loop_unfold) (simp add: both_eq_def)

lemma loop_red:
  "is_black q s = ret False \<Longrightarrow> retrieving_loop par q s = ret (q, s)"
  by (subst loop_unfold) (simp add: both_eq_def)

text \<open>Otherwise the round starts from the sibling.\<close>

lemma loop_round:
  assumes r: "rep s (fill (LF p pc sb # k) t)" and b: "tcolor t = BLACK" and n: "sb \<noteq> Leaf"
  shows "retrieving_loop (Some p) (rootp t) s =
     kbind (if tcolor sb = RED then red_sibling (Some p) (rootp sb) s else ret (rootp sb, s))
       (\<lambda>(sib, s). black_sibling (Some p) sib s)"
proof -
  have l: "left (procs s p) = rootp t" "right (procs s p) = rootp sb"
    using rep_node [of s k t p pc sb] r by simp_all
  have c: "rd color (rootp sb) s = ret (tcolor sb)"
    using r n by (cases sb rule: ids.cases) (auto simp: rep_fill)
  show ?thesis
    using is_black_focus [OF r] not_root [OF r] l b n c
    by (subst loop_unfold) (simp add: both_eq_def)
qed

section \<open>The three kinds of round\<close>

lemma round_red:
  assumes r: "rep s (fill (LF p pc (RN sl si sr) # k) t)" and b: "tcolor t = BLACK"
    and n: "sl \<noteq> Leaf" "tcolor sl = BLACK"
  shows "\<exists>s'. retrieving_loop (Some p) (rootp t) s = retrieving_loop (Some p) (rootp t) s' \<and>
    rep s' (fill (LF p RED sl # LF si BLACK sr # k) t) \<and>
    only_links (set (ids (fill (LF p pc (RN sl si sr) # k) t))) s s'"
proof -
  define s2 where "s2 = s\<lparr>procs := (procs s)
    (si := (procs s si)\<lparr>color := BLACK\<rparr>, p := (procs s p)\<lparr>color := RED\<rparr>)\<rparr>"
  have r2: "rep s2 (fill k (Node t (p, RED) (Node sl (si, BLACK) sr)))"
    using r unfolding s2_def by (auto simp: rep_fill)
  have o2: "only_links (set (ids (fill (LF p pc (RN sl si sr) # k) t))) s s2"
    unfolding s2_def by (auto simp: only_links_def)
  obtain s3 where s3: "rotateLeft (Some p) s2 = ret s3"
    "rep s3 (fill k (Node (Node t (p, RED) sl) (si, BLACK) sr))"
    "only_links (set (ids (fill (LF p pc (RN sl si sr) # k) t))) s2 s3"
    using rotateLeft_rep [OF r2] by auto
  have r3: "rep s3 (fill (LF p RED sl # LF si BLACK sr # k) t)" using s3(2) by simp
  have sib: "right (procs s3 p) = rootp sl"
    using rep_node(2) [of s3 "LF si BLACK sr # k" t p RED sl] s3(2) by simp
  have ne: "p \<noteq> si" using r by (auto simp: rep_fill)
  have "red_sibling (Some p) (Some si) s = ret (rootp sl, s3)"
    using s3(1) sib ne by (simp add: red_sibling_def s2_def)
  then have "retrieving_loop (Some p) (rootp t) s = black_sibling (Some p) (rootp sl) s3"
    using loop_round [OF r b] by simp
  also have "\<dots> = retrieving_loop (Some p) (rootp t) s3"
    using loop_round [OF r3 b n(1)] n(2) by simp
  finally show ?thesis using r3 only_links_trans [OF o2 s3(3)] by auto
qed

lemma round_kids:
  assumes r: "rep s (fill (LF p pc (BN sl si sr) # k) t)" and b: "tcolor t = BLACK"
    and kb: "tcolor sl = BLACK" "tcolor sr = BLACK"
  shows "\<exists>s'. retrieving_loop (Some p) (rootp t) s = retrieving_loop (ctx_par k) (Some p) s' \<and>
    rep s' (fill k (Node t (p, pc) (RN sl si sr))) \<and>
    only_links (set (ids (fill (LF p pc (BN sl si sr) # k) t))) s s'"
proof -
  define s2 where "s2 = s\<lparr>procs := (procs s)(si := (procs s si)\<lparr>color := RED\<rparr>)\<rparr>"
  have r2: "rep s2 (fill k (Node t (p, pc) (RN sl si sr)))"
    using r unfolding s2_def by (auto simp: rep_fill)
  have o2: "only_links (set (ids (fill (LF p pc (BN sl si sr) # k) t))) s s2"
    unfolding s2_def by (auto simp: only_links_def)
  have kids: "left (procs s si) = rootp sl" "right (procs s si) = rootp sr"
    "is_black (rootp sl) s = ret True" "is_black (rootp sr) s = ret True"
    using r kb is_black_at by (auto simp: rep_fill)
  have "pParent (procs s2 p) = ctx_par k" using rep_node(4) [OF r2] .
  then have "black_sibling (Some p) (Some si) s = retrieving_loop (ctx_par k) (Some p) s2"
    using kids by (simp add: black_sibling_def both_eq_def s2_def)
  then have "retrieving_loop (Some p) (rootp t) s = retrieving_loop (ctx_par k) (Some p) s2"
    using loop_round [OF r b] by simp
  then show ?thesis using r2 o2 by auto
qed

lemma rot_tail_rep:
  assumes r: "rep s (fill k (Node t (p, pc) (Node a (q, qc) (Node b (v, vc) c))))"
  shows "\<exists>s'. rot_tail (Some p) (Some q) s = ret s' \<and>
    rep s' (fill k (Node (BN t p a) (q, pc) (BN b v c))) \<and>
    only_links (set (ids (fill k (Node t (p, pc) (Node a (q, qc) (Node b (v, vc) c)))))) s s'"
proof -
  define s2 where "s2 = s\<lparr>procs := (procs s)
    (q := (procs s q)\<lparr>color := pc\<rparr>, p := (procs s p)\<lparr>color := BLACK\<rparr>,
     v := (procs s v)\<lparr>color := BLACK\<rparr>)\<rparr>"
  have r2: "rep s2 (fill k (BN t p (Node a (q, pc) (BN b v c))))"
    using r unfolding s2_def by (auto simp: rep_fill)
  have o2: "only_links (set (ids (fill k (Node t (p, pc) (Node a (q, qc) (Node b (v, vc) c)))))) s s2"
    unfolding s2_def by (auto simp: only_links_def)
  have d: "p \<noteq> q" "p \<noteq> v" "q \<noteq> v" and e: "color (procs s p) = pc" "right (procs s q) = Some v"
    using r by (auto simp: rep_fill)
  then have "rot_tail (Some p) (Some q) s = rotateLeft (Some p) s2"
    by (simp add: rot_tail_def s2_def)
  then show ?thesis using rotateLeft_rep [OF r2] only_links_trans [OF o2] by auto
qed

lemma round_rot:
  assumes r: "rep s (fill (LF p pc (BN sl si sr) # k) t)" and b: "tcolor t = BLACK"
    and nb: "\<not> kids_black (BN sl si sr)"
  shows "\<exists>s'. retrieving_loop (Some p) (rootp t) s = ret (root (procTree s'), s') \<and>
    rep s' (fill k (del_rot t p pc (BN sl si sr))) \<and>
    only_links (set (ids (fill (LF p pc (BN sl si sr) # k) t))) s s'"
proof -
  let ?A = "set (ids (fill (LF p pc (BN sl si sr) # k) t))"
  have kids: "left (procs s si) = rootp sl" "right (procs s si) = rootp sr"
    "is_black (rootp sl) s = ret (tcolor sl = BLACK)" "is_black (rootp sr) s = ret (tcolor sr = BLACK)"
    using r is_black_at by (auto simp: rep_fill)
  have start: "retrieving_loop (Some p) (rootp t) s =
      kbind (if tcolor sr = BLACK then black_sr (Some p) (Some si) s else ret (Some si, s))
        (\<lambda>(sib, s). kbind (rot_tail (Some p) sib s) (\<lambda>s. retrieving_loop (Some p) (root (procTree s)) s))"
    using loop_round [OF r b] kids nb by (auto simp: black_sibling_def both_eq_def)
  show ?thesis
  proof (cases "tcolor sr = RED")
    case True
    then obtain u v w where sr: "sr = RN u v w" by (cases sr rule: ids.cases) auto
    then obtain s' where s': "rot_tail (Some p) (Some si) s = ret s'"
      "rep s' (fill k (Node (BN t p sl) (si, pc) (BN u v w)))" "only_links ?A s s'"
      using rot_tail_rep [of s k t p pc sl si BLACK u v RED w] r by auto
    then show ?thesis using start sr by (simp add: loop_root)
  next
    case False
    then obtain a y c where sl: "sl = RN a y c" and sr: "tcolor sr = BLACK"
      using nb by (cases sl rule: ids.cases) auto
    define s1 where "s1 = s\<lparr>procs := (procs s)
      (y := (procs s y)\<lparr>color := BLACK\<rparr>, si := (procs s si)\<lparr>color := RED\<rparr>)\<rparr>"
    have r1: "rep s1 (fill (RF t p pc # k) (Node (Node a (y, BLACK) c) (si, RED) sr))"
      using r sl unfolding s1_def by (auto simp: rep_fill)
    have o1: "only_links ?A s s1"
      using sl unfolding s1_def by (auto simp: only_links_def)
    obtain s2 where s2: "rotateRight (Some si) s1 = ret s2"
      "rep s2 (fill (RF t p pc # k) (Node a (y, BLACK) (Node c (si, RED) sr)))" "only_links ?A s1 s2"
      using rotateRight_rep [OF r1] sl by auto
    have "right (procs s2 p) = Some y"
      using rep_node(2) [of s2 k t p pc "Node a (y, BLACK) (Node c (si, RED) sr)"] s2(2) by simp
    moreover have "y \<noteq> si" using r sl by (auto simp: rep_fill)
    ultimately have bs: "black_sr (Some p) (Some si) s = ret (Some y, s2)"
      using kids sl s2(1) by (simp add: black_sr_def s1_def)
    obtain s' where s': "rot_tail (Some p) (Some y) s2 = ret s'"
      "rep s' (fill k (Node (BN t p a) (y, pc) (BN c si sr)))" "only_links ?A s2 s'"
      using rot_tail_rep [of s2 k t p pc a y BLACK c si RED sr] s2(2) sl by auto
    have "only_links ?A s s'"
      using only_links_trans [OF only_links_trans [OF o1 s2(3)] s'(3)] .
    then show ?thesis using start bs s' sl sr by (simp add: loop_root)
  qed
qed

section \<open>The whole repair\<close>

definition paint_proc :: "ptr \<Rightarrow> rbs \<Rightarrow> rbs kres" where
  "paint_proc q s = (if q \<noteq> None then wr (color_update (\<lambda>_. BLACK)) q s else ret s)"

lemma paint_proc_rep:
  assumes "rep s (fill k t)"
  shows "\<exists>s'. paint_proc (rootp t) s = ret s' \<and> rep s' (fill k (paint BLACK t)) \<and>
    only_links (set (ids (fill k t))) s s'"
proof (cases t rule: ids.cases)
  case (2 l i c r)
  with rep_paint [of s k l i c r BLACK] assms show ?thesis by (auto simp: paint_proc_def)
qed (use assms in \<open>auto simp: paint_proc_def\<close>)

lemma retrievingCases2_eq:
  "retrievingCases2 par q s = kbind (retrieving_loop par q s) (\<lambda>(q, s). paint_proc q s)"
  by (simp add: retrievingCases2_def paint_proc_def)

lemma paint_root_rep:
  assumes "rep s T"
  shows "\<exists>s'. paint_proc (root (procTree s)) s = ret s' \<and> rep s' (paint BLACK T) \<and>
    only_links (set (ids T)) s s'"
  using paint_proc_rep [of s "[]" T] assms by (simp add: rep_def)

text \<open>
  A black focus under a black sibling: one with a red child ends the loop by a rotation, and
  when the parent is red, one with black children ends it by recoloring.
\<close>

lemma cases2_rot:
  assumes r: "rep s (fill (LF p pc (BN sl si sr) # k) t)" and b: "tcolor t = BLACK"
    and nb: "\<not> kids_black (BN sl si sr)"
  shows "\<exists>s'. retrievingCases2 (Some p) (rootp t) s = ret s' \<and>
    rep s' (paint BLACK (fill k (del_rot t p pc (BN sl si sr)))) \<and>
    only_links (set (ids (fill (LF p pc (BN sl si sr) # k) t))) s s'"
proof -
  obtain s1 where s1: "retrieving_loop (Some p) (rootp t) s = ret (root (procTree s1), s1)"
    "rep s1 (fill k (del_rot t p pc (BN sl si sr)))"
    "only_links (set (ids (fill (LF p pc (BN sl si sr) # k) t))) s s1"
    using round_rot [OF r b nb] by auto
  obtain s2 where s2: "paint_proc (root (procTree s1)) s1 = ret s2"
    "rep s2 (paint BLACK (fill k (del_rot t p pc (BN sl si sr))))"
    "only_links (set (ids (fill (LF p pc (BN sl si sr) # k) t))) s1 s2"
    using paint_root_rep [OF s1(2)] by (auto simp del: del_rot.simps)
  show ?thesis
    using s1(1) s2(1,2) only_links_trans [OF s1(3) s2(3)] by (auto simp: retrievingCases2_eq)
qed

lemma cases2_kids_red:
  assumes r: "rep s (fill (LF p RED (BN sl si sr) # k) t)" and b: "tcolor t = BLACK"
    and kb: "tcolor sl = BLACK" "tcolor sr = BLACK"
  shows "\<exists>s'. retrievingCases2 (Some p) (rootp t) s = ret s' \<and>
    rep s' (fill k (BN t p (RN sl si sr))) \<and>
    only_links (set (ids (fill (LF p RED (BN sl si sr) # k) t))) s s'"
proof -
  obtain s1 where s1: "retrieving_loop (Some p) (rootp t) s = retrieving_loop (ctx_par k) (Some p) s1"
    "rep s1 (fill k (RN t p (RN sl si sr)))"
    "only_links (set (ids (fill (LF p RED (BN sl si sr) # k) t))) s s1"
    using round_kids [OF r b kb] by auto
  have "retrieving_loop (ctx_par k) (Some p) s1 = ret (Some p, s1)"
    using is_black_focus [OF s1(2)] by (simp add: loop_red)
  moreover obtain s2 where s2: "paint_proc (Some p) s1 = ret s2"
    "rep s2 (fill k (BN t p (RN sl si sr)))"
    "only_links (set (ids (fill (LF p RED (BN sl si sr) # k) t))) s1 s2"
    using paint_proc_rep [OF s1(2)] by auto
  ultimately show ?thesis
    using s1(1) s2(2) only_links_trans [OF s1(3) s2(3)] by (auto simp: retrievingCases2_eq)
qed

lemma retrievingCases2_rep:
  assumes "rep s (fill k t)" "list_all is_LF k" "invc (paint BLACK t)" "invh t"
    and "ctxh (Suc (bh t)) k" "ctxc BLACK k"
  shows "\<exists>s'. retrievingCases2 (ctx_par k) (rootp t) s = ret s' \<and> rep s' (del_fix k t) \<and>
    only_links (set (ids (fill k t))) s s'"
  using assms
proof (induction k t arbitrary: s rule: del_fix.induct)
  case (1 t)
  then show ?case
    using paint_root_rep [of s t] loop_root [of None s]
    by (auto simp: retrievingCases2_eq rep_def)
next
  case (2 p pc sb k t)
  note r = "2.prems"(1)
  let ?A = "set (ids (fill (LF p pc sb # k) t))"
  show ?case
  proof (cases "tcolor t = RED")
    case True
    then have "retrieving_loop (Some p) (rootp t) s = ret (rootp t, s)"
      using loop_red [of "rootp t" s] is_black_focus [OF r] by simp
    then show ?thesis
      using paint_proc_rep [OF r] True by (auto simp: retrievingCases2_eq)
  next
    case False
    then have b: "tcolor t = BLACK" by simp
    obtain sl si sc sr where sb: "sb = Node sl (si, sc) sr"
      using "2.prems"(5) by (cases sb rule: ids.cases) auto
    show ?thesis
    proof (cases sc)
      case RED
      have n: "sl \<noteq> Leaf" "tcolor sl = BLACK" using "2.prems"(5,6) sb RED by auto
      then obtain a y c where sl: "sl = BN a y c" by (cases sl rule: ids.cases) auto
      obtain s1 where s1: "retrieving_loop (Some p) (rootp t) s = retrieving_loop (Some p) (rootp t) s1"
        "rep s1 (fill (LF p RED sl # LF si BLACK sr # k) t)" "only_links ?A s s1"
        using round_red [OF r [unfolded sb RED] b n] sb RED by auto
      note r1 = s1(2) [unfolded sl]
      have step: "retrievingCases2 (Some p) (rootp t) s = retrievingCases2 (Some p) (rootp t) s1"
        using s1(1) by (simp add: retrievingCases2_eq)
      show ?thesis
      proof (cases "kids_black sl")
        case True
        then have kb: "tcolor a = BLACK" "tcolor c = BLACK" using sl by auto
        have fix_eq: "del_fix (LF p pc sb # k) t = fill (LF si BLACK sr # k) (BN t p (RN a y c))"
          using sb RED b True sl by simp
        obtain s2 where s2: "retrievingCases2 (Some p) (rootp t) s1 = ret s2"
          "rep s2 (fill (LF si BLACK sr # k) (BN t p (RN a y c)))" "only_links ?A s1 s2"
          using cases2_kids_red [OF r1 b kb] sl sb by auto
        show ?thesis
          unfolding fix_eq using step s2(1,2) only_links_trans [OF s1(3) s2(3)] by simp
      next
        case nb: False
        have fix_eq: "del_fix (LF p pc sb # k) t =
            paint BLACK (fill (LF si BLACK sr # k) (del_rot t p RED sl))"
          using sb RED b nb by simp
        obtain s2 where s2: "retrievingCases2 (Some p) (rootp t) s1 = ret s2"
          "rep s2 (paint BLACK (fill (LF si BLACK sr # k) (del_rot t p RED sl)))" "only_links ?A s1 s2"
          using cases2_rot [OF r1 b nb [unfolded sl]] sl sb by auto
        show ?thesis
          unfolding fix_eq using step s2(1,2) only_links_trans [OF s1(3) s2(3)] by simp
      qed
    next
      case BLACK
      show ?thesis
      proof (cases "kids_black sb")
        case True
        then obtain s1 where s1: "retrieving_loop (Some p) (rootp t) s =
            retrieving_loop (ctx_par k) (Some p) s1"
          "rep s1 (fill k (Node t (p, pc) (paint RED sb)))" "only_links ?A s s1"
          using round_kids [OF r [unfolded sb BLACK] b] sb BLACK by auto
        let ?t = "Node t (p, pc) (paint RED sb)"
        have "\<exists>s'. retrievingCases2 (ctx_par k) (rootp ?t) s1 = ret s' \<and>
            rep s' (del_fix k ?t) \<and> only_links (set (ids (fill k ?t))) s1 s'"
        proof (rule "2.IH"(2))
          show "invc (paint BLACK (Node t (p, pc) (paint RED sb)))"
            using True b "2.prems" sb BLACK by auto
          show "ctxh (Suc (bh (Node t (p, pc) (paint RED sb)))) k"
            using "2.prems"(5) sb BLACK by (auto split: if_splits)
          show "ctxc BLACK k" using "2.prems"(6) by (auto intro: ctxc_black)
        qed (use "2.prems" True b sb BLACK s1 in auto)
        then obtain s2 where s2: "retrievingCases2 (ctx_par k) (Some p) s1 = ret s2"
          "rep s2 (del_fix k ?t)" "only_links ?A s1 s2" by auto
        have "retrievingCases2 (Some p) (rootp t) s = ret s2"
          using s1(1) s2(1) by (simp add: retrievingCases2_eq)
        moreover have "del_fix (LF p pc sb # k) t = del_fix k ?t"
          using True sb BLACK b by simp
        ultimately show ?thesis using s2(2) only_links_trans [OF s1(3) s2(3)] by simp
      next
        case nb: False
        have "del_fix (LF p pc sb # k) t = paint BLACK (fill k (del_rot t p pc sb))"
          using sb BLACK b nb by (auto simp del: del_rot.simps)
        then show ?thesis
          using cases2_rot [OF r [unfolded sb BLACK] b nb [unfolded sb BLACK]] unfolding sb BLACK by simp
      qed
    qed
  qed
qed simp

section \<open>Removal of the minimum\<close>

lemma min_ctx_head:
  assumes "t \<noteq> Leaf" "min_ctx t [] = (k, i, c, r)"
  shows "hd (ids t) = i"
  using min_ctx_hd [OF assms] by simp

lemma black_bh0: "bh t = 0 \<Longrightarrow> tcolor t = BLACK \<Longrightarrow> t = Leaf"
  by (cases t rule: ids.cases) auto

lemma red_single:
  assumes "t \<noteq> Leaf" "invc t" "invh t" "bh t = 0"
  shows "\<exists>j. t = RN Leaf j Leaf"
proof -
  obtain l i c r where t: "t = Node l (i, c) r" using assms(1) by (cases t rule: ids.cases) auto
  have c: "c = RED" using assms(4) t by (cases c) auto
  then have "l = Leaf" "r = Leaf" using assms t by (auto intro: black_bh0)
  with t c show ?thesis by simp
qed

text \<open>What case 1 leaves behind: the removed node with its links cleared.\<close>

definition detached :: "rbs \<Rightarrow> nat \<Rightarrow> bool" where
  "detached s p \<longleftrightarrow> left (procs s p) = None \<and> right (procs s p) = None \<and> pParent (procs s p) = None"

definition detach :: "nat \<Rightarrow> rbs \<Rightarrow> rbs" where
  "detach i s = s\<lparr>procs := (procs s)(i :=
     (procs s i)\<lparr>pParent := None, left := None, right := None\<rparr>)\<rparr>"

lemma detach_rep:
  assumes "rep s t" "i \<notin> set (ids t)"
  shows "rep (detach i s) t" "detached (detach i s) i" "i \<in> A \<Longrightarrow> only_links A s (detach i s)"
  using assms by (auto simp: detach_def detached_def only_links_def rep_def)

lemma retrievingCases1_rep:
  assumes r: "rep s t" and ok: "rb_ok t" and n: "t \<noteq> Leaf"
  shows "\<exists>s'. retrievingCases (pParent (procs s (hd (ids t)))) (Some (hd (ids t))) 1 s = ret s' \<and>
    rep s' (rb_delmin t) \<and> detached s' (hd (ids t)) \<and> only_links (set (ids t)) s s'"
proof -
  obtain k i c rt where m: "min_ctx t [] = (k, i, c, rt)" by (metis prod_cases4)
  have LF: "list_all is_LF k" using min_ctx_LF [OF _ m] by simp
  have t: "t = fill k (Node Leaf (i, c) rt)" using min_ctx_fill [OF n m] by simp
  have hd: "hd (ids t) = i" using min_ctx_head [OF n m] .
  have f: "rep s (fill k (Node Leaf (i, c) rt))" using r t by simp
  note nd = rep_node [OF f]
  have rts: "invc rt" "invh rt" "bh rt = 0" "c = RED \<Longrightarrow> tcolor rt = BLACK"
    and kc: "ctxh (if c = BLACK then 1 else 0) k" "ctxc c k"
    using ok t by (auto simp: rb_ok_fill)
  let ?A = "set (ids t)"
  text \<open>First the link from above, then the cleared fields.\<close>
  obtain s1 where s1: "retrievingCases1 (ctx_par k) (Some i) s = ret (detach i s1)"
    "rep s1 (rb_delmin t)" "only_links ?A s s1"
  proof (cases k rule: ctx_cases)
    case Nil
    show ?thesis
      using that [of "(case rt of Leaf \<Rightarrow> wr_tree (root_update (\<lambda>_. None)) s
        | Node _ (j, _) _ \<Rightarrow> wr_tree (root_update (\<lambda>_. Some j)) s\<lparr>procs := (procs s)(j :=
            (procs s j)\<lparr>pParent := None, color := BLACK\<rparr>)\<rparr>)"] f Nil m t
      by (cases rt rule: ids.cases)
        (auto simp: retrievingCases1_def rep_def detach_def rb_delmin_def only_links_def wr_tree_def)
  next
    case (LF p pc sb k')
    have nr: "Some i \<noteq> root (procTree s)"
      using not_root [of s "LF p pc sb" k' "Node Leaf (i, c) rt"] f LF by simp
    define s0 where "s0 = s\<lparr>procs := (procs s)(p := (procs s p)\<lparr>left := rootp rt\<rparr>)\<rparr>"
    have pi: "p \<noteq> i" "i \<notin> set (ids rt)" "p \<notin> set (ids rt)" using f LF by (auto simp: rep_fill)
    show ?thesis
    proof (cases "rt = Leaf")
      case True
      have r0: "rep s0 (fill k Leaf)"
        using f LF True unfolding s0_def by (auto simp: rep_fill)
      have o0: "only_links ?A s s0"
        unfolding s0_def t LF by (auto simp: only_links_def)
      show ?thesis
      proof (cases "c = RED")
        case c: True
        then have "retrievingCases1 (ctx_par k) (Some i) s = ret (detach i s0)"
          using nr nd LF True pi by (simp add: retrievingCases1_def both_eq_def detach_def s0_def)
        moreover have "rb_delmin t = fill k Leaf" using m c True LF by (simp add: rb_delmin_def)
        ultimately show ?thesis using that r0 o0 by metis
      next
        case c: False
        have "\<exists>s'. retrievingCases2 (ctx_par k) (rootp Leaf) s0 = ret s' \<and> rep s' (del_fix k Leaf) \<and>
            only_links (set (ids (fill k Leaf))) s0 s'"
          by (rule retrievingCases2_rep [OF r0]) (use kc c \<open>list_all is_LF k\<close> in auto)
        then obtain s2 where s2: "retrievingCases2 (ctx_par k) None s0 = ret s2"
          "rep s2 (del_fix k Leaf)" "only_links (set (ids (fill k Leaf))) s0 s2" by auto
        have "only_links ?A s0 s2" by (rule only_links_mono [OF s2(3)]) (auto simp: t)
        moreover have "retrievingCases1 (ctx_par k) (Some i) s = ret (detach i s2)"
          using nr nd LF True pi c s2(1)
          by (simp add: retrievingCases1_def both_eq_def detach_def s0_def)
        moreover have "rb_delmin t = del_fix k Leaf" using m c True LF by (simp add: rb_delmin_def)
        ultimately show ?thesis using that s2(2) only_links_trans [OF o0] by metis
      qed
    next
      case False
      then obtain j where rt: "rt = RN Leaf j Leaf"
        using red_single [of rt] rts by blast
      have c: "c = BLACK" using rts(4) rt by (cases c) auto
      define s2 where "s2 = s\<lparr>procs := (procs s)
        (j := (procs s j)\<lparr>pParent := Some p, color := BLACK\<rparr>,
         p := (procs s p)\<lparr>left := Some j\<rparr>)\<rparr>"
      have "rep s2 (fill k (BN Leaf j Leaf))"
        using f LF rt unfolding s2_def by (auto simp: rep_fill)
      moreover have "only_links ?A s s2"
        unfolding s2_def t LF rt by (auto simp: only_links_def)
      moreover have "retrievingCases1 (ctx_par k) (Some i) s = ret (detach i s2)"
        using nr nd LF rt pi c f
        by (auto simp: retrievingCases1_def both_eq_def detach_def s2_def rep_fill fun_upd_twist)
      moreover have "rb_delmin t = fill k (BN Leaf j Leaf)"
        using m c rt LF by (simp add: rb_delmin_def)
      ultimately show ?thesis using that by metis
    qed
  next
    case (RF l p pc k')
    then show ?thesis using \<open>list_all is_LF k\<close> by simp
  qed
  have "i \<notin> set (ids (rb_delmin t))"
    using ids_rb_delmin [OF n] hd r n by (cases "ids t") (auto simp: rep_def)
  then show ?thesis
    using s1 detach_rep [OF s1(2)] hd nd(4) only_links_trans [OF s1(3)] n
    by (auto simp: retrievingCases_def t)
qed

end
