(* ===== verification/Queue_Interface.thy ===== *)
theory Queue_Interface
  imports Prelude
begin

text \<open>
  The contract between the ready tree and its clients, as a locale: what insertion and removal
  promise in terms of the list of queued processes, and what follows for a client that only
  uses the contract. Filling a queue and draining it sorts stably by the key; and a client
  that repeatedly takes the first process, lets it run and queues it again reaches every queued
  process after a bounded number of rounds.
\<close>

section \<open>Clients of a queue\<close>

fun enq_list :: "(nat \<Rightarrow> 's \<Rightarrow> 's kres) \<Rightarrow> nat list \<Rightarrow> 's \<Rightarrow> 's kres" where
  "enq_list enq [] s = ret s"
| "enq_list enq (p # ps) s = kbind (enq p s) (enq_list enq ps)"

fun drain :: "('s \<Rightarrow> (ptr \<times> 's) kres) \<Rightarrow> nat \<Rightarrow> 's \<Rightarrow> (nat list \<times> 's) kres" where
  "drain deq 0 s = ret ([], s)"
| "drain deq (Suc n) s = kbind (deq s) (\<lambda>(p, s).
     case p of None \<Rightarrow> ret ([], s)
     | Some p \<Rightarrow> kbind (drain deq n s) (\<lambda>(ps, s). ret (p # ps, s)))"

text \<open>
  Rounds of scheduling: take the first process, add the given run time to its key, queue it
  again. The result is the sequence of processes taken.
\<close>

fun rounds :: "(nat \<Rightarrow> 's \<Rightarrow> 's kres) \<Rightarrow> ('s \<Rightarrow> (ptr \<times> 's) kres) \<Rightarrow>
    (nat \<Rightarrow> int \<Rightarrow> 's \<Rightarrow> 's) \<Rightarrow> int list \<Rightarrow> 's \<Rightarrow> (nat list \<times> 's) kres" where
  "rounds enq deq run [] s = ret ([], s)"
| "rounds enq deq run (d # ds) s = kbind (deq s) (\<lambda>(p, s).
     case p of None \<Rightarrow> ret ([], s)
     | Some p \<Rightarrow> kbind (enq p (run p d s)) (\<lambda>s.
         kbind (rounds enq deq run ds s) (\<lambda>(ps, s). ret (p # ps, s))))"

section \<open>Stable sorting\<close>

lemma filter_insort_after:
  "sorted (map k xs) \<Longrightarrow> filter (\<lambda>y. k y = v) (insort_after k x xs) =
    filter (\<lambda>y. k y = v) xs @ (if k x = v then [x] else [])"
proof (induction xs)
  case (Cons y ys)
  show ?case
  proof (cases "k y \<le> k x")
    case True
    with Cons show ?thesis by simp
  next
    case False
    then have "\<forall>z \<in> set (y # ys). k x < k z" using Cons.prems by fastforce
    then have "k x = v \<Longrightarrow> filter (\<lambda>z. k z = v) (y # ys) = []"
      by (force simp: filter_empty_conv)
    with False show ?thesis by auto
  qed
qed simp

lemma fold_insort_after_sorted:
  "sorted (map k xs) \<Longrightarrow> sorted (map k (fold (insort_after k) ps xs))"
  by (induction ps arbitrary: xs) (auto simp: sorted_insort_after)

lemma fold_insort_after_filter:
  "sorted (map k xs) \<Longrightarrow>
   filter (\<lambda>y. k y = v) (fold (insort_after k) ps xs) =
   filter (\<lambda>y. k y = v) xs @ filter (\<lambda>y. k y = v) ps"
proof (induction ps arbitrary: xs)
  case (Cons p ps)
  then show ?case
    using sorted_insort_after [OF Cons.prems] filter_insort_after [OF Cons.prems] by simp
qed simp

lemma mset_insort_after: "mset (insort_after k x xs) = add_mset x (mset xs)"
  by (induction xs) auto

lemma mset_fold_insort_after: "mset (fold (insort_after k) ps xs) = mset ps + mset xs"
  by (induction ps arbitrary: xs) (auto simp: mset_insort_after)

text \<open>Inserting one by one after equal keys is the library's stable sort.\<close>

lemma fold_insort_after_sort_key: "fold (insort_after k) ps [] = sort_key k ps"
proof (rule properties_for_sort_key [symmetric])
  show "mset (fold (insort_after k) ps []) = mset ps" by (simp add: mset_fold_insort_after)
  show "filter (\<lambda>x. k y = k x) (fold (insort_after k) ps []) = filter (\<lambda>x. k y = k x) ps"
    if "y \<in> set (fold (insort_after k) ps [])" for y
    using fold_insort_after_filter [of k "[]" "k y" ps] by (simp add: eq_commute)
  show "sorted (map k (fold (insort_after k) ps []))" by (simp add: fold_insort_after_sorted)
qed

section \<open>Waiting\<close>

text \<open>
  How many rounds other processes can be taken before \<open>p\<close>: every process at or before the key
  of \<open>p\<close> can be taken until its key has passed that of \<open>p\<close>.
\<close>

definition wait_bound :: "(nat \<Rightarrow> int) \<Rightarrow> nat \<Rightarrow> nat list \<Rightarrow> nat" where
  "wait_bound k p q = (\<Sum>i \<in> set q - {p}. nat (k p - k i + 1))"

lemma wait_bound_step:
  assumes "p \<in> set q" "x \<in> set q" "x \<noteq> p" "k x \<le> k p" "0 < d"
    and "k' = k(x := k x + d)" "set q' = set q"
  shows "wait_bound k' p q' < wait_bound k p q"
  unfolding wait_bound_def assms(7)
proof (rule sum_strict_mono_ex1)
  show "\<exists>i \<in> set q - {p}. nat (k' p - k' i + 1) < nat (k p - k i + 1)"
    using assms by (intro bexI [of _ x]) auto
qed (use assms in auto)

section \<open>The contract\<close>

locale ready_queue =
  fixes enq :: "nat \<Rightarrow> 's \<Rightarrow> 's kres"
    and deq :: "'s \<Rightarrow> (ptr \<times> 's) kres"
    and run :: "nat \<Rightarrow> int \<Rightarrow> 's \<Rightarrow> 's"
    and holds :: "'s \<Rightarrow> nat list \<Rightarrow> bool"
    and key :: "'s \<Rightarrow> nat \<Rightarrow> int"
    and able :: "'s \<Rightarrow> nat \<Rightarrow> bool"
    and runs :: "'s \<Rightarrow> nat \<Rightarrow> bool"
    and top :: int
  assumes enq_ok: "holds s q \<Longrightarrow> able s p \<Longrightarrow> p \<notin> set q \<Longrightarrow>
      \<exists>s'. enq p s = ret s' \<and> holds s' (insort_after (key s) p q) \<and> key s' = key s \<and>
        runs s' = runs s \<and> (\<forall>i. i \<noteq> p \<longrightarrow> i \<notin> set q \<longrightarrow> able s i \<longrightarrow> able s' i)"
    and deq_none: "holds s [] \<Longrightarrow> deq s = ret (None, s)"
    and deq_some: "holds s (p # q) \<Longrightarrow> runs s p \<Longrightarrow>
      \<exists>s'. deq s = ret (Some p, s') \<and> holds s' q \<and> able s' p \<and> key s' = key s \<and> runs s' = runs s"
    and run_ok: "holds s q \<Longrightarrow> able s p \<Longrightarrow> p \<notin> set q \<Longrightarrow> 0 \<le> key s p + d \<Longrightarrow> key s p + d < top \<Longrightarrow>
      holds (run p d s) q \<and> able (run p d s) p \<and> runs (run p d s) = runs s \<and>
        key (run p d s) = (key s)(p := key s p + d)"
    and sorted: "holds s q \<Longrightarrow> sorted (map (key s) q) \<and> distinct q"
begin

lemma enq_list_ok:
  assumes "holds s q" "distinct ps" "set ps \<inter> set q = {}" "\<forall>p \<in> set ps. able s p"
  shows "\<exists>s'. enq_list enq ps s = ret s' \<and> holds s' (fold (insort_after (key s)) ps q) \<and>
    key s' = key s \<and> runs s' = runs s"
  using assms
proof (induction ps arbitrary: s q)
  case (Cons p ps)
  obtain s1 where s1: "enq p s = ret s1" "holds s1 (insort_after (key s) p q)" "key s1 = key s"
    "runs s1 = runs s" "\<forall>i. i \<noteq> p \<longrightarrow> i \<notin> set q \<longrightarrow> able s i \<longrightarrow> able s1 i"
    using enq_ok [OF Cons.prems(1), of p] Cons.prems by auto
  have "\<exists>s'. enq_list enq ps s1 = ret s' \<and>
      holds s' (fold (insort_after (key s1)) ps (insort_after (key s) p q)) \<and>
      key s' = key s1 \<and> runs s' = runs s1"
    by (rule Cons.IH [OF s1(2)]) (use Cons.prems s1(5) in auto)
  then show ?case using s1 by auto
qed auto

lemma drain_ok:
  assumes "holds s q" "\<forall>p \<in> set q. runs s p" "length q \<le> n"
  shows "\<exists>s'. drain deq n s = ret (q, s') \<and> holds s' []"
  using assms
proof (induction n arbitrary: s q)
  case (Suc n)
  show ?case
  proof (cases q)
    case Nil
    then show ?thesis using Suc.prems deq_none by auto
  next
    case (Cons p q')
    obtain s1 where s1: "deq s = ret (Some p, s1)" "holds s1 q'" "runs s1 = runs s"
      using deq_some [of s p q'] Suc.prems Cons by auto
    have "\<exists>s'. drain deq n s1 = ret (q', s') \<and> holds s' []"
      by (rule Suc.IH) (use s1 Suc.prems Cons in auto)
    then show ?thesis using s1 Cons by auto
  qed
qed auto

text \<open>Filling the empty queue and draining it sorts the processes stably by their keys.\<close>

lemma fill_drain_sorts:
  assumes "holds s []" "distinct ps" "\<forall>p \<in> set ps. able s p \<and> runs s p"
  shows "\<exists>s'. kbind (enq_list enq ps s) (drain deq (length ps)) = ret (sort_key (key s) ps, s') \<and>
    holds s' []"
proof -
  obtain s1 where s1: "enq_list enq ps s = ret s1" "holds s1 (sort_key (key s) ps)" "runs s1 = runs s"
    using enq_list_ok [OF assms(1,2)] assms(3) by (auto simp: fold_insort_after_sort_key)
  obtain s2 where "drain deq (length ps) s1 = ret (sort_key (key s) ps, s2)" "holds s2 []"
    using drain_ok [OF s1(2)] s1(3) assms(3) by auto
  then show ?thesis using s1 by auto
qed

text \<open>One round on a non-empty queue.\<close>

lemma round_ok:
  assumes "holds s (x # q)" "runs s x" "0 \<le> key s x + d" "key s x + d < top"
  defines "k' \<equiv> (key s)(x := key s x + d)"
  shows "\<exists>s1 s2. deq s = ret (Some x, s1) \<and> enq x (run x d s1) = ret s2 \<and>
    holds s2 (insort_after k' x q) \<and> key s2 = k' \<and> runs s2 = runs s"
proof -
  obtain s1 where s1: "deq s = ret (Some x, s1)" "holds s1 q" "able s1 x" "key s1 = key s"
    "runs s1 = runs s"
    using deq_some [OF assms(1,2)] by auto
  have nx: "x \<notin> set q" using sorted [OF assms(1)] by simp
  have r: "holds (run x d s1) q" "able (run x d s1) x" "runs (run x d s1) = runs s"
    "key (run x d s1) = k'"
    using run_ok [OF s1(2,3) nx] s1 assms(3,4) by (auto simp: k'_def)
  show ?thesis using enq_ok [OF r(1,2) nx] s1 r by auto
qed

text \<open>
  No starvation: a queued process is taken within \<open>wait_bound\<close> + 1 rounds, whatever positive
  run times the others get.
\<close>

lemma rounds_reach:
  assumes "holds s q" "\<forall>i \<in> set q. runs s i \<and> 0 \<le> key s i" "p \<in> set q" "\<forall>d \<in> set ds. 0 < d"
    and "\<forall>i \<in> set q. key s i + sum_list ds < top" "wait_bound (key s) p q < length ds"
  shows "\<exists>ps s'. rounds enq deq run ds s = ret (ps, s') \<and> p \<in> set ps"
proof -
  have total: "\<exists>ps s'. rounds enq deq run ds s = ret (ps, s')"
    if "holds s q" "\<forall>i \<in> set q. runs s i \<and> 0 \<le> key s i" "\<forall>d \<in> set ds. 0 < d"
      "\<forall>i \<in> set q. key s i + sum_list ds < top" for s q ds
    using that
  proof (induction ds arbitrary: s q)
    case (Cons d ds)
    have nn: "0 \<le> sum_list ds" using Cons.prems(3) by (intro sum_list_nonneg) force
    show ?case
    proof (cases q)
      case Nil
      then show ?thesis using Cons.prems deq_none by simp
    next
      case q: (Cons x q')
      obtain s1 s2 where s2: "deq s = ret (Some x, s1)" "enq x (run x d s1) = ret s2"
        "holds s2 (insort_after ((key s)(x := key s x + d)) x q')"
        "key s2 = (key s)(x := key s x + d)" "runs s2 = runs s"
        using round_ok [of s x q' d] Cons.prems q nn by auto
      have "\<exists>ps s'. rounds enq deq run ds s2 = ret (ps, s')"
        by (rule Cons.IH [OF s2(3)]) (use Cons.prems q s2 nn in auto)
      then show ?thesis using s2 by auto
    qed
  qed simp
  show ?thesis
    using assms
  proof (induction ds arbitrary: s q)
    case (Cons d ds)
    have nn: "0 \<le> sum_list ds" using Cons.prems(4) by (intro sum_list_nonneg) force
    obtain x q' where q: "q = x # q'" using Cons.prems(3) by (cases q) auto
    let ?k = "(key s)(x := key s x + d)"
    obtain s1 s2 where s2: "deq s = ret (Some x, s1)" "enq x (run x d s1) = ret s2"
      "holds s2 (insort_after ?k x q')" "key s2 = ?k" "runs s2 = runs s"
      using round_ok [of s x q' d] Cons.prems q nn by auto
    have side: "\<forall>i \<in> set (insort_after ?k x q'). runs s2 i \<and> 0 \<le> key s2 i"
      "\<forall>i \<in> set (insort_after ?k x q'). key s2 i + sum_list ds < top"
      using Cons.prems q s2 nn by auto
    show ?case
    proof (cases "x = p")
      case True
      then show ?thesis using total [OF s2(3) side(1) _ side(2)] Cons.prems(4) s2 by auto
    next
      case False
      have "key s x \<le> key s p" using sorted [OF Cons.prems(1)] Cons.prems(3) q by auto
      then have "wait_bound ?k p (insort_after ?k x q') < wait_bound (key s) p q"
        using Cons.prems(3,4) False q by (intro wait_bound_step [where x = x and d = d]) auto
      then have "\<exists>ps s'. rounds enq deq run ds s2 = ret (ps, s') \<and> p \<in> set ps"
        using Cons.prems(3,4,6) False q s2(4) side
        by (intro Cons.IH [OF s2(3) side(1) _ _ side(2)]) (auto simp del: fun_upd_apply)
      then show ?thesis using s2 by auto
    qed
  qed simp
qed

end

end
