(* ===== verification/Ready_Queue.thy ===== *)
theory Ready_Queue
  imports RB_Remove Queue_Interface
begin

text \<open>
  The ready tree as the rest of the kernel sees it: a queue of process indices ordered by
  virtual runtime, first come first served among equals. \<open>ready NPROC s q\<close> says that the tree
  of the state \<open>s\<close> is well formed and holds exactly the processes \<open>q\<close>, in that order, with
  the count, the total weight, the cached minimum and the period that belong to them.
\<close>

section \<open>The invariant and the abstraction\<close>

abbreviation vr :: "rbs \<Rightarrow> nat \<Rightarrow> int" where
  "vr s i \<equiv> virtualRuntime (procs s i)"

definition ready :: "nat \<Rightarrow> rbs \<Rightarrow> nat list \<Rightarrow> bool" where
  "ready NPROC s q \<longleftrightarrow> (\<exists>t. rep s t \<and> rb_ok t \<and> ids t = q) \<and>
     sorted (map (vr s) q) \<and> set q \<subseteq> {..<NPROC} \<and>
     count (procTree s) = int (length q) \<and> minvRuntime (procTree s) = minp q \<and>
     (\<forall>i \<in> set q. weightVal (procs s i) = 819) \<and> treeWeight (procTree s) = 819 * int (length q) \<and>
     latency NPROC \<le> period (procTree s) \<and> period (procTree s) \<le> 2 * int NPROC"

text \<open>What a tree operation may change of a process: its links, colour, weight and time slice.\<close>

definition redata :: "proc \<Rightarrow> proc \<Rightarrow> bool" where
  "redata p q \<longleftrightarrow> q = p\<lparr>weightVal := weightVal q, maxExecutionTime := maxExecutionTime q,
     color := color q, left := left q, right := right q, pParent := pParent q\<rparr>"

definition tree_frame :: "nat set \<Rightarrow> rbs \<Rightarrow> rbs \<Rightarrow> bool" where
  "tree_frame A s s' \<longleftrightarrow> (\<forall>i. redata (procs s i) (procs s' i)) \<and>
     (\<forall>i. i \<notin> A \<longrightarrow> procs s' i = procs s i)"

lemma redata_refl [simp]: "redata p p"
  by (simp add: redata_def)

lemma redata_trans: "redata p q \<Longrightarrow> redata q r \<Longrightarrow> redata p r"
  by (cases p, cases q, cases r) (simp add: redata_def)

lemma redata_upd [simp]:
  "redata p (q\<lparr>weightVal := w\<rparr>) = redata p q" "redata p (q\<lparr>maxExecutionTime := w\<rparr>) = redata p q"
  "redata p (q\<lparr>left := a\<rparr>) = redata p q" "redata p (q\<lparr>right := a\<rparr>) = redata p q"
  "redata p (q\<lparr>pParent := a\<rparr>) = redata p q" "redata p (q\<lparr>color := c\<rparr>) = redata p q"
  by (cases p, cases q, simp add: redata_def)+

lemma relink_redata: "relink p q \<Longrightarrow> redata p q"
  by (cases p, cases q) (simp add: relink_def redata_def)

lemma redata_fields:
  assumes "redata p q"
  shows "state q = state p" "chan q = chan p" "killed q = killed p" "xstate q = xstate p"
    "pid q = pid p" "parent q = parent p" "kstack q = kstack p" "sz q = sz p"
    "pagetable q = pagetable p" "trapframe q = trapframe p" "ctxt q = ctxt p" "ofile q = ofile p"
    "cwd q = cwd p" "name q = name p" "virtualRuntime q = virtualRuntime p"
    "currentRuntime q = currentRuntime p" "niceVal q = niceVal p"
  using assms by (cases p, cases q, simp add: redata_def)+

lemma tree_frame_refl [simp]: "tree_frame A s s"
  by (simp add: tree_frame_def)

lemma tree_frame_trans: "tree_frame A s s' \<Longrightarrow> tree_frame A s' s'' \<Longrightarrow> tree_frame A s s''"
  by (auto simp: tree_frame_def intro: redata_trans)

lemma only_links_frame: "only_links A s s' \<Longrightarrow> tree_frame A s s'"
  by (auto simp: only_links_def tree_frame_def relink_redata)

lemma tree_frame_mono: "tree_frame A s s' \<Longrightarrow> A \<subseteq> B \<Longrightarrow> tree_frame B s s'"
  by (auto simp: tree_frame_def)

lemma tree_frame_fields:
  assumes "tree_frame A s s'"
  shows "redata (procs s i) (procs s' i)" "i \<notin> A \<Longrightarrow> procs s' i = procs s i"
    "vr s' i = vr s i" "state (procs s' i) = state (procs s i)"
    "niceVal (procs s' i) = niceVal (procs s i)"
  using assms redata_fields [of "procs s i" "procs s' i"] by (auto simp: tree_frame_def)

lemma rep_unique_size: "rep s t \<Longrightarrow> distinct (ids t)"
  by (simp add: rep_def)

lemma ready_distinct: "ready NPROC s q \<Longrightarrow> distinct q"
  by (auto simp: ready_def rep_def)

lemma ready_length: "ready NPROC s q \<Longrightarrow> length q \<le> NPROC"
  using ready_distinct [of NPROC s q] card_mono [of "{..<NPROC}" "set q"]
  by (auto simp: ready_def distinct_card)

lemma ready_room:
  assumes "ready NPROC s q" "p < NPROC" "p \<notin> set q"
  shows "length q < NPROC"
proof -
  have "card (insert p (set q)) \<le> card {..<NPROC}"
    using assms by (intro card_mono) (auto simp: ready_def)
  then show ?thesis using assms ready_distinct [OF assms(1)] by (simp add: distinct_card)
qed

text \<open>The queue only depends on the tree header and on the queued processes.\<close>

lemma ready_cong:
  assumes q: "ready NPROC s q" and tr: "procTree s' = procTree s"
    and same: "\<And>i. i \<in> set q \<Longrightarrow> links (procs s' i) = links (procs s i) \<and> vr s' i = vr s i \<and>
      weightVal (procs s' i) = weightVal (procs s i)"
  shows "ready NPROC s' q"
proof -
  obtain t where t: "rep s t" "rb_ok t" "ids t = q" using q by (auto simp: ready_def)
  have "rep s' t" by (rule rep_cong [OF t(1)]) (use tr same t in auto)
  moreover have "map (vr s') q = map (vr s) q" using same by simp
  moreover have "\<forall>i \<in> set q. weightVal (procs s' i) = weightVal (procs s i)" using same by simp
  ultimately show ?thesis using q t tr unfolding ready_def by metis
qed

section \<open>Set-up\<close>

lemma rbinit_ready: "ready NPROC (rbinit NPROC s) []"
  by (auto simp: ready_def rbinit_def rep_def rb_ok_def latency_def)

section \<open>Insertion\<close>

lemma distinct_ins_raw: "distinct (ids t) \<Longrightarrow> z \<notin> set (ids t) \<Longrightarrow> distinct (ids (ins_raw K v z t))"
  by (induction t rule: ids.induct) auto

lemma insertProc_rep:
  assumes r: "rep s t" and p: "p \<notin> set (ids t)" "left (procs s p) = None" "right (procs s p) = None"
    and cnt: "count (procTree s) = int (length (ids t))"
  defines "T \<equiv> fill (ins_ctx (vr s) (vr s p) t []) (RN Leaf p Leaf)"
  obtains r1 s1 s2 where "insertProc (root (procTree s)) (Some p) s = ret (r1, s1)"
    "(if count (procTree s1) = 0 then wr (pParent_update (\<lambda>_. None))
        (root (procTree (wr_tree (root_update (\<lambda>_. r1)) s1))) (wr_tree (root_update (\<lambda>_. r1)) s1)
      else ret (wr_tree (root_update (\<lambda>_. r1)) s1)) = ret s2"
    "rep s2 T" "only_links (insert p (set (ids t))) s s2"
    "count (procTree s1) = count (procTree s)" "r1 = rootp T"
proof -
  have T: "T = ins_raw (vr s) (vr s p) p t" using fill_ins_ctx [of "vr s" "vr s p" t "[]"] by (simp add: T_def)
  have "\<exists>s'. insertProc (rootp t) (Some p) s = ret (rootp (ins_raw (vr s) (vr s p) p t), s') \<and>
      tree_at (procs s') (if t = Leaf then pParent (procs s p) else None) (ins_raw (vr s) (vr s p) p t) \<and>
      procTree s' = procTree s \<and> only_links (insert p (set (ids t))) s s'"
    by (rule insertProc_at [where K = "vr s"]) (use r p in \<open>auto simp: rep_def\<close>)
  then obtain s1 where s1: "insertProc (rootp t) (Some p) s = ret (rootp T, s1)"
    "tree_at (procs s1) (if t = Leaf then pParent (procs s p) else None) T"
    "procTree s1 = procTree s" "only_links (insert p (set (ids t))) s s1"
    using T by auto
  have dT: "distinct (ids T)" using r p unfolding T rep_def by (simp add: distinct_ins_raw)
  show ?thesis
  proof (cases "t = Leaf")
    case True
    then have T1: "T = RN Leaf p Leaf" by (simp add: T_def)
    show ?thesis
      by (rule that [of "Some p" s1 "wr_tree (root_update (\<lambda>_. Some p)) s1\<lparr>procs := (procs s1)
            (p := (procs s1 p)\<lparr>pParent := None\<rparr>)\<rparr>"])
        (use s1 r True T1 cnt in \<open>auto simp: rep_def wr_tree_def only_links_def\<close>)
  next
    case False
    then have "rootp T = rootp t" unfolding T by (rule rootp_ins_raw)
    then show ?thesis
      by (intro that [of "rootp T" s1 "wr_tree (root_update (\<lambda>_. rootp T)) s1"])
        (use s1 r False cnt dT in \<open>auto simp: rep_def wr_tree_def only_links_def\<close>)
  qed
qed

text \<open>
  The end of \<open>insertProcess\<close>: after the insertion of \<open>p\<close> the cached minimum is the first process
  of the new tree, whether the code recomputes it or keeps the old one.
\<close>

lemma cached_minimum:
  assumes T: "rep s T" "T = rb_insert key p t" and sq: "sorted (map key (ids t))"
    and mn: "minvRuntime (procTree s) = minp (ids t)"
    and b: "(if minvRuntime (procTree s) = None then ret True
      else kbind (rd left (minvRuntime (procTree s)) s) (\<lambda>l. ret (l \<noteq> None))) = ret b"
  shows "(if b then kbind (setMinimumVRuntimeproc (root (procTree s)) s) (\<lambda>m.
        ret (wr_tree (minvRuntime_update (\<lambda>_. m)) s)) else ret s) =
    ret (wr_tree (minvRuntime_update (\<lambda>_. minp (ids T))) s)"
proof (cases b)
  case True
  then show ?thesis using setMinimum_rep [OF T(1)] by simp
next
  case False
  then have qn: "ids t \<noteq> []" and ln: "left (procs s (hd (ids t))) = None"
    using b mn by (auto simp: minp_def split: if_splits)
  have idsT: "ids T = insort_after key p (ids t)" using ids_rb_insert [of key t p] sq T(2) by simp
  have "hd (ids T) = hd (ids t)"
  proof (rule ccontr)
    assume "hd (ids T) \<noteq> hd (ids t)"
    then have "key p < key (hd (ids t))" using qn unfolding idsT by (cases "ids t") (auto split: if_splits)
    then have "\<forall>y \<in> set (ids t). key p < key y" using sq qn by (cases "ids t") auto
    then have "lchild T (hd (ids t)) p" using rb_insert_lchild [of t key p] qn T(2) by auto
    then have "left (procs s (hd (ids t))) = Some p" using lchild_at T(1) by (auto simp: rep_def)
    with ln show False by simp
  qed
  then have "minp (ids T) = minp (ids t)" using idsT qn by (simp add: minp_def)
  then show ?thesis using False mn by (cases s, cases "procTree s") (simp add: wr_tree_def)
qed

lemma insertProcess_ready:
  assumes q: "ready NPROC s q" and p: "p < NPROC" "p \<notin> set q"
    and dt: "left (procs s p) = None" "right (procs s p) = None"
    and nice: "niceVal (procs s p) \<le> 0" and N: "NPROC \<le> 1000000"
  shows "\<exists>s'. insertProcess NPROC (Some p) s = ret s' \<and>
    ready NPROC s' (insort_after (vr s) p q) \<and> tree_frame (insert p (set q)) s s'"
proof -
  let ?A = "insert p (set q)"
  obtain t where r: "rep s t" and ok: "rb_ok t" and tq: "ids t = q" using q by (auto simp: ready_def)
  have cnt: "count (procTree s) = int (length q)" and sq: "sorted (map (vr s) q)"
    and mn: "minvRuntime (procTree s) = minp q" using q by (auto simp: ready_def)
  have len: "length q < NPROC" using ready_room [OF q p] .
  define k where "k = ins_ctx (vr s) (vr s p) t []"
  define T where "T = ins_fix k (RN Leaf p Leaf)"
  have Tins: "T = rb_insert (vr s) p t" by (simp add: T_def k_def rb_insert_def)
  have idsT: "ids T = insort_after (vr s) p q" using ids_rb_insert [of "vr s" t p] sq tq Tins by simp
  have okT: "rb_ok T" using rb_ok_insert [OF ok] Tins by simp
  have kc: "ctxc BLACK k" using ins_ctx_ok [of "[]" t] ok by (simp add: k_def)
  obtain r1 s1 s2 where s1: "insertProc (root (procTree s)) (Some p) s = ret (r1, s1)"
    and s2: "(if count (procTree s1) = 0
        then wr (pParent_update (\<lambda>_. None))
        (root (procTree (wr_tree (root_update (\<lambda>_. r1)) s1))) (wr_tree (root_update (\<lambda>_. r1)) s1)
        else ret (wr_tree (root_update (\<lambda>_. r1)) s1)) = ret s2"
      "rep s2 (fill k (RN Leaf p Leaf))" "only_links ?A s s2"
    using insertProc_rep [OF r, of p] p dt cnt tq by (metis k_def)
  define s3 where "s3 = s2\<lparr>procs := (procs s2)(p := (procs s2 p)\<lparr>weightVal := 819\<rparr>),
    procTree := (procTree s2)\<lparr>count := i32 (count (procTree s2) + 1),
      treeWeight := i32 (treeWeight (procTree s2) + 819)\<rparr>\<rparr>"
  have r3: "rep s3 (fill k (RN Leaf p Leaf))"
    by (rule rep_cong [OF s2(2)]) (auto simp: s3_def links_def)
  obtain s4 where s4: "insertionCases (Some p) 1 s3 = ret s4" "rep s4 T"
    "only_links (set (ids (fill k (RN Leaf p Leaf)))) s3 s4"
    using insertionCases_rep [OF r3 kc] by (auto simp: T_def)
  have A: "set (ids (fill k (RN Leaf p Leaf))) = ?A"
  proof -
    have "ids (fill k (RN Leaf p Leaf)) = ids T" by (simp add: T_def)
    then show ?thesis using idsT by simp
  qed
  have o4: "only_links ?A s3 s4" using s4(3) A by simp
  note f2 = only_links_fields [OF s2(3)] and f4 = only_links_fields [OF o4]
  have fr: "tree_frame ?A s s4"
  proof -
    have "tree_frame ?A s2 s3" by (auto simp: tree_frame_def s3_def)
    then show ?thesis
      using tree_frame_trans [OF tree_frame_trans [OF only_links_frame [OF s2(3)]]
        only_links_frame [OF o4]] by blast
  qed
  have minp4: "minvRuntime (procTree s4) = minp q" using f2(6) f4(6) mn by (simp add: s3_def)
  define s5 where "s5 = wr_tree (minvRuntime_update (\<lambda>_. minp (ids T))) s4"
  note final = cached_minimum [OF s4(2) Tins, unfolded tq, OF sq minp4, folded s5_def]
  obtain b where b: "(if minvRuntime (procTree s4) = None then ret True
      else kbind (rd left (minvRuntime (procTree s4)) s4) (\<lambda>l. ret (l \<noteq> None))) = ret b"
    using minp4 by (cases q) auto
  have "insertProcess NPROC (Some p) s = ret s5"
  proof -
    have e3: "wr_tree (\<lambda>t. t\<lparr>treeWeight := i32 (treeWeight t + 819)\<rparr>)
        ((wr_tree (\<lambda>t. t\<lparr>count := i32 (count t + 1)\<rparr>) s2)\<lparr>procs := (procs s2)
          (p := (procs s2 p)\<lparr>weightVal := 819\<rparr>)\<rparr>) = s3"
      by (simp add: s3_def wr_tree_def)
    have "\<not> isFull NPROC s" using cnt len by (simp add: isFull_def)
    moreover have "calculateWight (niceVal (procs s2 p)) = ret 819"
      using nice f2(4) by (simp add: calculateWight_value)
    ultimately show ?thesis
      using s1 s2(1) s4(1) b final [OF b] e3
      by (simp add: insertProcess_def Let_def split del: if_split)
  qed
  moreover have "ready NPROC s5 (insort_after (vr s) p q)"
  proof -
    have v5: "vr s5 i = vr s i" for i using tree_frame_fields(3) [OF fr] by (simp add: s5_def)
    have "rep s5 T" by (rule rep_cong [OF s4(2)]) (simp_all add: s5_def)
    moreover have "sorted (map (vr s5) (insort_after (vr s) p q))"
      using sorted_insort_after [OF sq] v5 by simp
    moreover have "weightVal (procs s5 i) = 819" if "i \<in> ?A" for i
      using that q f4(2) f2(2) by (auto simp: s5_def s3_def ready_def)
    ultimately show ?thesis
      using okT idsT q p len N f2 f4
      by (auto simp: ready_def s5_def s3_def)
  qed
  moreover have "tree_frame ?A s s5" using fr by (simp add: tree_frame_def s5_def)
  ultimately show ?thesis by blast
qed

section \<open>Removal\<close>

text \<open>The period and the time slice that the code computes for \<open>n\<close> ready processes.\<close>

definition period_for :: "nat \<Rightarrow> nat \<Rightarrow> int \<Rightarrow> int" where
  "period_for NPROC n per = (if int n > latency NPROC div 2 then 2 * int n else per)"

definition slice_for :: "nat \<Rightarrow> nat \<Rightarrow> int \<Rightarrow> int" where
  "slice_for NPROC n per = period_for NPROC n per div int n"

lemma latency_bounds: "0 \<le> latency NPROC" "latency NPROC \<le> int NPROC"
  by (simp_all add: latency_def)

lemma period_for_bounds:
  assumes "latency NPROC \<le> per" "per \<le> 2 * int NPROC" "n \<le> NPROC"
  shows "latency NPROC \<le> period_for NPROC n per" "period_for NPROC n per \<le> 2 * int NPROC"
    "2 * int n \<le> period_for NPROC n per"
  using assms by (auto simp: period_for_def)

lemma slice_for_bounds:
  assumes "latency NPROC \<le> per" "per \<le> 2 * int NPROC" "n \<le> NPROC" "0 < n"
  shows "2 \<le> slice_for NPROC n per" "slice_for NPROC n per \<le> 2 * int NPROC"
proof -
  note b = period_for_bounds [OF assms(1-3)]
  have "2 * int n div int n \<le> slice_for NPROC n per"
    unfolding slice_for_def by (rule zdiv_mono1) (use b assms(4) in auto)
  then show "2 \<le> slice_for NPROC n per" using assms(4) by simp
  have "slice_for NPROC n per \<le> period_for NPROC n per div 1"
    unfolding slice_for_def by (rule zdiv_mono2) (use b assms(4) in auto)
  then show "slice_for NPROC n per \<le> 2 * int NPROC" using b by simp
qed

lemma set_period_ready:
  assumes "ready NPROC s q" "latency NPROC \<le> per" "per \<le> 2 * int NPROC"
  shows "ready NPROC (wr_tree (\<lambda>t. t\<lparr>period := per\<rparr>) s) q"
proof -
  obtain t where "rep s t" "rb_ok t" "ids t = q" using assms(1) by (auto simp: ready_def)
  moreover have "rep (wr_tree (\<lambda>t. t\<lparr>period := per\<rparr>) s) t"
    by (rule rep_cong [OF \<open>rep s t\<close>]) auto
  ultimately show ?thesis using assms unfolding ready_def by auto
qed

text \<open>The state after the period has been recomputed.\<close>

definition new_period :: "nat \<Rightarrow> nat \<Rightarrow> rbs \<Rightarrow> rbs" where
  "new_period NPROC n s = wr_tree (\<lambda>t. t\<lparr>period := period_for NPROC n (period t)\<rparr>) s"

lemma new_period_ready:
  assumes "ready NPROC s q"
  shows "ready NPROC (new_period NPROC (length q) s) q"
proof -
  have b: "latency NPROC \<le> period (procTree s)" "period (procTree s) \<le> 2 * int NPROC"
    using assms by (auto simp: ready_def)
  have "new_period NPROC (length q) s =
      wr_tree (\<lambda>t. t\<lparr>period := period_for NPROC (length q) (period (procTree s))\<rparr>) s"
    by (simp add: new_period_def wr_tree_def)
  then show ?thesis
    using set_period_ready [OF assms period_for_bounds(1,2) [OF b ready_length [OF assms]]] by simp
qed

lemma retrieve_period:
  assumes "ready NPROC s q" "NPROC \<le> 1000000"
  shows "cdiv (latency NPROC) min_granularity = ret (latency NPROC div 2)"
    "(if count (procTree s) > latency NPROC div 2
      then wr_tree (\<lambda>t. t\<lparr>period := i32 (count t * min_granularity)\<rparr>) s else s) =
     new_period NPROC (length q) s"
proof -
  show "cdiv (latency NPROC) min_granularity = ret (latency NPROC div 2)"
    using latency_bounds [of NPROC] assms(2) by (simp add: min_granularity_def cdiv_pos)
  have c: "count (procTree s) = int (length q)" using assms by (auto simp: ready_def)
  have "length q \<le> NPROC" using ready_length [OF assms(1)] .
  then show "(if count (procTree s) > latency NPROC div 2
      then wr_tree (\<lambda>t. t\<lparr>period := i32 (count t * min_granularity)\<rparr>) s else s) =
     new_period NPROC (length q) s"
    using c assms(2)
    by (cases s; cases "procTree s")
      (auto simp: new_period_def period_for_def wr_tree_def min_granularity_def)
qed

lemma retrieveProcess_empty: "ready NPROC s [] \<Longrightarrow> retrieveProcess NPROC s = ret (None, s)"
  by (simp add: ready_def retrieveProcess_def isEmpty_def)

lemma retrieveProcess_skip:
  assumes q: "ready NPROC s (p # q)" and N: "NPROC \<le> 1000000"
    and st: "state (procs s p) \<noteq> RUNNABLE"
  shows "retrieveProcess NPROC s = ret (None, new_period NPROC (length (p # q)) s)"
proof -
  have "\<not> isEmpty s" "minvRuntime (procTree s) = Some p"
    using q by (auto simp: ready_def isEmpty_def)
  then show ?thesis
    using retrieve_period [OF q N] st
    by (simp add: retrieveProcess_def Let_def new_period_def del: length_Cons)
qed

lemma retrieveProcess_ready:
  assumes q: "ready NPROC s (p # q)" and N: "NPROC \<le> 1000000"
    and st: "state (procs s p) = RUNNABLE"
  shows "\<exists>s'. retrieveProcess NPROC s = ret (Some p, s') \<and> ready NPROC s' q \<and>
    detached s' p \<and> tree_frame (set (p # q)) s s' \<and>
    maxExecutionTime (procs s' p) = slice_for NPROC (Suc (length q)) (period (procTree s))"
proof -
  let ?n = "Suc (length q)" and ?A = "set (p # q)"
  define s1 where "s1 = new_period NPROC ?n s"
  have q1: "ready NPROC s1 (p # q)" using new_period_ready [OF q] by (simp add: s1_def)
  have d: "p \<notin> set q" using ready_distinct [OF q] by simp
  have n: "?n \<le> NPROC" using ready_length [OF q] by simp
  obtain t where r: "rep s1 t" and ok: "rb_ok t" and tq: "ids t = p # q"
    using q1 by (auto simp: ready_def)
  have tn: "t \<noteq> Leaf" using tq by auto
  obtain s2 where s2: "retrievingCases (pParent (procs s1 p)) (Some p) 1 s1 = ret s2"
    "rep s2 (rb_delmin t)" "detached s2 p" "only_links ?A s1 s2"
    using retrievingCases1_rep [OF r ok tn] tq by auto
  note f2 = only_links_fields [OF s2(4)]
  define s3 where "s3 = wr_tree (\<lambda>t. t\<lparr>count := i32 (count t - 1)\<rparr>) s2"
  define s4 where "s4 = wr_tree (minvRuntime_update (\<lambda>_. minp q)) s3"
  have idq: "ids (rb_delmin t) = q" using ids_rb_delmin [OF tn] tq by simp
  have r3: "rep s3 (rb_delmin t)" by (rule rep_cong [OF s2(2)]) (auto simp: s3_def)
  have m3: "setMinimumVRuntimeproc (root (procTree s3)) s3 = ret (minp q)"
    using setMinimum_rep [OF r3] idq by simp
  let ?per = "period_for NPROC ?n (period (procTree s))"
  have perb: "latency NPROC \<le> ?per" "?per \<le> 2 * int NPROC" "2 * int ?n \<le> ?per"
    using period_for_bounds [of NPROC "period (procTree s)" ?n] q n by (auto simp: ready_def)
  have w: "weightVal (procs s4 p) = 819" "treeWeight (procTree s4) = 819 * int ?n"
    "period (procTree s4) = ?per"
    using q1 f2 by (auto simp: s4_def s3_def ready_def s1_def new_period_def)
  have slice: "cdiv (i32 (period (procTree s4) * weightVal (procs s4 p))) (treeWeight (procTree s4))
      = ret (slice_for NPROC ?n (period (procTree s)))"
  proof -
    have p819: "0 \<le> ?per * 819" "?per * 819 < 2 ^ 31" using perb N n by auto
    have "cdiv (?per * 819) (819 * int ?n) = ret (?per * 819 div (819 * int ?n))"
      by (rule cdiv_pos) (use p819 in auto)
    moreover have "?per * 819 div (819 * int ?n) = ?per div int ?n"
      using div_mult_mult1 [of 819 ?per "int ?n"] by (simp add: mult.commute)
    ultimately show ?thesis using p819 w by (simp add: slice_for_def del: of_nat_Suc)
  qed
  define s5 where "s5 = wr_tree (\<lambda>t. t\<lparr>treeWeight := i32 (treeWeight t - 819)\<rparr>)
    (s4\<lparr>procs := (procs s4)(p := (procs s4 p)\<lparr>maxExecutionTime :=
       slice_for NPROC ?n (period (procTree s))\<rparr>)\<rparr>)"
  have "retrieveProcess NPROC s = ret (Some p, s5)"
  proof -
    have e: "\<not> isEmpty s" "minvRuntime (procTree s1) = Some p" "state (procs s1 p) = RUNNABLE"
      using q q1 st by (auto simp: ready_def isEmpty_def s1_def new_period_def)
    have sp: "(if count (procTree s) > latency NPROC div 2
        then wr_tree (\<lambda>t. t\<lparr>period := i32 (count t * min_granularity)\<rparr>) s else s) = s1"
      using retrieve_period(2) [OF q N] by (simp add: s1_def)
    have h: "procs s4 = procs s3" "period (procTree s4) = period (procTree s3)"
      "treeWeight (procTree s4) = treeWeight (procTree s3)" by (simp_all add: s4_def)
    show ?thesis
      unfolding retrieveProcess_def Let_def
      using e retrieve_period(1) [OF q N] s2(1) m3 slice w(1)
      by (simp only: sp kbind_ret rd_simps wr_simps if_False if_True not_False_eq_True
          not_True_eq_False prod.case)
        (simp add: s3_def [symmetric] s4_def [symmetric] s5_def h)
  qed
  moreover have "ready NPROC s5 q"
  proof -
    have "rep s5 (rb_delmin t)" by (rule rep_cong [OF s2(2)]) (auto simp: s5_def s4_def s3_def links_def)
    moreover have "vr s5 i = vr s i" for i
      using f2(1) by (auto simp: s5_def s4_def s3_def s1_def new_period_def)
    ultimately show ?thesis
      using q1 q rb_ok_delmin [OF ok] idq f2 N n d perb
      by (auto simp: ready_def s5_def s4_def s3_def s1_def new_period_def
          intro!: exI [of _ "rb_delmin t"] split: if_splits)
  qed
  moreover have "tree_frame ?A s s5"
  proof -
    have "tree_frame ?A s s1" by (simp add: s1_def new_period_def tree_frame_def)
    moreover have "tree_frame ?A s2 s5" by (auto simp: s5_def s4_def s3_def tree_frame_def)
    ultimately show ?thesis using only_links_frame [OF s2(4)] tree_frame_trans by blast
  qed
  moreover have "detached s5 p" using s2(3) by (simp add: s5_def s4_def s3_def detached_def)
  moreover have "maxExecutionTime (procs s5 p) = slice_for NPROC ?n (period (procTree s))"
    by (simp add: s5_def)
  ultimately show ?thesis by blast
qed

text \<open>The represented tree, and so the queue, is determined by the state.\<close>

lemma tree_at_unique:
  "tree_at h pp t \<Longrightarrow> tree_at h pp' t' \<Longrightarrow> rootp t = rootp t' \<Longrightarrow> t = t'"
proof (induction t arbitrary: pp pp' t' rule: ids.induct)
  case (2 l i c r)
  obtain l' c' r' where t': "t' = Node l' (i, c') r'"
    using "2.prems"(3) by (cases t' rule: ids.cases) auto
  have "l = l'" by (rule "2.IH"(1) [of "Some i" "Some i"]) (use "2.prems" t' in auto)
  moreover have "r = r'" by (rule "2.IH"(2) [of "Some i" "Some i"]) (use "2.prems" t' in auto)
  ultimately show ?case using "2.prems" t' by auto
qed auto

lemma ready_unique: "ready NPROC s q \<Longrightarrow> ready NPROC' s q' \<Longrightarrow> q = q'"
  using tree_at_unique by (auto simp: ready_def rep_def) (metis tree_at_unique)+

section \<open>The ready tree fulfils the queue contract\<close>

text \<open>What \<open>yield\<close>, \<open>wakeup\<close> and \<open>kill\<close> do to the key before queueing a process.\<close>

definition charge :: "nat \<Rightarrow> int \<Rightarrow> rbs \<Rightarrow> rbs" where
  "charge p d s = s\<lparr>procs := (procs s)(p :=
     (procs s p)\<lparr>virtualRuntime := i32 (virtualRuntime (procs s p) + d)\<rparr>)\<rparr>"

definition queued :: "nat \<Rightarrow> rbs \<Rightarrow> nat list \<Rightarrow> bool" where
  "queued NPROC s q \<longleftrightarrow> ready NPROC s q \<and> NPROC \<le> 1000000 \<and> (\<forall>i \<in> set q. niceVal (procs s i) \<le> 0)"

definition insertable :: "nat \<Rightarrow> rbs \<Rightarrow> nat \<Rightarrow> bool" where
  "insertable NPROC s p \<longleftrightarrow> p < NPROC \<and> left (procs s p) = None \<and> right (procs s p) = None \<and>
     niceVal (procs s p) \<le> 0"

definition runnable :: "rbs \<Rightarrow> nat \<Rightarrow> bool" where
  "runnable s p \<longleftrightarrow> state (procs s p) = RUNNABLE"

lemma tree_frame_insertable:
  "tree_frame A s s' \<Longrightarrow> i \<notin> A \<Longrightarrow> insertable NPROC s' i = insertable NPROC s i"
  by (simp add: insertable_def tree_frame_def)

lemma tree_frame_views:
  assumes "tree_frame A s s'"
  shows "vr s' = vr s" "runnable s' = runnable s"
  using tree_frame_fields [OF assms] by (auto simp: runnable_def)

lemma charge_ready: "ready NPROC s q \<Longrightarrow> p \<notin> set q \<Longrightarrow> ready NPROC (charge p d s) q"
  by (erule ready_cong) (auto simp: charge_def)

interpretation rq: ready_queue
  "\<lambda>p. insertProcess NPROC (Some p)" "retrieveProcess NPROC" charge
  "queued NPROC" vr "insertable NPROC" runnable "2 ^ 31"
  for NPROC
proof unfold_locales
  fix s q p
  assume q: "queued NPROC s q" and p: "insertable NPROC s p" "p \<notin> set q"
  obtain s' where s': "insertProcess NPROC (Some p) s = ret s'"
    "ready NPROC s' (insort_after (vr s) p q)" "tree_frame (insert p (set q)) s s'"
    using insertProcess_ready [of NPROC s q p] q p by (auto simp: queued_def insertable_def)
  moreover have "queued NPROC s' (insort_after (vr s) p q)"
    using q p s' tree_frame_fields(5) [OF s'(3)] by (auto simp: queued_def insertable_def)
  ultimately show "\<exists>s'. insertProcess NPROC (Some p) s = ret s' \<and>
      queued NPROC s' (insort_after (vr s) p q) \<and> vr s' = vr s \<and> runnable s' = runnable s \<and>
      (\<forall>i. i \<noteq> p \<longrightarrow> i \<notin> set q \<longrightarrow> insertable NPROC s i \<longrightarrow> insertable NPROC s' i)"
    using tree_frame_views [OF s'(3)] tree_frame_insertable [OF s'(3)] by auto
next
  fix s
  assume "queued NPROC s []"
  then show "retrieveProcess NPROC s = ret (None, s)"
    by (simp add: queued_def retrieveProcess_empty)
next
  fix s p q
  assume q: "queued NPROC s (p # q)" and p: "runnable s p"
  obtain s' where s': "retrieveProcess NPROC s = ret (Some p, s')" "ready NPROC s' q"
    "detached s' p" "tree_frame (set (p # q)) s s'"
    using retrieveProcess_ready [of NPROC s p q] q p by (auto simp: queued_def runnable_def)
  moreover have "queued NPROC s' q" "insertable NPROC s' p"
    using q s' tree_frame_fields(5) [OF s'(4)]
    by (auto simp: queued_def insertable_def detached_def ready_def)
  ultimately show "\<exists>s'. retrieveProcess NPROC s = ret (Some p, s') \<and> queued NPROC s' q \<and>
      insertable NPROC s' p \<and> vr s' = vr s \<and> runnable s' = runnable s"
    using tree_frame_views [OF s'(4)] by auto
next
  fix s q p and d :: int
  assume q: "queued NPROC s q" and p: "insertable NPROC s p" "p \<notin> set q"
    and b: "0 \<le> vr s p + d" "vr s p + d < 2 ^ 31"
  have "queued NPROC (charge p d s) q"
    using q p charge_ready [of NPROC s q p d] by (auto simp: queued_def) (auto simp: charge_def)
  then show "queued NPROC (charge p d s) q \<and> insertable NPROC (charge p d s) p \<and>
      runnable (charge p d s) = runnable s \<and> vr (charge p d s) = (vr s)(p := vr s p + d)"
    using p b by (auto simp: charge_def insertable_def runnable_def fun_eq_iff)
next
  fix s q
  assume "queued NPROC s q"
  then show "sorted (map (vr s) q) \<and> distinct q"
    using ready_distinct by (auto simp: queued_def ready_def)
qed

section \<open>The preemption test\<close>

lemma checkPreemption_value:
  "checkPreemption (Some c) minv s = ret
    (let r = currentRuntime (procs s c) in
     (maxExecutionTime (procs s c) \<le> r \<and> 2 \<le> r) \<or>
     ((\<exists>m. minv = Some m \<and> state (procs s m) = RUNNABLE \<and> vr s m < vr s c) \<and> (r = 0 \<or> 2 \<le> r)))"
  by (cases minv) (auto simp: checkPreemption_def both_eq_def min_granularity_def Let_def)

end
