(* ===== verification/Tree_Properties.thy ===== *)
theory Tree_Properties
  imports Ready_Queue
begin

text \<open>
  The properties of the ready tree: what insertion, removal, the time slice and the preemption
  test of \<open>proc.c\<close> guarantee, and where the weight computation does not return. Each property
  with a hypothesis has a witness at a concrete state.
\<close>

section \<open>Concrete states for the witnesses\<close>

definition blank_proc :: proc where
  "blank_proc = \<lparr>state = RUNNABLE, chan = None, killed = 0, xstate = 0, pid = 0, parent = None,
     kstack = 0, sz = 0, pagetable = 0, trapframe = 0, ctxt = zero_context, ofile = [], cwd = 0,
     name = [], virtualRuntime = 0, currentRuntime = 0, maxExecutionTime = 0, niceVal = 0,
     weightVal = 0, color = RED, left = None, right = None, pParent = None\<rparr>"

definition sample0 :: rbs where
  "sample0 = rbinit 64 \<lparr>procs = (\<lambda>i. blank_proc\<lparr>virtualRuntime := int (10 - i)\<rparr>),
     procTree = \<lparr>count = 5, treeWeight = 7, root = Some 1, minvRuntime = None, period = 0\<rparr>\<rparr>"

definition sample1 :: rbs where
  "sample1 = \<lparr>procs = (\<lambda>i. blank_proc\<lparr>color := BLACK, weightVal := 819\<rparr>),
     procTree = \<lparr>count = 1, treeWeight = 819, root = Some 3, minvRuntime = Some 3, period = 32\<rparr>\<rparr>"

lemma sample0_queued: "queued 64 sample0 []"
  using rbinit_ready by (simp add: queued_def sample0_def)

lemma sample0_insertable: "p < 64 \<Longrightarrow> insertable 64 sample0 p" "runnable sample0 p"
  by (simp_all add: insertable_def runnable_def sample0_def rbinit_def blank_proc_def)

lemma sample1_ready: "ready 64 sample1 [3]"
  unfolding ready_def
  by (auto simp: sample1_def rep_def rb_ok_def latency_def blank_proc_def
      intro!: exI [of _ "BN Leaf 3 Leaf"])

lemma sample1_queued: "queued 64 sample1 [3]" "runnable sample1 3"
  using sample1_ready by (simp_all add: queued_def runnable_def sample1_def blank_proc_def)

section \<open>Insertion and removal\<close>

text \<open>
  C1. \<open>insertProcess\<close> on a well-formed ready tree returns (no null pointer is followed, no
  recursion or loop runs on), the new tree is a red-black tree again, and its in-order sequence
  is the old one with the process placed after every process of smaller or equal virtual
  runtime. Count, total weight and the cached minimum follow; no other process data changes.
\<close>

theorem insertProcess_correct:
  assumes "queued NPROC s q" and "insertable NPROC s p" and "p \<notin> set q"
  shows "\<exists>s' t. insertProcess NPROC (Some p) s = ret s' \<and> rep s' t \<and> rb_ok t \<and>
    ids t = insort_after (vr s) p q \<and> sorted (map (vr s') (ids t)) \<and>
    minvRuntime (procTree s') = Some (hd (ids t)) \<and> count (procTree s') = count (procTree s) + 1 \<and>
    treeWeight (procTree s') = treeWeight (procTree s) + 819 \<and> tree_frame (insert p (set q)) s s'"
proof -
  obtain s' where s': "insertProcess NPROC (Some p) s = ret s'"
    "ready NPROC s' (insort_after (vr s) p q)" "tree_frame (insert p (set q)) s s'"
    using insertProcess_ready [of NPROC s q p] assms by (auto simp: queued_def insertable_def)
  with assms(1) show ?thesis by (auto simp: queued_def ready_def minp_def)
qed

theorem insertProcess_correct_witness:
  "\<exists>s' t. insertProcess 64 (Some 7) sample0 = ret s' \<and> rep s' t \<and> rb_ok t \<and> ids t = [7]"
  using insertProcess_correct [OF sample0_queued, of 7] sample0_insertable(1) [of 7] by auto

text \<open>
  C2. \<open>retrieveProcess\<close> on a non-empty well-formed ready tree whose first process is runnable
  returns exactly that process: it has the least virtual runtime of all queued processes (the
  longest queued among equals), the rest stays queued in order in a red-black tree, and the
  removed node has its links cleared, so that it can be queued again.
\<close>

theorem retrieveProcess_correct:
  assumes "queued NPROC s (p # q)" and "runnable s p"
  shows "\<exists>s' t. retrieveProcess NPROC s = ret (Some p, s') \<and> rep s' t \<and> rb_ok t \<and> ids t = q \<and>
    (\<forall>i \<in> set q. vr s p \<le> vr s i) \<and> minvRuntime (procTree s') = minp q \<and>
    left (procs s' p) = None \<and> right (procs s' p) = None \<and> pParent (procs s' p) = None \<and>
    treeWeight (procTree s') = treeWeight (procTree s) - 819"
proof -
  obtain s' where s': "retrieveProcess NPROC s = ret (Some p, s')" "ready NPROC s' q" "detached s' p"
    using retrieveProcess_ready [of NPROC s p q] assms by (auto simp: queued_def runnable_def)
  with assms show ?thesis
    by (auto simp: queued_def ready_def detached_def)
qed

theorem retrieveProcess_correct_witness:
  "\<exists>s' t. retrieveProcess 64 sample1 = ret (Some 3, s') \<and> rep s' t \<and> rb_ok t \<and> ids t = []"
  using retrieveProcess_correct [OF sample1_queued] by auto

text \<open>
  C3. The whole ready tree is a stable sorter: inserting any distinct insertable runnable
  processes one after the other into the empty tree and removing them all gives them ordered
  by virtual runtime, first come first served among equal runtimes.
\<close>

theorem ready_tree_sorts:
  assumes "queued NPROC s []" and "distinct ps" and "\<forall>p \<in> set ps. insertable NPROC s p \<and> runnable s p"
  shows "\<exists>s'. kbind (enq_list (\<lambda>p. insertProcess NPROC (Some p)) ps s)
      (drain (retrieveProcess NPROC) (length ps)) = ret (sort_key (vr s) ps, s') \<and> queued NPROC s' []"
  by (rule rq.fill_drain_sorts [OF assms])

theorem ready_tree_sorts_witness:
  "\<exists>s'. kbind (enq_list (\<lambda>p. insertProcess 64 (Some p)) [2, 9, 4] sample0)
      (drain (retrieveProcess 64) 3) = ret ([9, 4, 2], s')"
proof -
  have l: "length [2, 9, 4 :: nat] = 3"
    and o: "sort_key (vr sample0) [2, 9, 4] = [9, 4, 2]"
    by (simp_all add: sample0_def rbinit_def blank_proc_def wr_tree_def)
  have "\<forall>p \<in> set [2, 9, 4]. insertable 64 sample0 p \<and> runnable sample0 p"
    using sample0_insertable by simp
  then show ?thesis
    using ready_tree_sorts [OF sample0_queued, of "[2, 9, 4]"] unfolding l o by auto
qed

text \<open>
  C4. No starvation in the ready tree: when the first process is repeatedly taken, charged a
  positive run time and inserted again, every queued process is taken within \<open>wait_bound\<close> + 1
  rounds, the sum over the other processes of how far their keys lie behind its own, as long
  as no key reaches the end of the 32-bit range.
\<close>

theorem ready_tree_no_starvation:
  assumes "queued NPROC s q" and "\<forall>i \<in> set q. runnable s i \<and> 0 \<le> vr s i" and "p \<in> set q"
    and "\<forall>d \<in> set ds. 0 < d" and "\<forall>i \<in> set q. vr s i + sum_list ds < 2 ^ 31"
    and "wait_bound (vr s) p q < length ds"
  shows "\<exists>ps s'. rounds (\<lambda>p. insertProcess NPROC (Some p)) (retrieveProcess NPROC) charge ds s =
    ret (ps, s') \<and> p \<in> set ps"
  by (rule rq.rounds_reach [OF assms])

theorem ready_tree_no_starvation_witness:
  "\<exists>ps s'. rounds (\<lambda>p. insertProcess 64 (Some p)) (retrieveProcess 64) charge [2, 5] sample1 =
    ret (ps, s') \<and> 3 \<in> set ps"
  using ready_tree_no_starvation [OF sample1_queued(1), of 3 "[2, 5]"] sample1_queued
  by (auto simp: wait_bound_def sample1_def blank_proc_def)

text \<open>
  C5. The height of the tree that \<open>insertProcess\<close> leaves is logarithmic in the number of queued
  processes, so descents, repairs and the search for the minimum take logarithmic time.
\<close>

theorem insertProcess_height:
  assumes "queued NPROC s q" and "insertable NPROC s p" and "p \<notin> set q"
    and "insertProcess NPROC (Some p) s = ret s'"
  shows "\<exists>t. rep s' t \<and> set (ids t) = insert p (set q) \<and> 2 ^ (height t div 2) \<le> length q + 2"
proof -
  obtain t where t: "rep s' t" "rb_ok t" "ids t = insort_after (vr s) p q"
    using insertProcess_ready [of NPROC s q p] assms by (auto simp: queued_def insertable_def ready_def)
  moreover have "size t = Suc (length q)" using t(3) length_ids [of t] by simp
  ultimately show ?thesis using rb_ok_height [OF t(2)] by auto
qed

theorem insertProcess_height_witness:
  "\<exists>s' t. insertProcess 64 (Some 7) sample0 = ret s' \<and> rep s' t \<and> 2 ^ (height t div 2) \<le> (2 :: nat)"
proof -
  obtain s' where "insertProcess 64 (Some 7) sample0 = ret s'"
    using insertProcess_ready [of 64 sample0 "[]" 7] sample0_queued sample0_insertable(1) [of 7]
    by (auto simp: queued_def insertable_def)
  with insertProcess_height [OF sample0_queued _ _ this] sample0_insertable(1) [of 7]
  show ?thesis by auto
qed

section \<open>Time slices and preemption\<close>

text \<open>
  C6. The time slice of the process that \<open>retrieveProcess\<close> returns: the period divided by the
  number of queued processes, where the period is twice that number as soon as it exceeds
  half the latency. The slice is therefore at least the minimum granularity of 2 ticks, and
  exactly 2 under load; it never exceeds twice the size of the process table.
\<close>

theorem time_slice:
  assumes "queued NPROC s (p # q)" and "runnable s p" and "retrieveProcess NPROC s = ret (r, s')"
  shows "let n = int (Suc (length q)); per = period (procTree s); slice = maxExecutionTime (procs s' p)
    in slice = (if n > latency NPROC div 2 then min_granularity else per div n) \<and>
      min_granularity \<le> slice \<and> slice \<le> 2 * int NPROC"
proof -
  have s: "maxExecutionTime (procs s' p) = slice_for NPROC (Suc (length q)) (period (procTree s))"
    using retrieveProcess_ready [of NPROC s p q] assms by (auto simp: queued_def runnable_def)
  have b: "latency NPROC \<le> period (procTree s)" "period (procTree s) \<le> 2 * int NPROC"
    "Suc (length q) \<le> NPROC"
    using assms(1) ready_length [of NPROC s "p # q"] by (auto simp: queued_def ready_def)
  have "2 * n div n = 2" if "n > 0" for n :: int using that by simp
  from this [of "int (Suc (length q))"]
  have "2 * int (Suc (length q)) div int (Suc (length q)) = 2" by (simp del: of_nat_Suc)
  then show ?thesis
    using s slice_for_bounds [OF b]
    by (simp add: slice_for_def period_for_def min_granularity_def Let_def del: of_nat_Suc)
qed

theorem time_slice_witness:
  "\<exists>s'. retrieveProcess 64 sample1 = ret (Some 3, s') \<and> maxExecutionTime (procs s' 3) = 32"
proof -
  obtain s' where s': "retrieveProcess 64 sample1 = ret (Some 3, s')"
    using retrieveProcess_ready [OF sample1_ready] sample1_queued(2) by (auto simp: runnable_def)
  with time_slice [OF sample1_queued this] show ?thesis
    by (simp add: Let_def latency_def sample1_def)
qed

text \<open>The table when process \<open>p\<close> has been charged \<open>n\<close> units since it was chosen.\<close>

definition charged :: "nat \<Rightarrow> int \<Rightarrow> rbs \<Rightarrow> rbs" where
  "charged p n s = s\<lparr>procs := (procs s)(p := (procs s p)\<lparr>currentRuntime := n\<rparr>)\<rparr>"

text \<open>The test sees the whole tree, although it only looks at the cached first process.\<close>

lemma checkPreemption_queue:
  assumes "queued NPROC u q" "\<forall>i \<in> set q. runnable u i" "p \<notin> set q"
  shows "checkPreemption (Some p) (minvRuntime (procTree u)) (charged p n u) = ret
    (maxExecutionTime (procs u p) \<le> n \<and> min_granularity \<le> n \<or>
     (\<exists>w \<in> set q. vr u w < vr u p) \<and> (n = 0 \<or> min_granularity \<le> n))"
proof -
  have m: "minvRuntime (procTree u) = minp q" and st: "sorted (map (vr u) q)"
    using assms(1) by (auto simp: queued_def ready_def)
  have "(\<exists>m. minp q = Some m \<and> state (procs (charged p n u) m) = RUNNABLE \<and>
      vr (charged p n u) m < vr (charged p n u) p) \<longleftrightarrow> (\<exists>w \<in> set q. vr u w < vr u p)"
    using st assms(2,3) by (cases q) (auto simp: minp_def charged_def runnable_def)
  then show ?thesis unfolding m checkPreemption_value by (simp add: charged_def Let_def min_granularity_def)
qed

text \<open>
  C7. How long a turn is. From the moment \<open>retrieveProcess\<close> has chosen a process, and as long as
  the tree stays as it is, the test does not ask for a preemption before the process has been
  charged its whole slice, which is at least the minimum granularity, and asks for it at that
  very charge, not only once the slice is exceeded. Whatever the tree becomes meanwhile, the
  process also loses the CPU, after the minimum granularity or if it has not run at all, exactly
  if some queued process has a smaller virtual runtime, be it by a single unit: there is no
  other threshold.
\<close>

theorem turn_length:
  assumes "queued NPROC s (p # q)" and "\<forall>i \<in> set (p # q). runnable s i"
    and "retrieveProcess NPROC s = ret (r, s')"
  shows "min_granularity \<le> maxExecutionTime (procs s' p) \<and>
    (\<forall>n. checkPreemption (Some p) (minvRuntime (procTree s')) (charged p n s') =
       ret (maxExecutionTime (procs s' p) \<le> n)) \<and>
    (\<forall>u q' n. queued NPROC u q' \<longrightarrow> (\<forall>i \<in> set q'. runnable u i) \<longrightarrow> p \<notin> set q' \<longrightarrow>
       maxExecutionTime (procs u p) = maxExecutionTime (procs s' p) \<longrightarrow>
       checkPreemption (Some p) (minvRuntime (procTree u)) (charged p n u) =
         ret (maxExecutionTime (procs s' p) \<le> n \<or>
           (\<exists>w \<in> set q'. vr u w < vr u p) \<and> (n = 0 \<or> min_granularity \<le> n)))"
proof -
  have s': "ready NPROC s' q" "tree_frame (set (p # q)) s s'"
    "maxExecutionTime (procs s' p) = slice_for NPROC (Suc (length q)) (period (procTree s))"
    using retrieveProcess_ready [of NPROC s p q] assms by (auto simp: queued_def runnable_def)
  have g: "min_granularity \<le> maxExecutionTime (procs s' p)"
    using s'(3) slice_for_bounds [of NPROC "period (procTree s)" "Suc (length q)"] assms(1)
      ready_length [of NPROC s "p # q"]
    by (auto simp: queued_def ready_def min_granularity_def)
  have qs: "queued NPROC s' q" "\<forall>i \<in> set q. runnable s' i" "p \<notin> set q"
    using assms(1,2) s'(1) tree_frame_fields(4,5) [OF s'(2)] ready_distinct [of NPROC s "p # q"]
    by (auto simp: queued_def runnable_def)
  have "\<not> (\<exists>w \<in> set q. vr s' w < vr s' p)"
    using assms(1) tree_frame_fields [OF s'(2)] by (auto simp: queued_def ready_def not_less)
  with checkPreemption_queue [OF qs] g
  have "\<forall>n. checkPreemption (Some p) (minvRuntime (procTree s')) (charged p n s') =
       ret (maxExecutionTime (procs s' p) \<le> n)"
    by auto
  moreover have "checkPreemption (Some p) (minvRuntime (procTree u)) (charged p n u) =
         ret (maxExecutionTime (procs s' p) \<le> n \<or>
           (\<exists>w \<in> set q'. vr u w < vr u p) \<and> (n = 0 \<or> min_granularity \<le> n))"
    if "queued NPROC u q'" "\<forall>i \<in> set q'. runnable u i" "p \<notin> set q'"
      "maxExecutionTime (procs u p) = maxExecutionTime (procs s' p)" for u q' n
    using checkPreemption_queue [OF that(1-3), of n] that(4) g by auto
  ultimately show ?thesis using g by blast
qed

text \<open>
  Process 3 is chosen with a slice of 32 and keeps the CPU for 31 charges; when process 7, one
  unit behind it, is queued, it loses the CPU at its second charge.
\<close>

theorem turn_length_witness:
  "\<exists>s' u. retrieveProcess 64 sample1 = ret (Some 3, s') \<and>
    checkPreemption (Some 3) (minvRuntime (procTree s')) (charged 3 31 s') = ret False \<and>
    checkPreemption (Some 3) (minvRuntime (procTree s')) (charged 3 32 s') = ret True \<and>
    vr u 7 = vr u 3 - 1 \<and>
    checkPreemption (Some 3) (minvRuntime (procTree u)) (charged 3 1 u) = ret False \<and>
    checkPreemption (Some 3) (minvRuntime (procTree u)) (charged 3 2 u) = ret True"
proof -
  obtain s' where s': "retrieveProcess 64 sample1 = ret (Some 3, s')" "ready 64 s' []"
    "tree_frame {3} sample1 s'" "maxExecutionTime (procs s' 3) = slice_for 64 1 32"
    using retrieveProcess_ready [OF sample1_ready] sample1_queued(2)
    by (auto simp: runnable_def sample1_def)
  have sl: "maxExecutionTime (procs s' 3) = 32" by (simp add: s'(4) slice_for_def period_for_def latency_def)
  define v where "v = s'\<lparr>procs := (procs s')(7 := (procs s' 7)\<lparr>virtualRuntime := - 1\<rparr>)\<rparr>"
  have v: "ready 64 v []" by (rule ready_cong [OF s'(2)]) (simp_all add: v_def)
  have s7: "procs s' 7 = procs sample1 7" using s'(3) by (simp add: tree_frame_def)
  have nv: "niceVal (procs v 7) \<le> 0" "left (procs v 7) = None" "right (procs v 7) = None"
    "vr v 7 = - 1" "state (procs v 7) = RUNNABLE" "procs v 3 = procs s' 3"
    by (simp_all add: v_def s7) (simp_all add: sample1_def blank_proc_def)
  obtain u where u: "ready 64 u (insort_after (vr v) 7 [])" "tree_frame {7} v u"
    using insertProcess_ready [OF v, of 7] nv(1-3) by auto
  note f = tree_frame_fields [OF u(2)]
  have "insort_after (vr v) 7 [] = [7]" by simp
  then have q: "queued 64 u [7]" "\<forall>i \<in> set [7]. runnable u i" "3 \<notin> set [7 :: nat]"
    using u(1) f nv by (simp_all add: queued_def runnable_def)
  have p3: "procs u 3 = procs s' 3" using u(2) nv(6) by (simp add: tree_frame_def)
  have v3: "vr s' 3 = 0" using tree_frame_fields [OF s'(3)] by (simp add: sample1_def blank_proc_def)
  have r: "\<forall>i \<in> set [3]. runnable sample1 i" using sample1_queued(2) by simp
  note turn = turn_length [OF sample1_queued(1) r s'(1)]
  have "checkPreemption (Some 3) (minvRuntime (procTree u)) (charged 3 n u) =
      ret (32 \<le> n \<or> (n = 0 \<or> min_granularity \<le> n))" for n
    using turn q p3 f nv(4) v3 by (auto simp: sl)
  then show ?thesis
    using s'(1) turn p3 f nv(4) v3
    by (intro exI [of _ s'] exI [of _ u]) (simp add: sl min_granularity_def)
qed

section \<open>The weight computation\<close>

text \<open>
  C8. \<open>calculateWight\<close> returns exactly for nice values that are not positive, and then always
  819, the integer part of 1024 / 1.25; for every positive nice value its loop runs for ever.
\<close>

theorem calculateWight_returns_iff:
  "(calculateWight nice = ret 819 \<longleftrightarrow> nice \<le> 0) \<and> (calculateWight nice = hang \<longleftrightarrow> nice > 0)"
  by (simp add: calculateWight_value)

text \<open>
  C9. Queueing a process with a positive nice value never returns, on any well-formed ready
  tree: the kernel hangs inside \<open>insertProcess\<close>, between taking and releasing the tree lock.
\<close>

theorem insertProcess_nice_hangs:
  assumes "ready NPROC s q" and "p < NPROC" and "p \<notin> set q" and "left (procs s p) = None"
    and "right (procs s p) = None" and "niceVal (procs s p) > 0"
  shows "insertProcess NPROC (Some p) s = hang"
proof -
  obtain t where r: "rep s t" "ids t = q" and c: "count (procTree s) = int (length (ids t))"
    using assms(1) by (auto simp: ready_def)
  obtain r1 s1 s2 where s1: "insertProc (root (procTree s)) (Some p) s = ret (r1, s1)"
    and s2: "(if count (procTree s1) = 0 then wr (pParent_update (\<lambda>_. None))
        (root (procTree (wr_tree (root_update (\<lambda>_. r1)) s1))) (wr_tree (root_update (\<lambda>_. r1)) s1)
      else ret (wr_tree (root_update (\<lambda>_. r1)) s1)) = ret s2"
      "only_links (insert p (set (ids t))) s s2"
    using insertProc_rep [OF r(1) _ assms(4,5) c] assms(3) r(2) by metis
  have "\<not> isFull NPROC s"
    using ready_room [OF assms(1-3)] c r by (simp add: isFull_def)
  moreover have "calculateWight (niceVal (procs s2 p)) = hang"
    using only_links_fields(4) [OF s2(2)] assms(6) by (simp add: calculateWight_value)
  ultimately show ?thesis
    using s1 s2(1) by (simp add: insertProcess_def Let_def split del: if_split)
qed

theorem insertProcess_nice_hangs_witness:
  "insertProcess 64 (Some 7) (sample0\<lparr>procs := (procs sample0)(7 := blank_proc\<lparr>niceVal := 5\<rparr>)\<rparr>) = hang"
proof -
  have "ready 64 (sample0\<lparr>procs := (procs sample0)(7 := blank_proc\<lparr>niceVal := 5\<rparr>)\<rparr>) []"
    by (rule ready_cong [of 64 sample0 "[]"]) (use sample0_queued in \<open>auto simp: queued_def\<close>)
  then show ?thesis by (rule insertProcess_nice_hangs) (simp_all add: blank_proc_def)
qed

end
