(* ===== verification/Kernel.thy ===== *)
theory Kernel
  imports Ready_Queue
begin

text \<open>
  The state the kernel code runs on and the code outside the repository that it calls.

  A \<open>kernel\<close> holds the globals of \<open>proc.c\<close> and \<open>trap.c\<close> (the process table with the ready
  tree, \<open>cpus\<close>, \<open>nextpid\<close>, \<open>initproc\<close>, \<open>ticks\<close>, the flag \<open>first\<close> of \<open>forkret\<close>), the contents
  of the trap frame pages, the number of the hart that executes (register \<open>tp\<close>), the sequence
  of the calls of \<open>acquire\<close> and \<open>release\<close> made so far, and in \<open>mach\<close> everything the files
  modelled here do not define: page allocator, page tables, user memory, files, devices.

  An \<open>ext\<close> holds the functions and constants that come from files outside the repository
  (\<open>param.h\<close>, \<open>memlayout.h\<close>, \<open>spinlock.c\<close>, \<open>kalloc.c\<close>, \<open>vm.c\<close>, \<open>swtch.S\<close>, the file system).
  Nothing is known of them but what a theorem states as a hypothesis.
\<close>

section \<open>State\<close>

datatype lock = Pid_lock | Wait_lock | Tree_lock | Ticks_lock | Proc_lock nat | Other_lock u64

datatype event = Acquire lock | Release lock

datatype ctxref = Ctx_proc nat | Ctx_cpu nat

text \<open>The values that calls of \<open>printf\<close> pass after the format string.\<close>

datatype printf_arg = Arg_int int | Arg_str string

record 'm kernel =
  rb :: rbs
  cpus :: "nat \<Rightarrow> cpu"
  nextpid :: int
  initproc :: ptr
  ticks :: u32
  first :: bool
  tframes :: "u64 \<Rightarrow> trapframe"
  hart :: nat
  calls :: "event list"
  mach :: 'm

section \<open>Code outside the repository\<close>

record 'm ext =
  NPROC :: nat
  NOFILE :: nat
  PGSIZE :: u64
  TRAMPOLINE :: u64
  TRAPFRAME :: u64
  KSTACK :: "nat \<Rightarrow> u64"
  PTE_R :: u32
  PTE_W :: u32
  PTE_X :: u32
  trampoline :: u64
  forkret_addr :: u64
  acquire_cpu :: "lock \<Rightarrow> event list \<Rightarrow> cpu \<Rightarrow> cpu kres"
  release_cpu :: "lock \<Rightarrow> event list \<Rightarrow> cpu \<Rightarrow> cpu kres"
  holding :: "lock \<Rightarrow> event list \<Rightarrow> bool"
  intr_get :: "'m kernel \<Rightarrow> bool"
  intr_on :: "'m kernel \<Rightarrow> 'm kernel kres"
  intr_off :: "'m kernel \<Rightarrow> 'm kernel kres"
  wfi :: "'m kernel \<Rightarrow> 'm kernel kres"
  printf :: "string \<Rightarrow> printf_arg list \<Rightarrow> 'm \<Rightarrow> 'm"
  swtch :: "ctxref \<Rightarrow> ctxref \<Rightarrow> 'm kernel \<Rightarrow> 'm kernel kres"
  kalloc :: "'m \<Rightarrow> (u64 \<times> trapframe) \<times> 'm"
  kfree :: "u64 \<Rightarrow> 'm \<Rightarrow> 'm"
  kvmmap :: "u64 \<Rightarrow> u64 \<Rightarrow> u64 \<Rightarrow> u64 \<Rightarrow> u32 \<Rightarrow> 'm \<Rightarrow> 'm"
  uvmcreate :: "'m \<Rightarrow> u64 \<times> 'm"
  mappages :: "u64 \<Rightarrow> u64 \<Rightarrow> u64 \<Rightarrow> u64 \<Rightarrow> u32 \<Rightarrow> 'm \<Rightarrow> int \<times> 'm"
  uvmunmap :: "u64 \<Rightarrow> u64 \<Rightarrow> u64 \<Rightarrow> bool \<Rightarrow> 'm \<Rightarrow> 'm"
  uvmfree :: "u64 \<Rightarrow> u64 \<Rightarrow> 'm \<Rightarrow> 'm"
  uvmfirst :: "u64 \<Rightarrow> 8 word list \<Rightarrow> 'm \<Rightarrow> 'm"
  uvmalloc :: "u64 \<Rightarrow> u64 \<Rightarrow> u64 \<Rightarrow> u32 \<Rightarrow> 'm \<Rightarrow> u64 \<times> 'm"
  uvmdealloc :: "u64 \<Rightarrow> u64 \<Rightarrow> u64 \<Rightarrow> 'm \<Rightarrow> u64 \<times> 'm"
  uvmcopy :: "u64 \<Rightarrow> u64 \<Rightarrow> u64 \<Rightarrow> 'm \<Rightarrow> int \<times> 'm"
  copyout :: "u64 \<Rightarrow> u64 \<Rightarrow> 8 word list \<Rightarrow> 'm \<Rightarrow> int \<times> 'm"
  copyin :: "u64 \<Rightarrow> u64 \<Rightarrow> u64 \<Rightarrow> 'm \<Rightarrow> (int \<times> 8 word list) \<times> 'm"
  store :: "u64 \<Rightarrow> 8 word list \<Rightarrow> 'm \<Rightarrow> 'm"
  load :: "u64 \<Rightarrow> u64 \<Rightarrow> 'm \<Rightarrow> 8 word list"
  safestrcpy :: "string \<Rightarrow> nat \<Rightarrow> string"
  filedup :: "u64 \<Rightarrow> 'm \<Rightarrow> u64 \<times> 'm"
  idup :: "u64 \<Rightarrow> 'm \<Rightarrow> u64 \<times> 'm"
  namei :: "string \<Rightarrow> 'm kernel \<Rightarrow> (u64 \<times> 'm kernel) kres"
  fileclose :: "u64 \<Rightarrow> 'm kernel \<Rightarrow> 'm kernel kres"
  begin_op :: "'m kernel \<Rightarrow> 'm kernel kres"
  iput :: "u64 \<Rightarrow> 'm kernel \<Rightarrow> 'm kernel kres"
  end_op :: "'m kernel \<Rightarrow> 'm kernel kres"
  fsinit :: "'m kernel \<Rightarrow> 'm kernel kres"

section \<open>Access\<close>

text \<open>
  \<open>myproc\<close> reads the entry of this hart; \<open>push_off\<close> and \<open>pop_off\<close> around the read cancel out in
  \<open>noff\<close>, and \<open>intena\<close>, which they may set, is only read while \<open>noff\<close> is positive.
\<close>

definition cpuid :: "'m kernel \<Rightarrow> nat" where
  "cpuid k = hart k"

definition mycpu :: "'m kernel \<Rightarrow> cpu" where
  "mycpu k = cpus k (cpuid k)"

definition myproc :: "'m kernel \<Rightarrow> ptr" where
  "myproc k = cpu_proc (mycpu k)"

definition set_mycpu :: "(cpu \<Rightarrow> cpu) \<Rightarrow> 'm kernel \<Rightarrow> 'm kernel" where
  "set_mycpu u k = k\<lparr>cpus := (cpus k)(cpuid k := u (mycpu k))\<rparr>"

definition pget :: "(proc \<Rightarrow> 'a) \<Rightarrow> ptr \<Rightarrow> 'm kernel \<Rightarrow> 'a kres" where
  "pget f p k = rd f p (rb k)"

definition pset :: "(proc \<Rightarrow> proc) \<Rightarrow> ptr \<Rightarrow> 'm kernel \<Rightarrow> 'm kernel kres" where
  "pset u p k = kbind (wr u p (rb k)) (\<lambda>s. ret (k\<lparr>rb := s\<rparr>))"

text \<open>A call of a function outside the repository that works on \<open>mach\<close> only.\<close>

definition mcall :: "('m \<Rightarrow> 'a \<times> 'm) \<Rightarrow> 'm kernel \<Rightarrow> 'a \<times> 'm kernel" where
  "mcall f k = (case f (mach k) of (x, m) \<Rightarrow> (x, k\<lparr>mach := m\<rparr>))"

definition mdo :: "('m \<Rightarrow> 'm) \<Rightarrow> 'm kernel \<Rightarrow> 'm kernel" where
  "mdo f k = k\<lparr>mach := f (mach k)\<rparr>"

text \<open>A page from \<open>kalloc\<close>: its address (0 if there is none) and what it contains.\<close>

definition kalloc_page :: "'m ext \<Rightarrow> 'm kernel \<Rightarrow> u64 \<times> 'm kernel" where
  "kalloc_page E k = (case kalloc E (mach k) of ((a, contents), m) \<Rightarrow>
     (a, k\<lparr>mach := m, tframes := (if a = 0 then tframes k else (tframes k)(a := contents))\<rparr>))"

text \<open>The trap frame that a process points to.\<close>

definition tf_get :: "(trapframe \<Rightarrow> 'a) \<Rightarrow> ptr \<Rightarrow> 'm kernel \<Rightarrow> 'a kres" where
  "tf_get f p k = kbind (pget proc.trapframe p k) (\<lambda>a.
     if a = 0 then err Null_deref else ret (f (tframes k a)))"

definition tf_set :: "(trapframe \<Rightarrow> trapframe) \<Rightarrow> ptr \<Rightarrow> 'm kernel \<Rightarrow> 'm kernel kres" where
  "tf_set u p k = kbind (pget proc.trapframe p k) (\<lambda>a.
     if a = 0 then err Null_deref
     else ret (k\<lparr>tframes := (tframes k)(a := u (tframes k a))\<rparr>))"

section \<open>Locks\<close>

definition acquire :: "'m ext \<Rightarrow> lock \<Rightarrow> 'm kernel \<Rightarrow> 'm kernel kres" where
  "acquire E l k = kbind (acquire_cpu E l (calls k) (mycpu k)) (\<lambda>c.
     ret (set_mycpu (\<lambda>_. c) (k\<lparr>calls := calls k @ [Acquire l]\<rparr>)))"

definition release :: "'m ext \<Rightarrow> lock \<Rightarrow> 'm kernel \<Rightarrow> 'm kernel kres" where
  "release E l k = kbind (release_cpu E l (calls k) (mycpu k)) (\<lambda>c.
     ret (set_mycpu (\<lambda>_. c) (k\<lparr>calls := calls k @ [Release l]\<rparr>)))"

text \<open>\<open>insertProcess\<close> and \<open>retrieveProcess\<close> with the tree lock they take.\<close>

definition insert_ready :: "'m ext \<Rightarrow> ptr \<Rightarrow> 'm kernel \<Rightarrow> 'm kernel kres" where
  "insert_ready E p k =
     kbind (acquire E Tree_lock k) (\<lambda>k.
     kbind (insertProcess (NPROC E) p (rb k)) (\<lambda>s.
     release E Tree_lock (k\<lparr>rb := s\<rparr>)))"

definition retrieve_ready :: "'m ext \<Rightarrow> 'm kernel \<Rightarrow> (ptr \<times> 'm kernel) kres" where
  "retrieve_ready E k =
     kbind (acquire E Tree_lock k) (\<lambda>k.
     kbind (retrieveProcess (NPROC E) (rb k)) (\<lambda>(p, s).
     kbind (release E Tree_lock (k\<lparr>rb := s\<rparr>)) (\<lambda>k.
     ret (p, k))))"

text \<open>The lock of a process, through a pointer to it.\<close>

definition acquire_p :: "'m ext \<Rightarrow> ptr \<Rightarrow> 'm kernel \<Rightarrow> 'm kernel kres" where
  "acquire_p E p k = (case p of None \<Rightarrow> err Null_deref | Some i \<Rightarrow> acquire E (Proc_lock i) k)"

definition release_p :: "'m ext \<Rightarrow> ptr \<Rightarrow> 'm kernel \<Rightarrow> 'm kernel kres" where
  "release_p E p k = (case p of None \<Rightarrow> err Null_deref | Some i \<Rightarrow> release E (Proc_lock i) k)"

section \<open>What the spin locks promise\<close>

text \<open>The locks that a sequence of calls leaves held, the most recent one first.\<close>

fun held :: "event list \<Rightarrow> lock list \<Rightarrow> lock list" where
  "held [] ls = ls"
| "held (Acquire l # es) ls = held es (l # ls)"
| "held (Release l # es) ls = held es (remove1 l ls)"

definition locks :: "'m kernel \<Rightarrow> lock list" where
  "locks k = held (calls k) []"

text \<open>
  The documented behaviour of \<open>spinlock.c\<close>: taking a lock this CPU does not hold returns, with
  one more level of disabled interrupts in \<open>noff\<close>; giving back a held lock returns with one
  level less; \<open>holding\<close> tells whether this CPU holds the lock.
\<close>

definition spin_ok :: "'m ext \<Rightarrow> bool" where
  "spin_ok E \<longleftrightarrow> (\<exists>ia ir. \<forall>l tr c.
     (l \<notin> set (held tr []) \<longrightarrow>
        acquire_cpu E l tr c = ret (c\<lparr>noff := noff c + 1, intena := ia tr c\<rparr>)) \<and>
     (l \<in> set (held tr []) \<longrightarrow>
        release_cpu E l tr c = ret (c\<lparr>noff := noff c - 1, intena := ir tr c\<rparr>)) \<and>
     (holding E l tr \<longleftrightarrow> l \<in> set (held tr [])))"

end
