(* ===== verification/Proc_Table.thy ===== *)
theory Proc_Table
  imports Kernel
begin

text \<open>
  The process table operations of \<open>proc.c\<close>, each in the order of the source: allocation and
  release of table entries, \<open>fork\<close>, \<open>exit\<close>, \<open>wait\<close>, \<open>sched\<close>, \<open>yield\<close>, \<open>sleep\<close>, \<open>wakeup\<close> and
  \<open>kill\<close>. A loop \<open>for (p = proc; p < &proc[NPROC]; p++)\<close> is a recursion over the list of the
  indices still to visit. \<open>swtch\<close> gives the CPU away: the function that stands for it takes
  the state at the switch to the state in which the process runs again, whatever other
  processes did in between; if it never runs again, the outcome is \<open>hang\<close>.
\<close>

unbundle bit_operations_syntax

section \<open>Set-up\<close>

primrec proc_mapstacks :: "'m ext \<Rightarrow> u64 \<Rightarrow> nat list \<Rightarrow> 'm kernel \<Rightarrow> 'm kernel kres" where
  "proc_mapstacks E kpgtbl [] k = ret k"
| "proc_mapstacks E kpgtbl (i # is) k =
     (let (pa, k) = kalloc_page E k in
      if pa = 0 then err (Panic ''kalloc'')
      else proc_mapstacks E kpgtbl is
        (mdo (kvmmap E kpgtbl (KSTACK E i) pa (PGSIZE E) (PTE_R E OR PTE_W E)) k))"

primrec init_procs :: "'m ext \<Rightarrow> nat list \<Rightarrow> 'm kernel \<Rightarrow> 'm kernel kres" where
  "init_procs E [] k = ret k"
| "init_procs E (i # is) k =
     kbind (pset (\<lambda>r. r\<lparr>state := UNUSED, kstack := KSTACK E i\<rparr>) (Some i) k) (init_procs E is)"

definition procinit :: "'m ext \<Rightarrow> 'm kernel \<Rightarrow> 'm kernel kres" where
  "procinit E k = init_procs E [0..<NPROC E] (k\<lparr>rb := rbinit (NPROC E) (rb k)\<rparr>)"

section \<open>Allocation and release of entries\<close>

definition allocpid :: "'m ext \<Rightarrow> 'm kernel \<Rightarrow> (int \<times> 'm kernel) kres" where
  "allocpid E k =
     kbind (acquire E Pid_lock k) (\<lambda>k.
     let pid = nextpid k; k = k\<lparr>nextpid := i32 (nextpid k + 1)\<rparr> in
     kbind (release E Pid_lock k) (\<lambda>k. ret (pid, k)))"

definition proc_pagetable :: "'m ext \<Rightarrow> ptr \<Rightarrow> 'm kernel \<Rightarrow> (u64 \<times> 'm kernel) kres" where
  "proc_pagetable E p k =
     (let (pt, k) = mcall (uvmcreate E) k in
      if pt = 0 then ret (0, k)
      else
        let (r, k) = mcall (mappages E pt (TRAMPOLINE E) (PGSIZE E) (trampoline E)
                       (PTE_R E OR PTE_X E)) k in
        if r < 0 then ret (0, mdo (uvmfree E pt 0) k)
        else kbind (pget proc.trapframe p k) (\<lambda>tf.
          let (r, k) = mcall (mappages E pt (TRAPFRAME E) (PGSIZE E) tf (PTE_R E OR PTE_W E)) k in
          if r < 0 then
            ret (0, mdo (uvmfree E pt 0) (mdo (uvmunmap E pt (TRAMPOLINE E) 1 False) k))
          else ret (pt, k)))"

definition proc_freepagetable :: "'m ext \<Rightarrow> u64 \<Rightarrow> u64 \<Rightarrow> 'm kernel \<Rightarrow> 'm kernel" where
  "proc_freepagetable E pt nbytes k =
     mdo (uvmfree E pt nbytes) (mdo (uvmunmap E pt (TRAPFRAME E) 1 False)
       (mdo (uvmunmap E pt (TRAMPOLINE E) 1 False) k))"

definition freeproc :: "'m ext \<Rightarrow> ptr \<Rightarrow> 'm kernel \<Rightarrow> 'm kernel kres" where
  "freeproc E p k =
     kbind (pget proc.trapframe p k) (\<lambda>tf.
     let k = (if tf \<noteq> 0 then mdo (kfree E tf) k else k) in
     kbind (pset (proc.trapframe_update (\<lambda>_. 0)) p k) (\<lambda>k.
     kbind (pget pagetable p k) (\<lambda>pt.
     kbind (pget sz p k) (\<lambda>nbytes.
     let k = (if pt \<noteq> 0 then proc_freepagetable E pt nbytes k else k) in
     pset (\<lambda>r. r\<lparr>pagetable := 0, sz := 0, pid := 0, parent := None, name := [],
       chan := None, killed := 0, xstate := 0, state := UNUSED\<rparr>) p k))))"

primrec find_unused :: "'m ext \<Rightarrow> nat list \<Rightarrow> 'm kernel \<Rightarrow> (ptr \<times> 'm kernel) kres" where
  "find_unused E [] k = ret (None, k)"
| "find_unused E (i # is) k =
     kbind (acquire E (Proc_lock i) k) (\<lambda>k.
     kbind (pget state (Some i) k) (\<lambda>st.
     if st = UNUSED then ret (Some i, k)
     else kbind (release E (Proc_lock i) k) (find_unused E is)))"

definition alloc_found :: "'m ext \<Rightarrow> ptr \<Rightarrow> 'm kernel \<Rightarrow> (ptr \<times> 'm kernel) kres" where
  "alloc_found E p k =
     kbind (allocpid E k) (\<lambda>(n, k).
     kbind (pset (\<lambda>r. r\<lparr>pid := n, state := USED\<rparr>) p k) (\<lambda>k.
     let (page, k) = kalloc_page E k in
     kbind (pset (proc.trapframe_update (\<lambda>_. page)) p k) (\<lambda>k.
     if page = 0 then
       kbind (freeproc E p k) (\<lambda>k. kbind (release_p E p k) (\<lambda>k. ret (None, k)))
     else
       kbind (proc_pagetable E p k) (\<lambda>(pt, k).
       kbind (pset (pagetable_update (\<lambda>_. pt)) p k) (\<lambda>k.
       if pt = 0 then
         kbind (freeproc E p k) (\<lambda>k. kbind (release_p E p k) (\<lambda>k. ret (None, k)))
       else
         kbind (pset (\<lambda>r. r\<lparr>ctxt := zero_context\<lparr>cx_ra := forkret_addr E,
             cx_sp := kstack r + PGSIZE E\<rparr>, virtualRuntime := 0, currentRuntime := 0,
             maxExecutionTime := 0, niceVal := 0, left := None, right := None,
             pParent := None\<rparr>) p k) (\<lambda>k.
         ret (p, k)))))))"

definition allocproc :: "'m ext \<Rightarrow> 'm kernel \<Rightarrow> (ptr \<times> 'm kernel) kres" where
  "allocproc E k =
     kbind (find_unused E [0..<NPROC E] k) (\<lambda>(p, k).
     if p = None then ret (None, k) else alloc_found E p k)"

definition initcode :: "8 word list" where
  "initcode =
    [0x17, 0x05, 0x00, 0x00, 0x13, 0x05, 0x45, 0x02,
     0x97, 0x05, 0x00, 0x00, 0x93, 0x85, 0x35, 0x02,
     0x93, 0x08, 0x70, 0x00, 0x73, 0x00, 0x00, 0x00,
     0x93, 0x08, 0x20, 0x00, 0x73, 0x00, 0x00, 0x00,
     0xef, 0xf0, 0x9f, 0xff, 0x2f, 0x69, 0x6e, 0x69,
     0x74, 0x00, 0x00, 0x24, 0x00, 0x00, 0x00, 0x00,
     0x00, 0x00, 0x00, 0x00]"

definition userinit :: "'m ext \<Rightarrow> 'm kernel \<Rightarrow> 'm kernel kres" where
  "userinit E k =
     kbind (allocproc E k) (\<lambda>(p, k).
     let k = k\<lparr>initproc := p\<rparr> in
     kbind (pget pagetable p k) (\<lambda>pt.
     let k = mdo (uvmfirst E pt initcode) k in
     kbind (pset (sz_update (\<lambda>_. PGSIZE E)) p k) (\<lambda>k.
     kbind (tf_set (epc_update (\<lambda>_. 0)) p k) (\<lambda>k.
     kbind (tf_set (tf_sp_update (\<lambda>_. PGSIZE E)) p k) (\<lambda>k.
     kbind (pset (name_update (\<lambda>_. safestrcpy E ''initcode'' 16)) p k) (\<lambda>k.
     kbind (namei E ''/'' k) (\<lambda>(ip, k).
     kbind (pset (\<lambda>r. r\<lparr>cwd := ip, state := RUNNABLE\<rparr>) p k) (\<lambda>k.
     kbind (insert_ready E p k) (\<lambda>k.
     release_p E p k)))))))))"

definition growproc :: "'m ext \<Rightarrow> int \<Rightarrow> 'm kernel \<Rightarrow> (int \<times> 'm kernel) kres" where
  "growproc E n k =
     (let p = myproc k in
      kbind (pget sz p k) (\<lambda>nbytes.
      kbind (pget pagetable p k) (\<lambda>pt.
      if n > 0 then
        let (nbytes', k) = mcall (uvmalloc E pt nbytes (nbytes + word_of_int n) (PTE_W E)) k in
        if nbytes' = 0 then ret (-1, k)
        else kbind (pset (sz_update (\<lambda>_. nbytes')) p k) (\<lambda>k. ret (0, k))
      else if n < 0 then
        let (nbytes', k) = mcall (uvmdealloc E pt nbytes (nbytes + word_of_int n)) k in
        kbind (pset (sz_update (\<lambda>_. nbytes')) p k) (\<lambda>k. ret (0, k))
      else kbind (pset (sz_update (\<lambda>_. nbytes)) p k) (\<lambda>k. ret (0, k)))))"

section \<open>Fork\<close>

primrec dup_files :: "'m ext \<Rightarrow> ptr \<Rightarrow> ptr \<Rightarrow> nat list \<Rightarrow> 'm kernel \<Rightarrow> 'm kernel kres" where
  "dup_files E p np [] k = ret k"
| "dup_files E p np (fd # fds) k =
     kbind (pget ofile p k) (\<lambda>files.
     if files ! fd \<noteq> 0 then
       let (f, k) = mcall (filedup E (files ! fd)) k in
       kbind (pset (ofile_update (\<lambda>l. l[fd := f])) np k) (dup_files E p np fds)
     else dup_files E p np fds k)"

text \<open>
  \<open>fork\<close> in three parts: the copy of the parent into the child, while the child's lock is
  held; the publication of the child, under \<open>wait_lock\<close>, under the child's lock and in the ready
  tree; and the allocation and the copy of the user memory before both.
\<close>

definition fork_copy :: "'m ext \<Rightarrow> ptr \<Rightarrow> ptr \<Rightarrow> 'm kernel \<Rightarrow> (int \<times> 'm kernel) kres" where
  "fork_copy E p np k =
     kbind (pget sz p k) (\<lambda>nbytes.
     kbind (pset (sz_update (\<lambda>_. nbytes)) np k) (\<lambda>k.
     kbind (tf_get id p k) (\<lambda>tf.
     kbind (tf_set (\<lambda>_. tf) np k) (\<lambda>k.
     kbind (tf_set (tf_a0_update (\<lambda>_. 0)) np k) (\<lambda>k.
     kbind (dup_files E p np [0..<NOFILE E] k) (\<lambda>k.
     kbind (pget cwd p k) (\<lambda>dir.
     let (ip, k) = mcall (idup E dir) k in
     kbind (pset (cwd_update (\<lambda>_. ip)) np k) (\<lambda>k.
     kbind (pget name p k) (\<lambda>nm.
     kbind (pset (name_update (\<lambda>_. safestrcpy E nm 16)) np k) (\<lambda>k.
     kbind (pget pid np k) (\<lambda>n.
     ret (n, k))))))))))))"

definition fork_publish :: "'m ext \<Rightarrow> ptr \<Rightarrow> ptr \<Rightarrow> 'm kernel \<Rightarrow> 'm kernel kres" where
  "fork_publish E p np k =
     kbind (release_p E np k) (\<lambda>k.
     kbind (acquire E Wait_lock k) (\<lambda>k.
     kbind (pset (parent_update (\<lambda>_. p)) np k) (\<lambda>k.
     kbind (release E Wait_lock k) (\<lambda>k.
     kbind (acquire_p E np k) (\<lambda>k.
     kbind (pset (state_update (\<lambda>_. RUNNABLE)) np k) (\<lambda>k.
     kbind (release_p E np k) (\<lambda>k.
     insert_ready E np k)))))))"

definition fork :: "'m ext \<Rightarrow> 'm kernel \<Rightarrow> (int \<times> 'm kernel) kres" where
  "fork E k =
     (let p = myproc k in
      kbind (allocproc E k) (\<lambda>(np, k).
      if np = None then ret (- 1, k)
      else
        kbind (pget pagetable p k) (\<lambda>pt.
        kbind (pget pagetable np k) (\<lambda>npt.
        kbind (pget sz p k) (\<lambda>nbytes.
        let (r, k) = mcall (uvmcopy E pt npt nbytes) k in
        if r < 0 then
          kbind (freeproc E np k) (\<lambda>k. kbind (release_p E np k) (\<lambda>k. ret (- 1, k)))
        else
          kbind (fork_copy E p np k) (\<lambda>(n, k).
          kbind (fork_publish E p np k) (\<lambda>k.
          ret (n, k))))))))"

section \<open>Giving up the CPU\<close>

definition sched :: "'m ext \<Rightarrow> 'm kernel \<Rightarrow> 'm kernel kres" where
  "sched E k =
     (case myproc k of None \<Rightarrow> err Null_deref
      | Some i \<Rightarrow>
        if \<not> holding E (Proc_lock i) (calls k) then err (Panic ''sched p->lock'')
        else if noff (mycpu k) \<noteq> 1 then err (Panic ''sched locks'')
        else if state (procs (rb k) i) = RUNNING then err (Panic ''sched running'')
        else if intr_get E k then err (Panic ''sched interruptible'')
        else
          let ia = intena (mycpu k) in
          kbind (swtch E (Ctx_proc i) (Ctx_cpu (cpuid k)) k) (\<lambda>k.
          ret (set_mycpu (intena_update (\<lambda>_. ia)) k)))"

text \<open>
  The assignments that \<open>yield\<close>, \<open>wakeup\<close> and \<open>kill\<close> make before they queue a process.
\<close>

definition make_runnable :: "proc \<Rightarrow> proc" where
  "make_runnable r = r\<lparr>state := RUNNABLE,
     virtualRuntime := i32 (virtualRuntime r + currentRuntime r), currentRuntime := 0\<rparr>"

definition yield :: "'m ext \<Rightarrow> 'm kernel \<Rightarrow> 'm kernel kres" where
  "yield E k =
     (let p = myproc k in
      kbind (acquire_p E p k) (\<lambda>k.
      kbind (checkPreemption p (minvRuntime (procTree (rb k))) (rb k)) (\<lambda>preempt.
      kbind (if preempt then
               kbind (pset make_runnable p k) (\<lambda>k.
               kbind (insert_ready E p k) (sched E))
             else ret k) (\<lambda>k.
      release_p E p k))))"

definition sleep :: "'m ext \<Rightarrow> chan option \<Rightarrow> lock \<Rightarrow> 'm kernel \<Rightarrow> 'm kernel kres" where
  "sleep E ch lk k =
     (let p = myproc k in
      kbind (acquire_p E p k) (\<lambda>k.
      kbind (release E lk k) (\<lambda>k.
      kbind (pset (\<lambda>r. r\<lparr>chan := ch, state := SLEEPING\<rparr>) p k) (\<lambda>k.
      kbind (sched E k) (\<lambda>k.
      kbind (pset (chan_update (\<lambda>_. None)) p k) (\<lambda>k.
      kbind (release_p E p k) (\<lambda>k.
      acquire E lk k)))))))"

primrec wakeup_scan :: "'m ext \<Rightarrow> chan option \<Rightarrow> nat list \<Rightarrow> 'm kernel \<Rightarrow> 'm kernel kres" where
  "wakeup_scan E ch [] k = ret k"
| "wakeup_scan E ch (i # is) k =
     (if Some i \<noteq> myproc k then
        kbind (acquire E (Proc_lock i) k) (\<lambda>k.
        kbind (if state (procs (rb k) i) = SLEEPING \<and> chan (procs (rb k) i) = ch then
                 kbind (pset make_runnable (Some i) k) (insert_ready E (Some i))
               else ret k) (\<lambda>k.
        kbind (release E (Proc_lock i) k) (wakeup_scan E ch is)))
      else wakeup_scan E ch is k)"

definition wakeup :: "'m ext \<Rightarrow> chan option \<Rightarrow> 'm kernel \<Rightarrow> 'm kernel kres" where
  "wakeup E ch k = wakeup_scan E ch [0..<NPROC E] k"

text \<open>A pointer to a process used as a wait channel.\<close>

definition chan_of :: "ptr \<Rightarrow> chan option" where
  "chan_of p = map_option Ch_proc p"

primrec kill_scan :: "'m ext \<Rightarrow> int \<Rightarrow> nat list \<Rightarrow> 'm kernel \<Rightarrow> (int \<times> 'm kernel) kres" where
  "kill_scan E n [] k = ret (-1, k)"
| "kill_scan E n (i # is) k =
     kbind (acquire E (Proc_lock i) k) (\<lambda>k.
     if pid (procs (rb k) i) = n then
       kbind (pset (killed_update (\<lambda>_. 1)) (Some i) k) (\<lambda>k.
       kbind (if state (procs (rb k) i) = SLEEPING then
                kbind (pset make_runnable (Some i) k) (insert_ready E (Some i))
              else ret k) (\<lambda>k.
       kbind (release E (Proc_lock i) k) (\<lambda>k. ret (0, k))))
     else kbind (release E (Proc_lock i) k) (kill_scan E n is))"

definition kill :: "'m ext \<Rightarrow> int \<Rightarrow> 'm kernel \<Rightarrow> (int \<times> 'm kernel) kres" where
  "kill E n k = kill_scan E n [0..<NPROC E] k"

definition setkilled :: "'m ext \<Rightarrow> ptr \<Rightarrow> 'm kernel \<Rightarrow> 'm kernel kres" where
  "setkilled E p k =
     kbind (acquire_p E p k) (\<lambda>k.
     kbind (pset (killed_update (\<lambda>_. 1)) p k) (release_p E p))"

definition is_killed :: "'m ext \<Rightarrow> ptr \<Rightarrow> 'm kernel \<Rightarrow> (int \<times> 'm kernel) kres" where
  "is_killed E p k =
     kbind (acquire_p E p k) (\<lambda>k.
     kbind (pget killed p k) (\<lambda>n.
     kbind (release_p E p k) (\<lambda>k. ret (n, k))))"

section \<open>Exit and wait\<close>

primrec reparent :: "'m ext \<Rightarrow> ptr \<Rightarrow> nat list \<Rightarrow> 'm kernel \<Rightarrow> 'm kernel kres" where
  "reparent E p [] k = ret k"
| "reparent E p (i # is) k =
     kbind (pget parent (Some i) k) (\<lambda>q.
     if q = p then
       kbind (pset (parent_update (\<lambda>_. initproc k)) (Some i) k) (\<lambda>k.
       kbind (wakeup E (chan_of (initproc k)) k) (reparent E p is))
     else reparent E p is k)"

primrec close_files :: "'m ext \<Rightarrow> ptr \<Rightarrow> nat list \<Rightarrow> 'm kernel \<Rightarrow> 'm kernel kres" where
  "close_files E p [] k = ret k"
| "close_files E p (fd # fds) k =
     kbind (pget ofile p k) (\<lambda>files.
     if files ! fd \<noteq> 0 then
       kbind (fileclose E (files ! fd) k) (\<lambda>k.
       kbind (pset (ofile_update (\<lambda>l. l[fd := 0])) p k) (close_files E p fds))
     else close_files E p fds k)"

definition exit :: "'m ext \<Rightarrow> int \<Rightarrow> 'm kernel \<Rightarrow> 'm kernel kres" where
  "exit E status k =
     (let p = myproc k in
      if p = initproc k then err (Panic ''init exiting'')
      else
        kbind (close_files E p [0..<NOFILE E] k) (\<lambda>k.
        kbind (begin_op E k) (\<lambda>k.
        kbind (pget cwd p k) (\<lambda>dir.
        kbind (iput E dir k) (\<lambda>k.
        kbind (end_op E k) (\<lambda>k.
        kbind (pset (cwd_update (\<lambda>_. 0)) p k) (\<lambda>k.
        kbind (acquire E Wait_lock k) (\<lambda>k.
        kbind (reparent E p [0..<NPROC E] k) (\<lambda>k.
        kbind (pget parent p k) (\<lambda>q.
        kbind (wakeup E (chan_of q) k) (\<lambda>k.
        kbind (acquire_p E p k) (\<lambda>k.
        kbind (pset (\<lambda>r. r\<lparr>xstate := status, state := ZOMBIE\<rparr>) p k) (\<lambda>k.
        kbind (release E Wait_lock k) (\<lambda>k.
        kbind (sched E k) (\<lambda>k.
        err (Panic ''zombie exit''))))))))))))))))"

text \<open>The four bytes of a 32-bit integer in memory, least significant first.\<close>

definition int_bytes :: "int \<Rightarrow> 8 word list" where
  "int_bytes n = map (\<lambda>j. word_of_int (n div 256 ^ j)) [0..<4]"

text \<open>
  One scan of \<open>wait\<close> over the table: the result of the call if the scan ends it, whether a
  child was seen, and the state.
\<close>

primrec wait_scan :: "'m ext \<Rightarrow> u64 \<Rightarrow> ptr \<Rightarrow> nat list \<Rightarrow> bool \<Rightarrow> 'm kernel \<Rightarrow>
    (int option \<times> bool \<times> 'm kernel) kres" where
  "wait_scan E addr p [] havekids k = ret (None, havekids, k)"
| "wait_scan E addr p (i # is) havekids k =
     kbind (pget parent (Some i) k) (\<lambda>q.
     if q = p then
       kbind (acquire E (Proc_lock i) k) (\<lambda>k.
       if state (procs (rb k) i) = ZOMBIE then
         let n = pid (procs (rb k) i) in
         kbind (if addr \<noteq> 0 then
                  kbind (pget pagetable p k) (\<lambda>pt.
                  ret (mcall (copyout E pt addr (int_bytes (xstate (procs (rb k) i)))) k))
                else ret (0, k)) (\<lambda>(r, k).
         kbind (if r < 0 then ret k else freeproc E (Some i) k) (\<lambda>k.
         kbind (release E (Proc_lock i) k) (\<lambda>k.
         kbind (release E Wait_lock k) (\<lambda>k.
         ret (Some (if r < 0 then - 1 else n), True, k)))))
       else kbind (release E (Proc_lock i) k) (wait_scan E addr p is True))
     else wait_scan E addr p is havekids k)"

partial_function (option) wait_loop ::
    "'m ext \<Rightarrow> u64 \<Rightarrow> ptr \<Rightarrow> 'm kernel \<Rightarrow> (int \<times> 'm kernel) kres" where
  "wait_loop E addr p k =
     kbind (wait_scan E addr p [0..<NPROC E] False k) (\<lambda>(r, havekids, k).
     if r \<noteq> None then ret (the r, k)
     else
       kbind (if havekids then is_killed E p k else ret (1, k)) (\<lambda>(stop, k).
       if stop \<noteq> 0 then kbind (release E Wait_lock k) (\<lambda>k. ret (- 1, k))
       else kbind (sleep E (chan_of p) Wait_lock k) (\<lambda>k. wait_loop E addr p k)))"

definition wait :: "'m ext \<Rightarrow> u64 \<Rightarrow> 'm kernel \<Rightarrow> (int \<times> 'm kernel) kres" where
  "wait E addr k =
     (let p = myproc k in kbind (acquire E Wait_lock k) (wait_loop E addr p))"

section \<open>Copies to and from either address space\<close>

definition either_copyout :: "'m ext \<Rightarrow> bool \<Rightarrow> u64 \<Rightarrow> 8 word list \<Rightarrow> 'm kernel \<Rightarrow>
    (int \<times> 'm kernel) kres" where
  "either_copyout E user_dst dst src k =
     (let p = myproc k in
      if user_dst then
        kbind (pget pagetable p k) (\<lambda>pt. ret (mcall (copyout E pt dst src) k))
      else ret (0, mdo (store E dst src) k))"

definition either_copyin :: "'m ext \<Rightarrow> bool \<Rightarrow> u64 \<Rightarrow> u64 \<Rightarrow> 'm kernel \<Rightarrow>
    ((int \<times> 8 word list) \<times> 'm kernel) kres" where
  "either_copyin E user_src src len k =
     (let p = myproc k in
      if user_src then
        kbind (pget pagetable p k) (\<lambda>pt. ret (mcall (copyin E pt src len) k))
      else ret ((0, load E src len (mach k)), k))"

end
