(* ===== verification/Kernel_Rules.thy ===== *)
theory Kernel_Rules
  imports Proc_Table
begin

text \<open>
  Evaluation rules for kernel code under the documented behaviour of the spin locks. \<open>acq\<close>
  and \<open>rel\<close> are the states after a lock operation that returns; \<open>stable\<close> relates the states
  before and after code that gives back every lock it took and changes nothing but the process
  table and the ready tree. \<open>table_ok\<close> is the invariant that every operation keeps: the ready
  tree is well formed, holds runnable processes only, and every other process could be queued.
\<close>

named_theorems kernel_simps "evaluation of kernel code"

section \<open>Results of lock operations\<close>

definition acq :: "'m ext \<Rightarrow> lock \<Rightarrow> 'm kernel \<Rightarrow> 'm kernel" where
  "acq E l k = (case acquire E l k of Some (Inr k') \<Rightarrow> k' | _ \<Rightarrow> k)"

definition rel :: "'m ext \<Rightarrow> lock \<Rightarrow> 'm kernel \<Rightarrow> 'm kernel" where
  "rel E l k = (case release E l k of Some (Inr k') \<Rightarrow> k' | _ \<Rightarrow> k)"

lemma held_append [simp]: "held (es @ fs) ls = held fs (held es ls)"
  by (induction es ls rule: held.induct) auto

lemma set_mycpu_simps [simp, kernel_simps]:
  "rb (set_mycpu u k) = rb k" "nextpid (set_mycpu u k) = nextpid k"
  "initproc (set_mycpu u k) = initproc k" "ticks (set_mycpu u k) = ticks k"
  "first (set_mycpu u k) = first k" "tframes (set_mycpu u k) = tframes k"
  "hart (set_mycpu u k) = hart k" "calls (set_mycpu u k) = calls k"
  "mach (set_mycpu u k) = mach k" "cpuid (set_mycpu u k) = cpuid k"
  "mycpu (set_mycpu u k) = u (mycpu k)" "locks (set_mycpu u k) = locks k"
  by (simp_all add: set_mycpu_def cpuid_def mycpu_def locks_def)

lemma kernel_views [simp, kernel_simps]:
  "locks (k\<lparr>rb := s\<rparr>) = locks k" "locks (k\<lparr>mach := m\<rparr>) = locks k"
  "locks (k\<lparr>tframes := t\<rparr>) = locks k" "locks (k\<lparr>nextpid := n\<rparr>) = locks k"
  "locks (k\<lparr>ticks := w\<rparr>) = locks k" "locks (k\<lparr>initproc := p\<rparr>) = locks k"
  "locks (k\<lparr>first := b\<rparr>) = locks k"
  "mycpu (k\<lparr>rb := s\<rparr>) = mycpu k" "mycpu (k\<lparr>mach := m\<rparr>) = mycpu k"
  "mycpu (k\<lparr>tframes := t\<rparr>) = mycpu k" "mycpu (k\<lparr>nextpid := n\<rparr>) = mycpu k"
  "mycpu (k\<lparr>ticks := w\<rparr>) = mycpu k" "mycpu (k\<lparr>initproc := p\<rparr>) = mycpu k"
  "mycpu (k\<lparr>first := b\<rparr>) = mycpu k"
  "myproc (k\<lparr>rb := s\<rparr>) = myproc k" "myproc (k\<lparr>mach := m\<rparr>) = myproc k"
  "myproc (k\<lparr>tframes := t\<rparr>) = myproc k" "myproc (k\<lparr>nextpid := n\<rparr>) = myproc k"
  "myproc (k\<lparr>ticks := w\<rparr>) = myproc k" "myproc (k\<lparr>initproc := p\<rparr>) = myproc k"
  "myproc (k\<lparr>first := b\<rparr>) = myproc k"
  by (simp_all add: locks_def mycpu_def cpuid_def myproc_def)

lemma acq_fields [simp, kernel_simps]:
  "rb (acq E l k) = rb k" "nextpid (acq E l k) = nextpid k" "initproc (acq E l k) = initproc k"
  "ticks (acq E l k) = ticks k" "first (acq E l k) = first k" "tframes (acq E l k) = tframes k"
  "hart (acq E l k) = hart k" "mach (acq E l k) = mach k"
  by (simp_all add: acq_def acquire_def kbind_def ret_def split: option.split sum.split)

lemma rel_fields [simp, kernel_simps]:
  "rb (rel E l k) = rb k" "nextpid (rel E l k) = nextpid k" "initproc (rel E l k) = initproc k"
  "ticks (rel E l k) = ticks k" "first (rel E l k) = first k" "tframes (rel E l k) = tframes k"
  "hart (rel E l k) = hart k" "mach (rel E l k) = mach k"
  by (simp_all add: rel_def release_def kbind_def ret_def split: option.split sum.split)

lemma acquire_ok:
  assumes "spin_ok E" "l \<notin> set (locks k)"
  shows "acquire E l k = ret (acq E l k)" "locks (acq E l k) = l # locks k"
    "noff (mycpu (acq E l k)) = noff (mycpu k) + 1" "myproc (acq E l k) = myproc k"
    "cpu_proc (cpus (acq E l k) h) = cpu_proc (cpus k h)"
    "cpu_context (cpus (acq E l k) h) = cpu_context (cpus k h)"
    "h \<noteq> hart k \<Longrightarrow> cpus (acq E l k) h = cpus k h"
proof -
  from assms obtain ia where "acquire_cpu E l (calls k) (mycpu k) =
      ret ((mycpu k)\<lparr>noff := noff (mycpu k) + 1, intena := ia (calls k) (mycpu k)\<rparr>)"
    unfolding spin_ok_def locks_def by meson
  then have a: "acquire E l k = ret (set_mycpu
      (\<lambda>_. (mycpu k)\<lparr>noff := noff (mycpu k) + 1, intena := ia (calls k) (mycpu k)\<rparr>)
      (k\<lparr>calls := calls k @ [Acquire l]\<rparr>))"
    by (simp add: acquire_def)
  then have b: "acq E l k = set_mycpu
      (\<lambda>_. (mycpu k)\<lparr>noff := noff (mycpu k) + 1, intena := ia (calls k) (mycpu k)\<rparr>)
      (k\<lparr>calls := calls k @ [Acquire l]\<rparr>)"
    by (simp add: acq_def ret_def)
  show "acquire E l k = ret (acq E l k)" using a b by simp
  show "locks (acq E l k) = l # locks k" unfolding b by (simp add: locks_def)
  show "noff (mycpu (acq E l k)) = noff (mycpu k) + 1" unfolding b by simp
  show "myproc (acq E l k) = myproc k" unfolding b by (simp add: myproc_def)
  show "cpu_proc (cpus (acq E l k) h) = cpu_proc (cpus k h)"
    "cpu_context (cpus (acq E l k) h) = cpu_context (cpus k h)"
    "h \<noteq> hart k \<Longrightarrow> cpus (acq E l k) h = cpus k h"
    unfolding b by (simp_all add: set_mycpu_def mycpu_def cpuid_def)
qed

lemma release_ok:
  assumes "spin_ok E" "l \<in> set (locks k)"
  shows "release E l k = ret (rel E l k)" "locks (rel E l k) = remove1 l (locks k)"
    "noff (mycpu (rel E l k)) = noff (mycpu k) - 1" "myproc (rel E l k) = myproc k"
    "cpu_proc (cpus (rel E l k) h) = cpu_proc (cpus k h)"
    "cpu_context (cpus (rel E l k) h) = cpu_context (cpus k h)"
    "h \<noteq> hart k \<Longrightarrow> cpus (rel E l k) h = cpus k h"
proof -
  from assms obtain ir where "release_cpu E l (calls k) (mycpu k) =
      ret ((mycpu k)\<lparr>noff := noff (mycpu k) - 1, intena := ir (calls k) (mycpu k)\<rparr>)"
    unfolding spin_ok_def locks_def by meson
  then have a: "release E l k = ret (set_mycpu
      (\<lambda>_. (mycpu k)\<lparr>noff := noff (mycpu k) - 1, intena := ir (calls k) (mycpu k)\<rparr>)
      (k\<lparr>calls := calls k @ [Release l]\<rparr>))"
    by (simp add: release_def)
  then have b: "rel E l k = set_mycpu
      (\<lambda>_. (mycpu k)\<lparr>noff := noff (mycpu k) - 1, intena := ir (calls k) (mycpu k)\<rparr>)
      (k\<lparr>calls := calls k @ [Release l]\<rparr>)"
    by (simp add: rel_def ret_def)
  show "release E l k = ret (rel E l k)" using a b by simp
  show "locks (rel E l k) = remove1 l (locks k)" unfolding b by (simp add: locks_def)
  show "noff (mycpu (rel E l k)) = noff (mycpu k) - 1" unfolding b by simp
  show "myproc (rel E l k) = myproc k" unfolding b by (simp add: myproc_def)
  show "cpu_proc (cpus (rel E l k) h) = cpu_proc (cpus k h)"
    "cpu_context (cpus (rel E l k) h) = cpu_context (cpus k h)"
    "h \<noteq> hart k \<Longrightarrow> cpus (rel E l k) h = cpus k h"
    unfolding b by (simp_all add: set_mycpu_def mycpu_def cpuid_def)
qed

lemma acquire_calls:
  assumes "acquire E l k = ret k'"
  shows "calls k' = calls k @ [Acquire l]" "locks k' = l # locks k" "rb k' = rb k"
  using assms by (auto simp: acquire_def kbind_eq_ret locks_def)

lemma release_calls:
  assumes "release E l k = ret k'"
  shows "calls k' = calls k @ [Release l]" "locks k' = remove1 l (locks k)" "rb k' = rb k"
  using assms by (auto simp: release_def kbind_eq_ret locks_def)

lemma holding_ok: "spin_ok E \<Longrightarrow> holding E l (calls k) \<longleftrightarrow> l \<in> set (locks k)"
  by (auto simp: spin_ok_def locks_def)

section \<open>Code that leaves everything but the process table as it was\<close>

definition stable :: "'m kernel \<Rightarrow> 'm kernel \<Rightarrow> bool" where
  "stable k k' \<longleftrightarrow> locks k' = locks k \<and> noff (mycpu k') = noff (mycpu k) \<and>
     (\<forall>h. cpu_proc (cpus k' h) = cpu_proc (cpus k h) \<and>
          cpu_context (cpus k' h) = cpu_context (cpus k h)) \<and>
     (\<forall>h. h \<noteq> hart k \<longrightarrow> cpus k' h = cpus k h) \<and>
     nextpid k' = nextpid k \<and> initproc k' = initproc k \<and> ticks k' = ticks k \<and>
     first k' = first k \<and> tframes k' = tframes k \<and> hart k' = hart k \<and> mach k' = mach k"

lemma stable_refl [simp, intro]: "stable k k"
  by (simp add: stable_def)

lemma stable_trans [trans]: "stable k k' \<Longrightarrow> stable k' k'' \<Longrightarrow> stable k k''"
  by (simp add: stable_def)

lemma stable_views:
  assumes "stable k k'"
  shows "locks k' = locks k" "noff (mycpu k') = noff (mycpu k)" "myproc k' = myproc k"
    "nextpid k' = nextpid k" "initproc k' = initproc k" "ticks k' = ticks k" "first k' = first k"
    "tframes k' = tframes k" "hart k' = hart k" "mach k' = mach k"
  using assms by (auto simp: stable_def myproc_def mycpu_def cpuid_def)

lemma stable_rb [simp]: "stable k (k'\<lparr>rb := s\<rparr>) = stable k k'"
  "stable (k\<lparr>rb := s\<rparr>) k' = stable k k'"
  by (auto simp: stable_def)

text \<open>A critical section: lock, code that is itself stable, unlock.\<close>

lemma stable_section:
  assumes "spin_ok E" "l \<notin> set (locks k)" "stable (acq E l k) k'"
  shows "release E l k' = ret (rel E l k')" "stable k (rel E l k')"
proof -
  note a = acquire_ok [OF assms(1,2)]
  have l: "locks k' = l # locks k" using assms(3) a by (simp add: stable_def)
  then have m: "l \<in> set (locks k')" by simp
  note r = release_ok [OF assms(1) m]
  show "release E l k' = ret (rel E l k')" by (rule r)
  have h: "hart k' = hart k" using assms(3) by (simp add: stable_def)
  show "stable k (rel E l k')"
    using assms(3) a r l h unfolding stable_def by auto
qed

section \<open>Access to the process table\<close>

lemma pget_simps [simp, kernel_simps]:
  "pget f None k = err Null_deref" "pget f (Some i) k = ret (f (procs (rb k) i))"
  by (simp_all add: pget_def)

definition put :: "(proc \<Rightarrow> proc) \<Rightarrow> nat \<Rightarrow> 'm kernel \<Rightarrow> 'm kernel" where
  "put u i k = k\<lparr>rb := (rb k)\<lparr>procs := (procs (rb k))(i := u (procs (rb k) i))\<rparr>\<rparr>"

lemma pset_simps [simp, kernel_simps]:
  "pset u None k = err Null_deref" "pset u (Some i) k = ret (put u i k)"
  by (simp_all add: pset_def put_def)

lemma put_simps [simp, kernel_simps]:
  "procs (rb (put u i k)) = (procs (rb k))(i := u (procs (rb k) i))"
  "procTree (rb (put u i k)) = procTree (rb k)" "locks (put u i k) = locks k"
  "mycpu (put u i k) = mycpu k" "myproc (put u i k) = myproc k" "nextpid (put u i k) = nextpid k"
  "initproc (put u i k) = initproc k" "ticks (put u i k) = ticks k" "first (put u i k) = first k"
  "tframes (put u i k) = tframes k" "hart (put u i k) = hart k" "calls (put u i k) = calls k"
  "mach (put u i k) = mach k" "cpus (put u i k) = cpus k"
  by (simp_all add: put_def)

lemma stable_put [simp]: "stable k (put u i k') = stable k k'"
  by (simp add: put_def)

lemma mcall_eq: "mcall f k = (fst (f (mach k)), k\<lparr>mach := snd (f (mach k))\<rparr>)"
  by (simp add: mcall_def split: prod.split)

lemma mdo_simps [simp]:
  "rb (mdo f k) = rb k" "locks (mdo f k) = locks k" "mycpu (mdo f k) = mycpu k"
  "myproc (mdo f k) = myproc k" "nextpid (mdo f k) = nextpid k" "initproc (mdo f k) = initproc k"
  "ticks (mdo f k) = ticks k" "first (mdo f k) = first k" "tframes (mdo f k) = tframes k"
  "hart (mdo f k) = hart k" "calls (mdo f k) = calls k" "mach (mdo f k) = f (mach k)"
  "cpus (mdo f k) = cpus k"
  by (simp_all add: mdo_def)

section \<open>The process table invariant\<close>

definition table_ok :: "'m ext \<Rightarrow> 'm kernel \<Rightarrow> nat list \<Rightarrow> bool" where
  "table_ok E k q \<longleftrightarrow> queued (NPROC E) (rb k) q \<and> (\<forall>i \<in> set q. runnable (rb k) i) \<and>
     (\<forall>i < NPROC E. i \<notin> set q \<longrightarrow> insertable (NPROC E) (rb k) i)"

lemma table_ok_rb: "rb k' = rb k \<Longrightarrow> table_ok E k' q = table_ok E k q"
  by (simp add: table_ok_def)

lemma table_ok_queue:
  assumes "table_ok E k q"
  shows "ready (NPROC E) (rb k) q" "queued (NPROC E) (rb k) q" "distinct q"
    "i \<in> set q \<Longrightarrow> state (procs (rb k) i) = RUNNABLE" "i \<in> set q \<Longrightarrow> i < NPROC E"
    "i < NPROC E \<Longrightarrow> i \<notin> set q \<Longrightarrow> insertable (NPROC E) (rb k) i"
    "i < NPROC E \<Longrightarrow> niceVal (procs (rb k) i) \<le> 0"
proof -
  show "i < NPROC E \<Longrightarrow> niceVal (procs (rb k) i) \<le> 0"
    using assms by (cases "i \<in> set q") (auto simp: table_ok_def queued_def insertable_def)
qed (use assms ready_distinct in \<open>auto simp: table_ok_def queued_def runnable_def ready_def\<close>)

text \<open>Changing a process that is not queued, links and nice value apart.\<close>

lemma table_ok_put:
  assumes t: "table_ok E k q" and i: "i \<notin> set q"
    and u: "i < NPROC E \<Longrightarrow> left (u (procs (rb k) i)) = None \<and> right (u (procs (rb k) i)) = None \<and>
      niceVal (u (procs (rb k) i)) \<le> 0"
  shows "table_ok E (put u i k) q"
proof -
  have "ready (NPROC E) (rb (put u i k)) q"
    by (rule ready_cong [OF table_ok_queue(1) [OF t]]) (use i in auto)
  then show ?thesis
    using t i u unfolding table_ok_def queued_def runnable_def insertable_def by auto
qed

text \<open>Changing a queued process so that neither its place nor its state is touched.\<close>

lemma table_ok_put_same:
  assumes t: "table_ok E k q"
    and u: "links (u (procs (rb k) i)) = links (procs (rb k) i)"
      "virtualRuntime (u (procs (rb k) i)) = virtualRuntime (procs (rb k) i)"
      "weightVal (u (procs (rb k) i)) = weightVal (procs (rb k) i)"
      "niceVal (u (procs (rb k) i)) = niceVal (procs (rb k) i)"
      "state (u (procs (rb k) i)) = state (procs (rb k) i)"
  shows "table_ok E (put u i k) q"
proof -
  have "ready (NPROC E) (rb (put u i k)) q"
    by (rule ready_cong [OF table_ok_queue(1) [OF t]]) (use u in auto)
  moreover have "left (u (procs (rb k) i)) = left (procs (rb k) i)"
    "right (u (procs (rb k) i)) = right (procs (rb k) i)"
    using u(1) by (simp_all add: links_def)
  ultimately show ?thesis
    using t u unfolding table_ok_def queued_def runnable_def insertable_def by auto
qed

section \<open>Queueing a process\<close>

definition queue_in :: "'m kernel \<Rightarrow> nat \<Rightarrow> nat list \<Rightarrow> nat list" where
  "queue_in k p q = insort_after (\<lambda>i. virtualRuntime (procs (rb k) i)) p q"

lemma queue_in_set [simp]: "set (queue_in k p q) = insert p (set q)"
  by (simp add: queue_in_def)

lemma insert_ready_ok:
  assumes E: "spin_ok E" and l: "Tree_lock \<notin> set (locks k)"
    and t: "table_ok E k q" and p: "p < NPROC E" "p \<notin> set q" "state (procs (rb k) p) = RUNNABLE"
  shows "\<exists>k'. insert_ready E (Some p) k = ret k' \<and> stable k k' \<and>
    table_ok E k' (queue_in k p q) \<and> tree_frame (insert p (set q)) (rb k) (rb k')"
proof -
  have ip: "insertable (NPROC E) (rb k) p" using table_ok_queue(6) [OF t] p by simp
  obtain s' where s': "insertProcess (NPROC E) (Some p) (rb k) = ret s'"
    "ready (NPROC E) s' (insort_after (vr (rb k)) p q)" "tree_frame (insert p (set q)) (rb k) s'"
    using insertProcess_ready [of "NPROC E" "rb k" q p] table_ok_queue(2) [OF t] ip p(2)
    by (auto simp: queued_def insertable_def)
  define k1 where "k1 = (acq E Tree_lock k)\<lparr>rb := s'\<rparr>"
  have "stable (acq E Tree_lock k) k1" by (simp add: k1_def)
  note sec = stable_section [OF E l this]
  have r: "insert_ready E (Some p) k = ret (rel E Tree_lock k1)"
    using acquire_ok(1) [OF E l] s'(1) sec(1) by (simp add: insert_ready_def k1_def)
  have rb: "rb (rel E Tree_lock k1) = s'" by (simp add: k1_def)
  have "table_ok E (rel E Tree_lock k1) (queue_in k p q)"
    using t s' p(3) ip tree_frame_fields [OF s'(3)] tree_frame_insertable [OF s'(3)]
    unfolding table_ok_def rb queue_in_def by (auto simp: queued_def runnable_def insertable_def)
  with r sec(2) s'(3) rb show ?thesis by metis
qed

end
