(* ===== verification/Wakeups.thy ===== *)
theory Wakeups
  imports Kernel_Rules
begin

text \<open>
  The operations of \<open>proc.c\<close> that make processes runnable or give up the CPU: \<open>wakeup\<close>, \<open>kill\<close>,
  \<open>yield\<close>, \<open>sleep\<close> and \<open>sched\<close>. \<open>wakes A\<close> says which processes became runnable; apart from
  their tree links no other process changes.
\<close>

section \<open>Making processes runnable\<close>

definition wakes :: "nat set \<Rightarrow> 'm kernel \<Rightarrow> 'm kernel \<Rightarrow> bool" where
  "wakes A k k' \<longleftrightarrow> (\<forall>j. redata
     (if j \<in> A then make_runnable (procs (rb k) j) else procs (rb k) j) (procs (rb k') j))"

lemma wakes_refl [simp]: "wakes {} k k"
  by (simp add: wakes_def)

lemma table_ok_views [simp]:
  "table_ok E (acq F l k) q = table_ok E k q" "table_ok E (rel F l k) q = table_ok E k q"
  "table_ok E (mdo f k) q = table_ok E k q" "table_ok E (set_mycpu u k) q = table_ok E k q"
  by (simp_all add: table_ok_def)

lemma wakes_cong: "rb k1 = rb k2 \<Longrightarrow> wakes A k1 k' = wakes A k2 k'"
  "rb k1 = rb k2 \<Longrightarrow> wakes A k k1 = wakes A k k2"
  by (simp_all add: wakes_def)

lemma wakes_views [simp]:
  "wakes A (acq E l k) k' = wakes A k k'" "wakes A k (acq E l k') = wakes A k k'"
  "wakes A (rel E l k) k' = wakes A k k'" "wakes A k (rel E l k') = wakes A k k'"
  "wakes A (put u i (acq E l k)) k' = wakes A (put u i k) k'"
  "wakes A (put u i (rel E l k)) k' = wakes A (put u i k) k'"
  by (simp_all add: wakes_def)

lemma make_runnable_fields [simp]:
  "state (make_runnable r) = RUNNABLE" "chan (make_runnable r) = chan r"
  "killed (make_runnable r) = killed r" "xstate (make_runnable r) = xstate r"
  "pid (make_runnable r) = pid r" "parent (make_runnable r) = parent r"
  "left (make_runnable r) = left r" "right (make_runnable r) = right r"
  "niceVal (make_runnable r) = niceVal r" "currentRuntime (make_runnable r) = 0"
  "virtualRuntime (make_runnable r) = i32 (virtualRuntime r + currentRuntime r)"
  "links (make_runnable r) = links r" "weightVal (make_runnable r) = weightVal r"
  "proc.trapframe (make_runnable r) = proc.trapframe r" "ctxt (make_runnable r) = ctxt r"
  by (simp_all add: make_runnable_def links_def)

lemma redata_make_runnable: "redata p r \<Longrightarrow> redata (make_runnable p) (make_runnable r)"
  by (cases p, cases r) (simp add: redata_def make_runnable_def)

lemma wakes_trans:
  assumes "wakes A k k'" "wakes B k' k''" "A \<inter> B = {}"
  shows "wakes (A \<union> B) k k''"
  unfolding wakes_def
proof
  fix j
  have a: "redata (if j \<in> A then make_runnable (procs (rb k) j) else procs (rb k) j) (procs (rb k') j)"
    and b: "redata (if j \<in> B then make_runnable (procs (rb k') j) else procs (rb k') j) (procs (rb k'') j)"
    using assms(1,2) by (simp_all add: wakes_def)
  show "redata (if j \<in> A \<union> B then make_runnable (procs (rb k) j) else procs (rb k) j)
      (procs (rb k'') j)"
  proof (cases "j \<in> B")
    case True
    then have "j \<notin> A" using assms(3) by blast
    then have "redata (make_runnable (procs (rb k) j)) (make_runnable (procs (rb k') j))"
      using a by (simp add: redata_make_runnable)
    from redata_trans [OF this] show ?thesis using b True by simp
  next
    case False
    then show ?thesis using redata_trans [OF a] b by simp
  qed
qed

lemma wakes_fields:
  assumes "wakes A k k'"
  shows "state (procs (rb k') i) = (if i \<in> A then RUNNABLE else state (procs (rb k) i))"
    "chan (procs (rb k') i) = chan (procs (rb k) i)"
    "pid (procs (rb k') i) = pid (procs (rb k) i)"
    "parent (procs (rb k') i) = parent (procs (rb k) i)"
    "killed (procs (rb k') i) = killed (procs (rb k) i)"
    "currentRuntime (procs (rb k') i) = (if i \<in> A then 0 else currentRuntime (procs (rb k) i))"
proof -
  have "redata (if i \<in> A then make_runnable (procs (rb k) i) else procs (rb k) i) (procs (rb k') i)"
    using assms by (simp add: wakes_def)
  note f = redata_fields [OF this]
  show "state (procs (rb k') i) = (if i \<in> A then RUNNABLE else state (procs (rb k) i))"
    "chan (procs (rb k') i) = chan (procs (rb k) i)"
    "pid (procs (rb k') i) = pid (procs (rb k) i)"
    "parent (procs (rb k') i) = parent (procs (rb k) i)"
    "killed (procs (rb k') i) = killed (procs (rb k) i)"
    "currentRuntime (procs (rb k') i) = (if i \<in> A then 0 else currentRuntime (procs (rb k) i))"
    using f by simp_all
qed

lemma tree_frame_wakes: "tree_frame A (rb k) (rb k') \<Longrightarrow> wakes {} k k'"
  by (simp add: wakes_def tree_frame_def)

lemma wake_one:
  assumes E: "spin_ok E" and l: "Tree_lock \<notin> set (locks k)"
    and t: "table_ok E k q" and i: "i < NPROC E" "i \<notin> set q"
  shows "\<exists>k'. kbind (pset make_runnable (Some i) k) (insert_ready E (Some i)) = ret k' \<and>
    stable k k' \<and> wakes {i} k k' \<and> table_ok E k' (queue_in (put make_runnable i k) i q)"
proof -
  have "table_ok E (put make_runnable i k) q"
    by (rule table_ok_put [OF t i(2)]) (use table_ok_queue(6) [OF t] i in \<open>auto simp: insertable_def\<close>)
  then obtain k' where k': "insert_ready E (Some i) (put make_runnable i k) = ret k'"
    "stable (put make_runnable i k) k'" "table_ok E k' (queue_in (put make_runnable i k) i q)"
    "tree_frame (insert i (set q)) (rb (put make_runnable i k)) (rb k')"
    using insert_ready_ok [OF E, of "put make_runnable i k" q i] l i by auto
  moreover have "wakes {i} k (put make_runnable i k)"
    by (simp add: wakes_def)
  then have "wakes ({i} \<union> {}) k k'"
    using tree_frame_wakes [OF k'(4)] by (rule wakes_trans) simp
  moreover have "stable k k'" using k'(2) by (simp add: put_def)
  ultimately show ?thesis by auto
qed

section \<open>wakeup\<close>

definition sleeping_on :: "'m kernel \<Rightarrow> chan option \<Rightarrow> nat set" where
  "sleeping_on k ch = {i. Some i \<noteq> myproc k \<and> state (procs (rb k) i) = SLEEPING \<and>
     chan (procs (rb k) i) = ch}"

lemma wakeup_scan_ok:
  assumes E: "spin_ok E" and l: "Tree_lock \<notin> set (locks k)" "\<forall>i \<in> set is. Proc_lock i \<notin> set (locks k)"
    and t: "table_ok E k q" and idx: "set is \<subseteq> {..<NPROC E}" "distinct is"
  shows "\<exists>k' q'. wakeup_scan E ch is k = ret k' \<and> stable k k' \<and>
    wakes (set is \<inter> sleeping_on k ch) k k' \<and> table_ok E k' q' \<and>
    set q' = set q \<union> (set is \<inter> sleeping_on k ch)"
  using l t idx
proof (induction "is" arbitrary: k q)
  case Nil
  then show ?case by auto
next
  case (Cons i "is")
  have lk: "Proc_lock i \<notin> set (locks k)" using Cons.prems(2) by simp
  note a = acquire_ok [OF E lk]
  define A where "A = (if i \<in> sleeping_on k ch then {i} else {})"
  have stepped: "\<exists>k1 q1. wakeup_scan E ch (i # is) k = wakeup_scan E ch is k1 \<and> stable k k1 \<and>
      wakes A k k1 \<and> table_ok E k1 q1 \<and> set q1 = set q \<union> A"
  proof (cases "Some i = myproc k")
    case True
    then show ?thesis using Cons.prems(3) by (auto simp: A_def sleeping_on_def)
  next
    case nself: False
    show ?thesis
    proof (cases "i \<in> sleeping_on k ch")
      case True
      have ta: "table_ok E (acq E (Proc_lock i) k) q" using Cons.prems(3) by simp
      have "i \<notin> set q"
        using table_ok_queue(4) [OF Cons.prems(3), of i] True by (auto simp: sleeping_on_def)
      then obtain k2 where k2:
        "kbind (pset make_runnable (Some i) (acq E (Proc_lock i) k)) (insert_ready E (Some i)) = ret k2"
        "stable (acq E (Proc_lock i) k) k2" "wakes {i} (acq E (Proc_lock i) k) k2"
        "table_ok E k2 (queue_in (put make_runnable i (acq E (Proc_lock i) k)) i q)"
        using wake_one [OF E _ ta, of i] Cons.prems(1,4) a(2) by auto
      note sec = stable_section [OF E lk k2(2)]
      have "wakeup_scan E ch (i # is) k = wakeup_scan E ch is (rel E (Proc_lock i) k2)"
        using nself True k2(1) sec(1) a(1) by (simp add: sleeping_on_def)
      moreover have "wakes A k (rel E (Proc_lock i) k2)"
        using k2(3) True by (simp add: A_def)
      moreover have "table_ok E (rel E (Proc_lock i) k2)
          (queue_in (put make_runnable i (acq E (Proc_lock i) k)) i q)"
        using k2(4) by simp
      moreover have "set (queue_in (put make_runnable i (acq E (Proc_lock i) k)) i q) = set q \<union> A"
        using True by (simp add: A_def)
      ultimately show ?thesis using sec(2) by blast
    next
      case False
      note sec = stable_section [OF E lk stable_refl]
      have "wakeup_scan E ch (i # is) k =
          wakeup_scan E ch is (rel E (Proc_lock i) (acq E (Proc_lock i) k))"
        using nself False sec(1) a(1) by (auto simp: sleeping_on_def)
      moreover have "table_ok E (rel E (Proc_lock i) (acq E (Proc_lock i) k)) q"
        using Cons.prems(3) by simp
      moreover have "wakes A k (rel E (Proc_lock i) (acq E (Proc_lock i) k))" "set q = set q \<union> A"
        using False by (simp_all add: A_def)
      ultimately show ?thesis using sec(2) by blast
    qed
  qed
  then obtain k1 q1 where k1: "wakeup_scan E ch (i # is) k = wakeup_scan E ch is k1" "stable k k1"
    "wakes A k k1" "table_ok E k1 q1" "set q1 = set q \<union> A" by auto
  have same: "set is \<inter> sleeping_on k1 ch = set is \<inter> sleeping_on k ch"
    using Cons.prems(5) wakes_fields [OF k1(3)] stable_views [OF k1(2)]
    by (auto simp: sleeping_on_def A_def split: if_splits)
  obtain k' q' where k': "wakeup_scan E ch is k1 = ret k'" "stable k1 k'"
    "wakes (set is \<inter> sleeping_on k ch) k1 k'" "table_ok E k' q'"
    "set q' = set q1 \<union> (set is \<inter> sleeping_on k ch)"
    using Cons.IH [of k1 q1] Cons.prems k1 stable_views(1) [OF k1(2)] same by auto
  have "wakes (A \<union> (set is \<inter> sleeping_on k ch)) k k'"
    using k1(3) k'(3) by (rule wakes_trans) (use Cons.prems(5) in \<open>auto simp: A_def\<close>)
  moreover have "A \<union> (set is \<inter> sleeping_on k ch) = set (i # is) \<inter> sleeping_on k ch"
    by (auto simp: A_def)
  moreover have "stable k k'" using k1(2) k'(2) by (rule stable_trans)
  moreover have "wakeup_scan E ch (i # is) k = ret k'" unfolding k1(1) k'(1) ..
  moreover have "set q' = set q \<union> (A \<union> (set is \<inter> sleeping_on k ch))"
    unfolding k'(5) k1(5) by (rule Un_assoc)
  ultimately show ?case using k'(4) by auto
qed

text \<open>No process lock and no tree lock is held.\<close>

definition proc_free :: "'m kernel \<Rightarrow> bool" where
  "proc_free k \<longleftrightarrow> Tree_lock \<notin> set (locks k) \<and> (\<forall>i. Proc_lock i \<notin> set (locks k))"

lemma wakeup_ok:
  assumes "spin_ok E" "proc_free k" "table_ok E k q"
  shows "\<exists>k' q'. wakeup E ch k = ret k' \<and> stable k k' \<and>
    wakes ({..<NPROC E} \<inter> sleeping_on k ch) k k' \<and> table_ok E k' q' \<and>
    set q' = set q \<union> ({..<NPROC E} \<inter> sleeping_on k ch)"
proof -
  have s: "set [0..<NPROC E] = {..<NPROC E}" by auto
  show ?thesis
    using wakeup_scan_ok [OF assms(1) _ _ assms(3), of "[0..<NPROC E]" ch] assms(2)
    unfolding wakeup_def proc_free_def s by simp
qed

section \<open>kill\<close>

text \<open>The entry \<open>kill\<close> acts on: the first one with the given pid.\<close>

definition victim :: "'m ext \<Rightarrow> 'm kernel \<Rightarrow> int \<Rightarrow> ptr" where
  "victim E k n = find (\<lambda>i. pid (procs (rb k) i) = n) [0..<NPROC E]"

lemma kill_scan_ok:
  assumes E: "spin_ok E" and l: "Tree_lock \<notin> set (locks k)" "\<forall>i \<in> set is. Proc_lock i \<notin> set (locks k)"
    and t: "table_ok E k q" and idx: "set is \<subseteq> {..<NPROC E}"
  shows "case find (\<lambda>i. pid (procs (rb k) i) = n) is of
      None \<Rightarrow> \<exists>k'. kill_scan E n is k = ret (-1, k') \<and> stable k k' \<and> rb k' = rb k
    | Some i \<Rightarrow> \<exists>k' q'. kill_scan E n is k = ret (0, k') \<and> stable k k' \<and> table_ok E k' q' \<and>
        wakes (if state (procs (rb k) i) = SLEEPING then {i} else {})
          (put (killed_update (\<lambda>_. 1)) i k) k' \<and>
        set q' = (if state (procs (rb k) i) = SLEEPING then insert i (set q) else set q)"
  using l t idx
proof (induction "is" arbitrary: k)
  case Nil
  then show ?case by auto
next
  case (Cons i "is")
  have lk: "Proc_lock i \<notin> set (locks k)" using Cons.prems(2) by simp
  note a = acquire_ok [OF E lk]
  define k1 where "k1 = acq E (Proc_lock i) k"
  show ?case
  proof (cases "pid (procs (rb k) i) = n")
    case False
    have st: "stable k1 k1" by simp
    note sec = stable_section [OF E lk st [unfolded k1_def], folded k1_def]
    have "kill_scan E n (i # is) k = kill_scan E n is (rel E (Proc_lock i) k1)"
      using a(1) sec(1) False by (simp add: k1_def)
    moreover have "locks (rel E (Proc_lock i) k1) = locks k" "rb (rel E (Proc_lock i) k1) = rb k"
      using stable_views(1) [OF sec(2)] by (simp_all add: k1_def)
    moreover have "table_ok E (rel E (Proc_lock i) k1) q"
      using Cons.prems(3) by (simp add: k1_def)
    moreover have "wakes A (put u j (rel E (Proc_lock i) k1)) k' = wakes A (put u j k) k'" for A u j k'
      by (simp add: k1_def)
    ultimately show ?thesis
      using Cons.IH [of "rel E (Proc_lock i) k1"] Cons.prems False stable_trans [OF sec(2)]
      by (auto split: option.splits)
  next
    case True
    define k2 where "k2 = put (killed_update (\<lambda>_. 1)) i k1"
    have t2: "table_ok E k2 q"
      unfolding k2_def k1_def by (rule table_ok_put_same) (use Cons.prems(3) in \<open>simp_all add: links_def\<close>)
    have l2: "Tree_lock \<notin> set (locks k2)" using a(2) Cons.prems(1) by (simp add: k2_def k1_def)
    have "\<exists>k3 q'. (if state (procs (rb k2) i) = SLEEPING then
          kbind (pset make_runnable (Some i) k2) (insert_ready E (Some i)) else ret k2) = ret k3 \<and>
        stable k2 k3 \<and> table_ok E k3 q' \<and>
        wakes (if state (procs (rb k2) i) = SLEEPING then {i} else {}) k2 k3 \<and>
        set q' = (if state (procs (rb k2) i) = SLEEPING then insert i (set q) else set q)"
    proof (cases "state (procs (rb k2) i) = SLEEPING")
      case sl: True
      then have "i \<notin> set q" using table_ok_queue(4) [OF t2, of i] by auto
      moreover have "i < NPROC E" using Cons.prems(4) by simp
      ultimately obtain k3 where "kbind (pset make_runnable (Some i) k2) (insert_ready E (Some i)) = ret k3"
        "stable k2 k3" "wakes {i} k2 k3" "table_ok E k3 (queue_in (put make_runnable i k2) i q)"
        using wake_one [OF E l2 t2] by blast
      moreover have "set (queue_in (put make_runnable i k2) i q) = insert i (set q)" by simp
      ultimately show ?thesis using sl by auto
    next
      case False
      then show ?thesis using t2 by auto
    qed
    then obtain k3 q' where k3: "(if state (procs (rb k2) i) = SLEEPING then
          kbind (pset make_runnable (Some i) k2) (insert_ready E (Some i)) else ret k2) = ret k3"
      "stable k2 k3" "table_ok E k3 q'"
      "wakes (if state (procs (rb k2) i) = SLEEPING then {i} else {}) k2 k3"
      "set q' = (if state (procs (rb k2) i) = SLEEPING then insert i (set q) else set q)" by blast
    have "stable k1 k3" using k3(2) by (simp add: k2_def put_def)
    note sec = stable_section [OF E lk this [unfolded k1_def], folded k1_def]
    have sl: "state (procs (rb k2) i) = state (procs (rb k) i)" by (simp add: k2_def k1_def)
    have "kill_scan E n (i # is) k = kbind (if state (procs (rb k2) i) = SLEEPING then
          kbind (pset make_runnable (Some i) k2) (insert_ready E (Some i)) else ret k2)
        (\<lambda>k. kbind (release E (Proc_lock i) k) (\<lambda>k. ret (0, k)))"
      using a(1) True by (simp add: k1_def [symmetric] k2_def [symmetric] del: if_split)
         (simp add: k1_def)
    also have "\<dots> = ret (0, rel E (Proc_lock i) k3)" unfolding k3(1) using sec(1) by simp
    finally have r: "kill_scan E n (i # is) k = ret (0, rel E (Proc_lock i) k3)" .
    have "wakes (if state (procs (rb k2) i) = SLEEPING then {i} else {})
        (put (killed_update (\<lambda>_. 1)) i k) (rel E (Proc_lock i) k3)"
      using k3(4) unfolding k2_def k1_def by simp
    then show ?thesis
      using r sec(2) k3(3,5) True unfolding sl by (auto split: option.split simp del: kill_scan.simps)
  qed
qed

lemma kill_ok:
  assumes "spin_ok E" "proc_free k" "table_ok E k q"
  shows "case victim E k n of
      None \<Rightarrow> \<exists>k'. kill E n k = ret (-1, k') \<and> stable k k' \<and> rb k' = rb k
    | Some i \<Rightarrow> \<exists>k' q'. kill E n k = ret (0, k') \<and> stable k k' \<and> table_ok E k' q' \<and>
        wakes (if state (procs (rb k) i) = SLEEPING then {i} else {})
          (put (killed_update (\<lambda>_. 1)) i k) k' \<and>
        set q' = (if state (procs (rb k) i) = SLEEPING then insert i (set q) else set q)"
  using kill_scan_ok [OF assms(1) _ _ assms(3), of "[0..<NPROC E]" n] assms(2)
  unfolding kill_def victim_def proc_free_def by (simp add: subset_eq)

section \<open>sched, yield and sleep\<close>

text \<open>Interrupts are off while a lock is held: the documented effect of \<open>push_off\<close>.\<close>

definition intr_ok :: "'m ext \<Rightarrow> bool" where
  "intr_ok E \<longleftrightarrow> (\<forall>k. 0 < noff (mycpu k) \<longrightarrow> \<not> intr_get E k)"

text \<open>The process \<open>i\<close> runs kernel code without holding any lock.\<close>

definition in_kernel :: "'m ext \<Rightarrow> nat \<Rightarrow> 'm kernel \<Rightarrow> bool" where
  "in_kernel E i k \<longleftrightarrow> myproc k = Some i \<and> i < NPROC E \<and> state (procs (rb k) i) = RUNNING \<and>
     locks k = [] \<and> noff (mycpu k) = 0"

lemma in_kernel_unqueued: "in_kernel E i k \<Longrightarrow> table_ok E k q \<Longrightarrow> i \<notin> set q"
  using table_ok_queue(4) by (fastforce simp: in_kernel_def)

lemma in_kernel_stable:
  "in_kernel E p k \<Longrightarrow> stable k k' \<Longrightarrow> state (procs (rb k') p) = RUNNING \<Longrightarrow> in_kernel E p k'"
  using stable_views [of k k'] by (simp add: in_kernel_def)

lemma sched_switches:
  assumes "spin_ok E" "intr_ok E" "myproc k = Some i" "Proc_lock i \<in> set (locks k)"
    "noff (mycpu k) = 1" "state (procs (rb k) i) \<noteq> RUNNING"
  shows "sched E k = kbind (swtch E (Ctx_proc i) (Ctx_cpu (cpuid k)) k)
    (\<lambda>k'. ret (set_mycpu (intena_update (\<lambda>_. intena (mycpu k))) k'))"
proof -
  have "\<not> intr_get E k" using assms(2,5) by (simp add: intr_ok_def)
  then show ?thesis using assms(3-6) by (simp add: sched_def Let_def holding_ok [OF assms(1)])
qed

text \<open>What \<open>yield\<close> and \<open>sleep\<close> do once the process runs again.\<close>

definition resume_with :: "'m ext \<Rightarrow> 'm kernel \<Rightarrow> ('m kernel \<Rightarrow> 'm kernel kres) \<Rightarrow> 'm kernel kres" where
  "resume_with E k f = (case myproc k of None \<Rightarrow> err Null_deref
     | Some i \<Rightarrow> kbind (swtch E (Ctx_proc i) (Ctx_cpu (cpuid k)) k)
         (\<lambda>k'. f (set_mycpu (intena_update (\<lambda>_. intena (mycpu k))) k')))"

lemma sched_resume:
  assumes "spin_ok E" "intr_ok E" "myproc k = Some i" "Proc_lock i \<in> set (locks k)"
    "noff (mycpu k) = 1" "state (procs (rb k) i) \<noteq> RUNNING"
  shows "kbind (sched E k) f = resume_with E k f"
  using sched_switches [OF assms] assms(3) by (simp add: resume_with_def kbind_assoc)

lemma yield_stays:
  assumes E: "spin_ok E" and r: "in_kernel E i k"
    and c: "checkPreemption (Some i) (minvRuntime (procTree (rb k))) (rb k) = ret False"
  shows "\<exists>k'. yield E k = ret k' \<and> stable k k' \<and> rb k' = rb k"
proof -
  have l: "Proc_lock i \<notin> set (locks k)" and p: "myproc k = Some i"
    using r by (simp_all add: in_kernel_def)
  note sec = stable_section [OF E l stable_refl]
  have "yield E k = ret (rel E (Proc_lock i) (acq E (Proc_lock i) k))"
    using acquire_ok(1) [OF E l] sec(1) p c
    by (simp add: yield_def Let_def acquire_p_def release_p_def)
  with sec(2) show ?thesis by simp
qed

lemma yield_switches:
  assumes E: "spin_ok E" "intr_ok E" and r: "in_kernel E i k" and t: "table_ok E k q"
    and c: "checkPreemption (Some i) (minvRuntime (procTree (rb k))) (rb k) = ret True"
  shows "\<exists>k1. yield E k = resume_with E k1 (release_p E (Some i)) \<and> myproc k1 = Some i \<and>
    locks k1 = [Proc_lock i] \<and> table_ok E k1 (queue_in (put make_runnable i k) i q) \<and> wakes {i} k k1"
proof -
  have l: "Proc_lock i \<notin> set (locks k)" "Tree_lock \<notin> set (locks k)" and p: "myproc k = Some i"
    and i: "i < NPROC E" "i \<notin> set q"
    using r in_kernel_unqueued [OF r t] by (simp_all add: in_kernel_def)
  note a = acquire_ok [OF E(1) l(1)]
  define k0 where "k0 = acq E (Proc_lock i) k"
  have t0: "table_ok E k0 q" using t by (simp add: k0_def)
  have l0: "Tree_lock \<notin> set (locks k0)" using a(2) l(2) by (simp add: k0_def)
  obtain k1 where k1: "kbind (pset make_runnable (Some i) k0) (insert_ready E (Some i)) = ret k1"
    "stable k0 k1" "wakes {i} k0 k1" "table_ok E k1 (queue_in (put make_runnable i k0) i q)"
    using wake_one [OF E(1) l0 t0 i] by blast
  have q: "queue_in (put make_runnable i k0) i q = queue_in (put make_runnable i k) i q"
    by (simp add: queue_in_def k0_def)
  have w: "wakes {i} k k1" using k1(3) by (simp add: k0_def)
  have s: "state (procs (rb k1) i) \<noteq> RUNNING" "locks k1 = [Proc_lock i]" "myproc k1 = Some i"
    "noff (mycpu k1) = 1"
    using wakes_fields(1) [OF w, of i] stable_views [OF k1(2)] a r
    by (simp_all add: k0_def in_kernel_def)
  have "yield E k = kbind (kbind (kbind (pset make_runnable (Some i) k0) (insert_ready E (Some i)))
      (sched E)) (release_p E (Some i))"
    using a(1) p c by (simp add: yield_def Let_def acquire_p_def k0_def kbind_assoc)
  also have "\<dots> = resume_with E k1 (release_p E (Some i))"
    unfolding k1(1) using sched_resume [OF E s(3) _ s(4) s(1), of "release_p E (Some i)"] s(2) by simp
  finally show ?thesis using s w k1(4) q by auto
qed

lemma sleep_switches:
  assumes E: "spin_ok E" "intr_ok E" and p: "myproc k = Some i" "i < NPROC E"
    and st: "state (procs (rb k) i) = RUNNING" and t: "table_ok E k q"
    and l: "locks k = [lk]" "lk \<noteq> Proc_lock i" "noff (mycpu k) = 1"
  shows "\<exists>k1. sleep E ch lk k = resume_with E k1 (\<lambda>k.
      kbind (pset (chan_update (\<lambda>_. None)) (Some i) k) (\<lambda>k.
      kbind (release_p E (Some i) k) (acquire E lk))) \<and>
    myproc k1 = Some i \<and> locks k1 = [Proc_lock i] \<and> table_ok E k1 q \<and>
    procs (rb k1) = (procs (rb k))(i := (procs (rb k) i)\<lparr>chan := ch, state := SLEEPING\<rparr>) \<and>
    procTree (rb k1) = procTree (rb k) \<and>
    calls k1 = calls k @ [Acquire (Proc_lock i), Release lk]"
proof -
  have lp: "Proc_lock i \<notin> set (locks k)" using l by simp
  have i: "i \<notin> set q" using table_ok_queue(4) [OF t, of i] st by auto
  note a = acquire_ok [OF E(1) lp]
  define k0 where "k0 = acq E (Proc_lock i) k"
  have lk0: "lk \<in> set (locks k0)" using a(2) l by (simp add: k0_def)
  note r = release_ok [OF E(1) lk0]
  define k1 where "k1 = put (\<lambda>r. r\<lparr>chan := ch, state := SLEEPING\<rparr>) i (rel E lk k0)"
  have s: "locks k1 = [Proc_lock i]" "myproc k1 = Some i" "noff (mycpu k1) = 1"
    "state (procs (rb k1) i) \<noteq> RUNNING"
    using a r l p by (simp_all add: k1_def k0_def)
  have "table_ok E k1 q"
    unfolding k1_def by (rule table_ok_put)
      (use t i table_ok_queue(6) [OF t p(2) i] in \<open>simp_all add: k0_def insertable_def\<close>)
  moreover have "sleep E ch lk k = kbind (sched E k1) (\<lambda>k.
      kbind (pset (chan_update (\<lambda>_. None)) (Some i) k) (\<lambda>k.
      kbind (release_p E (Some i) k) (acquire E lk)))"
    using a(1) r(1) p(1) by (simp add: sleep_def Let_def acquire_p_def k1_def k0_def [symmetric])
  moreover have "procs (rb k1) = (procs (rb k))(i := (procs (rb k) i)\<lparr>chan := ch, state := SLEEPING\<rparr>)"
    "procTree (rb k1) = procTree (rb k)"
    by (simp_all add: k1_def k0_def)
  moreover have "calls k1 = calls k @ [Acquire (Proc_lock i), Release lk]"
    using acquire_calls(1) [OF a(1)] release_calls(1) [OF r(1)] by (simp add: k1_def k0_def put_def)
  ultimately show ?thesis
    using s sched_resume [OF E s(2) _ s(3,4)] by auto
qed

end
