(* ===== verification/Proc_Alloc.thy ===== *)
theory Proc_Alloc
  imports Wakeups
begin

text \<open>
  Allocation and release of process table entries and \<open>fork\<close>. \<open>freed\<close> and \<open>fresh\<close> are the
  contents of an entry after \<open>freeproc\<close> and after a successful \<open>allocproc\<close>; \<open>mem_stable\<close> is
  \<open>stable\<close> but for memory and \<open>nextpid\<close>.
\<close>

section \<open>Code that also allocates memory\<close>

definition mem_stable :: "'m kernel \<Rightarrow> 'm kernel \<Rightarrow> bool" where
  "mem_stable k k' \<longleftrightarrow> locks k' = locks k \<and> noff (mycpu k') = noff (mycpu k) \<and>
     (\<forall>h. cpu_proc (cpus k' h) = cpu_proc (cpus k h) \<and>
          cpu_context (cpus k' h) = cpu_context (cpus k h)) \<and>
     (\<forall>h. h \<noteq> hart k \<longrightarrow> cpus k' h = cpus k h) \<and>
     initproc k' = initproc k \<and> ticks k' = ticks k \<and> first k' = first k \<and> hart k' = hart k"

lemma mem_stable_refl [simp, intro]: "mem_stable k k"
  by (simp add: mem_stable_def)

lemma mem_stable_trans [trans]: "mem_stable k k' \<Longrightarrow> mem_stable k' k'' \<Longrightarrow> mem_stable k k''"
  by (simp add: mem_stable_def)

lemma stable_mem: "stable k k' \<Longrightarrow> mem_stable k k'"
  by (simp add: stable_def mem_stable_def)

lemma mem_stable_views:
  assumes "mem_stable k k'"
  shows "locks k' = locks k" "noff (mycpu k') = noff (mycpu k)" "myproc k' = myproc k"
    "initproc k' = initproc k" "ticks k' = ticks k" "first k' = first k" "hart k' = hart k"
  using assms by (auto simp: mem_stable_def myproc_def mycpu_def cpuid_def)

lemma mem_stable_upd [simp]:
  "mem_stable k (k'\<lparr>rb := s\<rparr>) = mem_stable k k'" "mem_stable k (k'\<lparr>mach := m\<rparr>) = mem_stable k k'"
  "mem_stable k (k'\<lparr>tframes := t\<rparr>) = mem_stable k k'"
  "mem_stable k (k'\<lparr>nextpid := n\<rparr>) = mem_stable k k'"
  "mem_stable k (put u i k') = mem_stable k k'" "mem_stable k (mdo f k') = mem_stable k k'"
  by (auto simp: mem_stable_def)

lemma mem_stable_section:
  assumes "spin_ok E" "l \<notin> set (locks k)" "mem_stable (acq E l k) k'"
  shows "release E l k' = ret (rel E l k')" "mem_stable k (rel E l k')"
proof -
  note a = acquire_ok [OF assms(1,2)]
  have l: "locks k' = l # locks k" using assms(3) a by (simp add: mem_stable_def)
  then have m: "l \<in> set (locks k')" by simp
  note r = release_ok [OF assms(1) m]
  show "release E l k' = ret (rel E l k')" by (rule r)
  have h: "hart k' = hart k" using assms(3) by (simp add: mem_stable_def)
  show "mem_stable k (rel E l k')"
    using assms(3) a r l h unfolding mem_stable_def by auto
qed

lemma mem_stable_acq:
  assumes "spin_ok E" "l \<notin> set (locks k)" "mem_stable k k'"
  shows "mem_stable (acq E l k) (acq E l k')"
proof -
  have l: "l \<notin> set (locks k')" using assms(2,3) by (simp add: mem_stable_def)
  note a = acquire_ok [OF assms(1,2)] and b = acquire_ok [OF assms(1) l]
  show ?thesis using assms(3) a b by (auto simp: mem_stable_def)
qed

section \<open>freeproc\<close>

definition freed :: "proc \<Rightarrow> proc" where
  "freed r = r\<lparr>trapframe := 0, pagetable := 0, sz := 0, pid := 0, parent := None, name := [],
     chan := None, killed := 0, xstate := 0, state := UNUSED\<rparr>"

lemma freeproc_ok: "\<exists>m. freeproc E (Some i) k = ret (put freed i (k\<lparr>mach := m\<rparr>))"
proof -
  have "freeproc E (Some i) k = ret (put freed i (k\<lparr>mach :=
      (let r = procs (rb k) i;
           m = (if proc.trapframe r \<noteq> 0 then kfree E (proc.trapframe r) (mach k) else mach k)
       in if pagetable r \<noteq> 0 then uvmfree E (pagetable r) (sz r)
            (uvmunmap E (pagetable r) (TRAPFRAME E) 1 False
              (uvmunmap E (pagetable r) (TRAMPOLINE E) 1 False m)) else m)\<rparr>))"
    by (simp add: freeproc_def Let_def put_def freed_def proc_freepagetable_def mdo_def)
  then show ?thesis by blast
qed

lemma freed_fields [simp]:
  "left (freed r) = left r" "right (freed r) = right r" "niceVal (freed r) = niceVal r"
  "state (freed r) = UNUSED" "pid (freed r) = 0" "killed (freed r) = 0" "parent (freed r) = None"
  "freed (freed r) = freed r"
  by (simp_all add: freed_def)

section \<open>allocproc\<close>

definition fresh :: "'m ext \<Rightarrow> u64 \<Rightarrow> u64 \<Rightarrow> int \<Rightarrow> proc \<Rightarrow> proc" where
  "fresh E page pt n r = r\<lparr>pid := n, state := USED, trapframe := page, pagetable := pt,
     ctxt := zero_context\<lparr>cx_ra := forkret_addr E, cx_sp := kstack r + PGSIZE E\<rparr>,
     virtualRuntime := 0, currentRuntime := 0, maxExecutionTime := 0, niceVal := 0,
     left := None, right := None, pParent := None\<rparr>"

definition first_unused :: "'m ext \<Rightarrow> 'm kernel \<Rightarrow> ptr" where
  "first_unused E k = find (\<lambda>i. state (procs (rb k) i) = UNUSED) [0..<NPROC E]"

lemma find_unused_ok:
  assumes E: "spin_ok E" and l: "\<forall>i \<in> set is. Proc_lock i \<notin> set (locks k)"
  shows "case find (\<lambda>i. state (procs (rb k) i) = UNUSED) is of
      None \<Rightarrow> \<exists>k'. find_unused E is k = ret (None, k') \<and> stable k k' \<and> rb k' = rb k
    | Some i \<Rightarrow> \<exists>k0. find_unused E is k = ret (Some i, acq E (Proc_lock i) k0) \<and>
        stable k k0 \<and> rb k0 = rb k \<and> Proc_lock i \<notin> set (locks k)"
  using l
proof (induction "is" arbitrary: k)
  case Nil
  then show ?case by auto
next
  case (Cons i "is")
  have lk: "Proc_lock i \<notin> set (locks k)" using Cons.prems by simp
  note a = acquire_ok [OF E lk]
  show ?case
  proof (cases "state (procs (rb k) i) = UNUSED")
    case True
    then show ?thesis using a(1) lk by auto
  next
    case False
    define k1 where "k1 = rel E (Proc_lock i) (acq E (Proc_lock i) k)"
    note sec = stable_section [OF E lk stable_refl, folded k1_def]
    have "find_unused E (i # is) k = find_unused E is k1"
      using a(1) sec(1) False by (simp add: k1_def)
    moreover have "rb k1 = rb k" by (simp add: k1_def)
    moreover have "locks k1 = locks k" using stable_views(1) [OF sec(2)] .
    ultimately show ?thesis
      using Cons.IH [of k1] Cons.prems False stable_trans [OF sec(2)]
      by (auto split: option.splits)
  qed
qed

lemma allocpid_ok:
  assumes "spin_ok E" "Pid_lock \<notin> set (locks k)"
  shows "\<exists>k'. allocpid E k = ret (nextpid k, k') \<and> mem_stable k k' \<and> rb k' = rb k \<and>
    nextpid k' = i32 (nextpid k + 1) \<and> tframes k' = tframes k \<and> mach k' = mach k"
proof -
  define k1 where "k1 = (acq E Pid_lock k)\<lparr>nextpid := i32 (nextpid k + 1)\<rparr>"
  have "mem_stable (acq E Pid_lock k) k1" by (simp add: k1_def)
  note sec = mem_stable_section [OF assms this]
  have "allocpid E k = ret (nextpid k, rel E Pid_lock k1)"
    using acquire_ok(1) [OF assms] sec(1) by (simp add: allocpid_def Let_def k1_def)
  then show ?thesis using sec(2) by (simp add: k1_def)
qed

lemma proc_pagetable_ok:
  "\<exists>pt m. proc_pagetable E (Some i) k = ret (pt, k\<lparr>mach := m\<rparr>)"
  by (auto simp: proc_pagetable_def mcall_def mdo_def Let_def split: prod.split)

lemma kalloc_page_ok:
  "\<exists>m t. kalloc_page E k = (fst (fst (kalloc E (mach k))), k\<lparr>mach := m, tframes := t\<rparr>) \<and>
    (\<forall>a. a \<noteq> fst (fst (kalloc E (mach k))) \<longrightarrow> t a = tframes k a)"
proof -
  obtain a c m where m: "kalloc E (mach k) = ((a, c), m)" by (metis surj_pair)
  show ?thesis
    by (rule exI [of _ m], rule exI [of _ "if a = 0 then tframes k else (tframes k)(a := c)"])
      (simp add: kalloc_page_def m)
qed

lemma alloc_found_ok:
  assumes E: "spin_ok E" and l: "Pid_lock \<notin> set (locks k)" and i: "Proc_lock i \<notin> set (locks k)"
  defines "page \<equiv> fst (fst (kalloc E (mach k)))"
  shows "\<exists>k'. nextpid k' = i32 (nextpid k + 1) \<and> (\<forall>a. a \<noteq> page \<longrightarrow> tframes k' a = tframes k a) \<and>
    (alloc_found E (Some i) (acq E (Proc_lock i) k) = ret (None, k') \<and> mem_stable k k' \<and>
       rb k' = rb (put freed i k) \<or>
     (\<exists>pt. page \<noteq> 0 \<and> pt \<noteq> 0 \<and> alloc_found E (Some i) (acq E (Proc_lock i) k) = ret (Some i, k') \<and>
       mem_stable (acq E (Proc_lock i) k) k' \<and> rb k' = rb (put (fresh E page pt (nextpid k)) i k)))"
proof -
  define ka where "ka = acq E (Proc_lock i) k"
  note a = acquire_ok [OF E i, folded ka_def]
  have ka: "rb ka = rb k" "mach ka = mach k" "tframes ka = tframes k" "nextpid ka = nextpid k"
    by (simp_all add: ka_def)
  have la: "Pid_lock \<notin> set (locks ka)" using a(2) l by simp
  obtain k1 where k1: "allocpid E ka = ret (nextpid k, k1)" "mem_stable ka k1" "rb k1 = rb k"
    "nextpid k1 = i32 (nextpid k + 1)" "tframes k1 = tframes k" "mach k1 = mach k"
    using allocpid_ok [OF E la] ka by auto
  define k2 where "k2 = put (\<lambda>r. r\<lparr>pid := nextpid k, state := USED\<rparr>) i k1"
  have mk2: "mach k2 = mach k" "tframes k2 = tframes k" by (simp_all add: k2_def k1)
  obtain m t where mt: "kalloc_page E k2 = (page, k2\<lparr>mach := m, tframes := t\<rparr>)"
    "\<forall>a. a \<noteq> page \<longrightarrow> t a = tframes k a"
    using kalloc_page_ok [of E k2] unfolding mk2 page_def by auto
  define k3 where "k3 = put (proc.trapframe_update (\<lambda>_. page)) i (k2\<lparr>mach := m, tframes := t\<rparr>)"
  have k3: "mem_stable ka k3" "nextpid k3 = i32 (nextpid k + 1)" "tframes k3 = t"
    "rb k3 = (rb k)\<lparr>procs := (procs (rb k))(i := (procs (rb k) i)
        \<lparr>pid := nextpid k, state := USED, trapframe := page\<rparr>)\<rparr>"
    using k1 by (simp_all add: k3_def k2_def put_def)
  have fail: "\<exists>k'. kbind (freeproc E (Some i) k4) (\<lambda>k. kbind (release_p E (Some i) k) (\<lambda>k. ret (None, k)))
        = ret (None :: ptr, k') \<and> mem_stable k k' \<and> rb k' = rb (put freed i k) \<and>
      nextpid k' = i32 (nextpid k + 1) \<and> tframes k' = t"
    if k4: "mem_stable ka k4" "nextpid k4 = i32 (nextpid k + 1)" "tframes k4 = t"
      "rb (put freed i k4) = rb (put freed i k)" for k4
  proof -
    obtain m' where m': "freeproc E (Some i) k4 = ret (put freed i (k4\<lparr>mach := m'\<rparr>))"
      using freeproc_ok [of E i k4] by blast
    have "mem_stable ka (put freed i (k4\<lparr>mach := m'\<rparr>))" using k4(1) by simp
    note sec = mem_stable_section [OF E i this [unfolded ka_def]]
    have "rb (put freed i (k4\<lparr>mach := m'\<rparr>)) = rb (put freed i k)"
      using k4(4) by (simp add: put_def)
    then show ?thesis using m' sec k4 by (auto simp: release_p_def)
  qed
  have step: "alloc_found E (Some i) ka =
    (if page = 0 then kbind (freeproc E (Some i) k3) (\<lambda>k. kbind (release_p E (Some i) k) (\<lambda>k. ret (None, k)))
     else kbind (proc_pagetable E (Some i) k3) (\<lambda>(pt, k).
       kbind (pset (pagetable_update (\<lambda>_. pt)) (Some i) k) (\<lambda>k.
       if pt = 0 then
         kbind (freeproc E (Some i) k) (\<lambda>k. kbind (release_p E (Some i) k) (\<lambda>k. ret (None, k)))
       else
         kbind (pset (\<lambda>r. r\<lparr>ctxt := zero_context\<lparr>cx_ra := forkret_addr E,
             cx_sp := kstack r + PGSIZE E\<rparr>, virtualRuntime := 0, currentRuntime := 0,
             maxExecutionTime := 0, niceVal := 0, left := None, right := None,
             pParent := None\<rparr>) (Some i) k) (\<lambda>k.
         ret (Some i, k)))))"
    unfolding k3_def by (simp add: alloc_found_def k1(1) k2_def [symmetric] mt(1) split del: if_split)
  show ?thesis
  proof (cases "page = 0")
    case True
    have "rb (put freed i k3) = rb (put freed i k)" using k3(4) by (simp add: put_def freed_def)
    from fail [OF k3(1-3) this] show ?thesis using step True mt(2) unfolding ka_def by auto
  next
    case False
    obtain pt m' where pt: "proc_pagetable E (Some i) k3 = ret (pt, k3\<lparr>mach := m'\<rparr>)"
      using proc_pagetable_ok [of E i k3] by blast
    define k4 where "k4 = put (pagetable_update (\<lambda>_. pt)) i (k3\<lparr>mach := m'\<rparr>)"
    have k4: "mem_stable ka k4" "nextpid k4 = i32 (nextpid k + 1)" "tframes k4 = t"
      "rb k4 = (rb k)\<lparr>procs := (procs (rb k))(i := (procs (rb k) i)
          \<lparr>pid := nextpid k, state := USED, trapframe := page, pagetable := pt\<rparr>)\<rparr>"
      using k3 by (simp_all add: k4_def put_def)
    show ?thesis
    proof (cases "pt = 0")
      case True
      have "rb (put freed i k4) = rb (put freed i k)" using k4(4) by (simp add: put_def freed_def)
      from fail [OF k4(1-3) this] show ?thesis
        using step False True mt(2) pt unfolding ka_def k4_def by auto
    next
      case ptn: False
      define k5 where "k5 = put (\<lambda>r. r\<lparr>ctxt := zero_context\<lparr>cx_ra := forkret_addr E,
             cx_sp := kstack r + PGSIZE E\<rparr>, virtualRuntime := 0, currentRuntime := 0,
             maxExecutionTime := 0, niceVal := 0, left := None, right := None,
             pParent := None\<rparr>) i k4"
      have "alloc_found E (Some i) ka = ret (Some i, k5)"
        using step False ptn pt by (simp add: k5_def k4_def)
      moreover have "rb k5 = rb (put (fresh E page pt (nextpid k)) i k)"
        using k4(4) by (simp add: k5_def put_def fresh_def)
      moreover have "mem_stable ka k5" "nextpid k5 = i32 (nextpid k + 1)" "tframes k5 = t"
        using k4(1-3) by (simp_all add: k5_def)
      ultimately show ?thesis using False ptn mt(2) unfolding ka_def by blast
    qed
  qed
qed

text \<open>
  The three outcomes of \<open>allocproc\<close>: no free entry, a failed allocation (the entry is free
  again), or the first free entry set up, with its lock held.
\<close>

lemma allocproc_ok:
  assumes E: "spin_ok E" and l: "proc_free k" "Pid_lock \<notin> set (locks k)"
  shows "case first_unused E k of
      None \<Rightarrow> \<exists>k'. allocproc E k = ret (None, k') \<and> stable k k' \<and> rb k' = rb k
    | Some i \<Rightarrow> \<exists>k'. nextpid k' = i32 (nextpid k + 1) \<and>
        (\<forall>a. a \<noteq> fst (fst (kalloc E (mach k))) \<longrightarrow> tframes k' a = tframes k a) \<and>
        (allocproc E k = ret (None, k') \<and> mem_stable k k' \<and> rb k' = rb (put freed i k) \<or>
         (\<exists>pt. fst (fst (kalloc E (mach k))) \<noteq> 0 \<and> pt \<noteq> 0 \<and> allocproc E k = ret (Some i, k') \<and>
           mem_stable (acq E (Proc_lock i) k) k' \<and>
           rb k' = rb (put (fresh E (fst (fst (kalloc E (mach k)))) pt (nextpid k)) i k)))"
proof (cases "first_unused E k")
  case None
  then show ?thesis
    using find_unused_ok [OF E, of "[0..<NPROC E]" k] l(1)
    by (auto simp: first_unused_def proc_free_def allocproc_def)
next
  case (Some i)
  obtain k0 where k0: "find_unused E [0..<NPROC E] k = ret (Some i, acq E (Proc_lock i) k0)"
    "stable k k0" "rb k0 = rb k" "Proc_lock i \<notin> set (locks k)"
    using find_unused_ok [OF E, of "[0..<NPROC E]" k] l(1) Some
    by (auto simp: first_unused_def proc_free_def)
  note v = stable_views [OF k0(2)]
  have a: "allocproc E k = alloc_found E (Some i) (acq E (Proc_lock i) k0)"
    using k0(1) by (simp add: allocproc_def)
  have put: "rb (put u i k0) = rb (put u i k)" for u by (simp add: put_def k0(3))
  have ms: "mem_stable k k0" using k0(2) by (rule stable_mem)
  have "\<exists>k'. nextpid k' = i32 (nextpid k + 1) \<and>
      (\<forall>a. a \<noteq> fst (fst (kalloc E (mach k))) \<longrightarrow> tframes k' a = tframes k a) \<and>
      (allocproc E k = ret (None, k') \<and> mem_stable k0 k' \<and> rb k' = rb (put freed i k) \<or>
       (\<exists>pt. fst (fst (kalloc E (mach k))) \<noteq> 0 \<and> pt \<noteq> 0 \<and> allocproc E k = ret (Some i, k') \<and>
         mem_stable (acq E (Proc_lock i) k0) k' \<and>
         rb k' = rb (put (fresh E (fst (fst (kalloc E (mach k)))) pt (nextpid k)) i k)))"
    using alloc_found_ok [OF E, of k0 i] l(2) k0(4) unfolding a v put by simp
  then show ?thesis
    using mem_stable_trans [OF ms] mem_stable_trans [OF mem_stable_acq [OF E k0(4) ms]]
    unfolding Some option.case by blast
qed

lemma first_unused_Some:
  "first_unused E k = Some i \<Longrightarrow> i < NPROC E \<and> state (procs (rb k) i) = UNUSED"
  by (auto simp: first_unused_def find_Some_iff)

end
