(* ===== verification/Fork.thy ===== *)
theory Fork
  imports Proc_Alloc
begin

text \<open>
  \<open>fork\<close>: the child is a copy of the parent that returns 0, it is published under the two locks
  that protect its fields, and it is queued with virtual runtime 0.
\<close>

section \<open>Open files\<close>

definition dup_list :: "u64 list \<Rightarrow> nat list \<Rightarrow> u64 list \<Rightarrow> u64 list" where
  "dup_list files fds l = fold (\<lambda>fd l. if files ! fd \<noteq> 0 then l[fd := files ! fd] else l) fds l"

lemma length_dup_list [simp]: "length (dup_list files fds l) = length l"
  unfolding dup_list_def by (induction fds arbitrary: l) auto

lemma dup_list_Nil [simp]: "ofile_update (dup_list files []) r = r"
  by (cases r) (simp add: dup_list_def)

lemma dup_list_Cons:
  "files ! fd \<noteq> 0 \<Longrightarrow>
   dup_list files (fd # fds) = (\<lambda>l. dup_list files fds (l[fd := files ! fd]))"
  by (simp add: dup_list_def fun_eq_iff)

lemma ofile_update_dup: "ofile_update (dup_list files fds) r = r\<lparr>ofile := dup_list files fds (ofile r)\<rparr>"
  by (cases r) simp

lemma dup_list_nth:
  "j < length l \<Longrightarrow> dup_list files fds l ! j = (if j \<in> set fds \<and> files ! j \<noteq> 0 then files ! j else l ! j)"
proof (induction fds arbitrary: l)
  case (Cons fd fds)
  have "dup_list files (fd # fds) l = dup_list files fds (if files ! fd \<noteq> 0 then l[fd := files ! fd] else l)"
    by (simp add: dup_list_def)
  then show ?case using Cons by (cases "fd = j") auto
qed (simp add: dup_list_def)

text \<open>\<open>filedup\<close> returns the file it is given, with one more reference.\<close>

definition filedup_ok :: "'m ext \<Rightarrow> bool" where
  "filedup_ok E \<longleftrightarrow> (\<forall>f m. fst (filedup E f m) = f)"

lemma dup_files_ok:
  assumes "filedup_ok E" "p \<noteq> c"
  shows "\<exists>m. dup_files E (Some p) (Some c) fds k = ret (put (ofile_update
    (dup_list (ofile (procs (rb k) p)) fds)) c (k\<lparr>mach := m\<rparr>))"
proof (induction fds arbitrary: k)
  case Nil
  have "put (ofile_update (dup_list files [])) c (k\<lparr>mach := mach k\<rparr>) = k" for files
    by (simp add: put_def)
  then show ?case by (metis dup_files.simps(1))
next
  case (Cons fd fds)
  show ?case
  proof (cases "ofile (procs (rb k) p) ! fd = 0")
    case True
    then show ?thesis using Cons.IH [of k] by (simp add: dup_list_def)
  next
    case False
    define f where "f = ofile (procs (rb k) p) ! fd"
    define k1 where "k1 = put (ofile_update (\<lambda>l. l[fd := f])) c (k\<lparr>mach := snd (filedup E f (mach k))\<rparr>)"
    obtain m where m: "dup_files E (Some p) (Some c) fds k1 = ret (put (ofile_update
        (dup_list (ofile (procs (rb k1) p)) fds)) c (k1\<lparr>mach := m\<rparr>))"
      using Cons.IH [of k1] by blast
    have "dup_files E (Some p) (Some c) (fd # fds) k = dup_files E (Some p) (Some c) fds k1"
      using False assms(1) by (simp add: k1_def f_def mcall_eq filedup_ok_def)
    moreover have "put (ofile_update (dup_list (ofile (procs (rb k1) p)) fds)) c (k1\<lparr>mach := m\<rparr>) =
        put (ofile_update (dup_list (ofile (procs (rb k) p)) (fd # fds))) c (k\<lparr>mach := m\<rparr>)"
      using False assms(2) by (simp add: k1_def f_def put_def dup_list_Cons comp_def)
    ultimately show ?thesis using m by metis
  qed
qed

section \<open>The copy\<close>

definition copied :: "'m ext \<Rightarrow> proc \<Rightarrow> u64 \<Rightarrow> proc \<Rightarrow> proc" where
  "copied E p dir c = c\<lparr>sz := sz p, ofile := dup_list (ofile p) [0..<NOFILE E] (ofile c),
     cwd := dir, name := safestrcpy E (name p) 16\<rparr>"

lemma fork_copy_ok:
  assumes "filedup_ok E" "p \<noteq> c" and tf: "proc.trapframe (procs (rb k) p) \<noteq> 0"
    "proc.trapframe (procs (rb k) c) \<noteq> 0"
  shows "\<exists>m dir. fork_copy E (Some p) (Some c) k = ret (pid (procs (rb k) c),
    put (copied E (procs (rb k) p) dir) c (k\<lparr>mach := m, tframes := (tframes k)
      (proc.trapframe (procs (rb k) c) := (tframes k (proc.trapframe (procs (rb k) p)))\<lparr>tf_a0 := 0\<rparr>)\<rparr>))"
proof -
  define P where "P = procs (rb k) p"
  define k1 where "k1 = put (sz_update (\<lambda>_. sz P)) c k"
  define k2 where "k2 = k1\<lparr>tframes := (tframes k)
      (proc.trapframe (procs (rb k) c) := (tframes k (proc.trapframe P))\<lparr>tf_a0 := 0\<rparr>)\<rparr>"
  obtain m where m: "dup_files E (Some p) (Some c) [0..<NOFILE E] k2 = ret (put (ofile_update
      (dup_list (ofile P) [0..<NOFILE E])) c (k2\<lparr>mach := m\<rparr>))"
    using dup_files_ok [OF assms(1,2), of "[0..<NOFILE E]" k2] assms(2)
    by (auto simp: k2_def k1_def P_def)
  define dir where "dir = fst (idup E (cwd P) m)"
  define m' where "m' = snd (idup E (cwd P) m)"
  have "fork_copy E (Some p) (Some c) k = kbind (dup_files E (Some p) (Some c) [0..<NOFILE E] k2) (\<lambda>k.
     kbind (pget cwd (Some p) k) (\<lambda>dir.
     let (ip, k) = mcall (idup E dir) k in
     kbind (pset (cwd_update (\<lambda>_. ip)) (Some c) k) (\<lambda>k.
     kbind (pget name (Some p) k) (\<lambda>nm.
     kbind (pset (name_update (\<lambda>_. safestrcpy E nm 16)) (Some c) k) (\<lambda>k.
     kbind (pget pid (Some c) k) (\<lambda>n.
     ret (n, k)))))))"
    using assms(2) tf by (simp add: fork_copy_def tf_get_def tf_set_def k2_def k1_def P_def)
  also have "\<dots> = ret (pid (procs (rb k) c), put (copied E P dir) c (k2\<lparr>mach := m'\<rparr>))"
    using assms(2) unfolding m
    by (simp add: mcall_eq dir_def m'_def k2_def k1_def P_def put_def copied_def ofile_update_dup)
  also have "put (copied E P dir) c (k2\<lparr>mach := m'\<rparr>) = put (copied E P dir) c (k\<lparr>mach := m', tframes := (tframes k)
      (proc.trapframe (procs (rb k) c) := (tframes k (proc.trapframe P))\<lparr>tf_a0 := 0\<rparr>)\<rparr>)"
    by (simp add: k2_def k1_def put_def copied_def)
  finally show ?thesis unfolding P_def by blast
qed

section \<open>The publication\<close>

lemma fork_publish_ok:
  fixes p :: ptr
  assumes E: "spin_ok E" and l: "locks k0 = []" and k: "mem_stable (acq E (Proc_lock c) k0) k"
    and t: "table_ok E k q" and c: "c < NPROC E" "c \<notin> set q"
  defines "ready_c \<equiv> put (\<lambda>r. r\<lparr>parent := p, state := RUNNABLE\<rparr>) c k"
  shows "\<exists>k'. fork_publish E p (Some c) k = ret k' \<and> mem_stable k0 k' \<and> nextpid k' = nextpid k \<and>
    tframes k' = tframes k \<and> table_ok E k' (queue_in ready_c c q) \<and>
    tree_frame (insert c (set q)) (rb ready_c) (rb k')"
proof -
  have l0: "x \<notin> set (locks k0)" for x using l by simp
  define k1 where "k1 = rel E (Proc_lock c) k"
  note s1 = mem_stable_section [OF E l0 k, folded k1_def]
  have l1: "x \<notin> set (locks k1)" for x using mem_stable_views(1) [OF s1(2)] l by simp
  define k2 where "k2 = put (parent_update (\<lambda>_. p)) c (acq E Wait_lock k1)"
  have m2: "mem_stable (acq E Wait_lock k1) k2" by (simp add: k2_def)
  define k3 where "k3 = rel E Wait_lock k2"
  note s3 = mem_stable_section [OF E l1 m2, folded k3_def]
  have l3: "x \<notin> set (locks k3)" for x
    using mem_stable_views(1) [OF s3(2)] mem_stable_views(1) [OF s1(2)] l by simp
  define k4 where "k4 = put (state_update (\<lambda>_. RUNNABLE)) c (acq E (Proc_lock c) k3)"
  have m4: "mem_stable (acq E (Proc_lock c) k3) k4" by (simp add: k4_def)
  define k5 where "k5 = rel E (Proc_lock c) k4"
  note s5 = mem_stable_section [OF E l3 m4, folded k5_def]
  have m: "mem_stable k0 k5" by (rule mem_stable_trans [OF s1(2) mem_stable_trans [OF s3(2) s5(2)]])
  have l5: "Tree_lock \<notin> set (locks k5)" using mem_stable_views(1) [OF m] l by simp
  have rb5: "rb k5 = rb ready_c"
    by (simp add: k5_def k4_def k3_def k2_def k1_def ready_c_def put_def)
  have o5: "nextpid k5 = nextpid k" "tframes k5 = tframes k"
    by (simp_all add: k5_def k4_def k3_def k2_def k1_def)
  have "table_ok E ready_c q"
    unfolding ready_c_def by (rule table_ok_put [OF t c(2)])
      (use table_ok_queue(6) [OF t c] in \<open>simp add: insertable_def\<close>)
  then have t5: "table_ok E k5 q" using rb5 by (simp add: table_ok_def)
  have st5: "state (procs (rb k5) c) = RUNNABLE" by (simp add: rb5 ready_c_def)
  obtain k' where k': "insert_ready E (Some c) k5 = ret k'" "stable k5 k'"
    "table_ok E k' (queue_in k5 c q)" "tree_frame (insert c (set q)) (rb k5) (rb k')"
    using insert_ready_ok [OF E l5 t5 c st5] by blast
  have "fork_publish E p (Some c) k = ret k'"
    unfolding fork_publish_def release_p_def acquire_p_def option.case s1(1) kbind_ret
      k1_def [symmetric] acquire_ok(1) [OF E l1] pset_simps k2_def [symmetric] s3(1)
      k3_def [symmetric] acquire_ok(1) [OF E l3] k4_def [symmetric] s5(1) k5_def [symmetric] k'(1) ..
  moreover have "queue_in k5 c q = queue_in ready_c c q" by (simp add: queue_in_def rb5)
  ultimately show ?thesis
    using mem_stable_trans [OF m stable_mem [OF k'(2)]] stable_views [OF k'(2)] k'(3,4) o5
    unfolding rb5 by simp
qed

section \<open>The whole call\<close>

text \<open>The child of \<open>p\<close> in the entry that held \<open>r\<close>.\<close>

definition child_of :: "'m ext \<Rightarrow> nat \<Rightarrow> proc \<Rightarrow> u64 \<Rightarrow> u64 \<Rightarrow> int \<Rightarrow> u64 \<Rightarrow> proc \<Rightarrow> proc" where
  "child_of E p parent_data page pt n dir r =
     (copied E parent_data dir (fresh E page pt n r))\<lparr>parent := Some p, state := RUNNABLE\<rparr>"

text \<open>Nothing changed but entries that were and are unused.\<close>

definition same_used :: "'m kernel \<Rightarrow> 'm kernel \<Rightarrow> bool" where
  "same_used k k' \<longleftrightarrow> procTree (rb k') = procTree (rb k) \<and>
     (\<forall>i. if state (procs (rb k) i) = UNUSED
          then state (procs (rb k') i) = UNUSED \<and> pid (procs (rb k') i) \<in> {0, pid (procs (rb k) i)} \<and>
            niceVal (procs (rb k') i) \<in> {0, niceVal (procs (rb k) i)}
          else procs (rb k') i = procs (rb k) i) \<and>
     nextpid k' \<in> {nextpid k, i32 (nextpid k + 1)}"

lemma same_used_rb: "rb k' = rb k \<Longrightarrow> nextpid k' = nextpid k \<Longrightarrow> same_used k k'"
  by (simp add: same_used_def)

lemma same_usedD:
  assumes "same_used k k'"
  shows "state (procs (rb k) i) \<noteq> UNUSED \<Longrightarrow> procs (rb k') i = procs (rb k) i"
    and "niceVal (procs (rb k') i) \<in> {0, niceVal (procs (rb k) i)}"
proof -
  have s: "if state (procs (rb k) i) = UNUSED
      then state (procs (rb k') i) = UNUSED \<and> pid (procs (rb k') i) \<in> {0, pid (procs (rb k) i)} \<and>
        niceVal (procs (rb k') i) \<in> {0, niceVal (procs (rb k) i)}
      else procs (rb k') i = procs (rb k) i"
    using assms unfolding same_used_def by (elim conjE allE [of _ i])
  then show "state (procs (rb k) i) \<noteq> UNUSED \<Longrightarrow> procs (rb k') i = procs (rb k) i" by simp
  from s show "niceVal (procs (rb k') i) \<in> {0, niceVal (procs (rb k) i)}" by (simp split: if_splits)
qed

lemma same_used_freed:
  "state (procs (rb k) c) = UNUSED \<Longrightarrow> rb k' = rb (put (\<lambda>r. freed (f r)) c k) \<Longrightarrow>
   niceVal (f (procs (rb k) c)) \<in> {0, niceVal (procs (rb k) c)} \<Longrightarrow> nextpid k' = i32 (nextpid k + 1) \<Longrightarrow> same_used k k'"
  by (simp add: same_used_def)

text \<open>The two ways on from an allocated entry: the copy of the memory fails, or all succeeds.\<close>

lemma fork_undone:
  assumes E: "spin_ok E" and t: "table_ok E k q" and c: "c \<notin> set q" "state (procs (rb k) c) = UNUSED"
    and l: "Proc_lock c \<notin> set (locks k)" and m: "mem_stable (acq E (Proc_lock c) k) k1"
    and rb: "rb k1 = rb (put (fresh E page pt (nextpid k)) c k)" and n: "nextpid k1 = i32 (nextpid k + 1)"
  shows "\<exists>k'. kbind (freeproc E (Some c) k1) (\<lambda>k. kbind (release_p E (Some c) k) (\<lambda>k. ret (- 1 :: int, k)))
      = ret (- 1, k') \<and> mem_stable k k' \<and> table_ok E k' q \<and> same_used k k'"
proof -
  obtain m' where m': "freeproc E (Some c) k1 = ret (put freed c (k1\<lparr>mach := m'\<rparr>))"
    using freeproc_ok [of E c k1] by blast
  define k2 where "k2 = put freed c (k1\<lparr>mach := m'\<rparr>)"
  have "mem_stable (acq E (Proc_lock c) k) k2" using m by (simp add: k2_def)
  note sec = mem_stable_section [OF E l this]
  have rb2: "rb k2 = rb (put (\<lambda>r. freed (fresh E page pt (nextpid k) r)) c k)"
    by (simp add: k2_def put_def rb)
  have "table_ok E (put (\<lambda>r. freed (fresh E page pt (nextpid k) r)) c k) q"
    by (rule table_ok_put [OF t c(1)]) (simp add: fresh_def)
  then have "table_ok E (rel E (Proc_lock c) k2) q" unfolding table_ok_views using table_ok_rb [OF rb2] by blast
  moreover have "same_used k (rel E (Proc_lock c) k2)"
    by (rule same_used_freed [OF c(2), of _ "fresh E page pt (nextpid k)"]) (use rb2 n in \<open>simp_all add: k2_def fresh_def\<close>)
  ultimately show ?thesis using m' sec by (simp add: release_p_def k2_def)
qed

lemma fork_done:
  assumes E: "spin_ok E" "filedup_ok E" and t: "table_ok E k q" and c: "c < NPROC E" "c \<notin> set q" "c \<noteq> p"
    and l: "locks k = []" and m: "mem_stable (acq E (Proc_lock c) k) k1"
    and rb: "rb k1 = rb (put (fresh E page pt (nextpid k)) c k)"
    and nz: "page \<noteq> 0" "proc.trapframe (procs (rb k) p) \<noteq> 0"
  shows "\<exists>k' dir. kbind (fork_copy E (Some p) (Some c) k1) (\<lambda>(n, k).
        kbind (fork_publish E (Some p) (Some c) k) (\<lambda>k. ret (n, k))) = ret (nextpid k, k') \<and>
    mem_stable k k' \<and> nextpid k' = nextpid k1 \<and>
    tframes k' = (tframes k1)(page := (tframes k1 (proc.trapframe (procs (rb k) p)))\<lparr>tf_a0 := 0\<rparr>) \<and>
    table_ok E k' (queue_in (put (child_of E p (procs (rb k) p) page pt (nextpid k) dir) c k) c q) \<and>
    tree_frame (insert c (set q)) (rb (put (child_of E p (procs (rb k) p) page pt (nextpid k) dir) c k)) (rb k')"
proof -
  define tf where "tf = (tframes k1)(page := (tframes k1 (proc.trapframe (procs (rb k) p)))\<lparr>tf_a0 := 0\<rparr>)"
  have nz': "proc.trapframe (procs (rb k1) p) \<noteq> 0" "proc.trapframe (procs (rb k1) c) \<noteq> 0"
    using nz c(3) by (simp_all add: rb) (simp add: fresh_def)
  have pc: "pid (procs (rb k1) c) = nextpid k" "proc.trapframe (procs (rb k1) c) = page"
    "procs (rb k1) p = procs (rb k) p" using c(3) by (simp_all add: rb) (simp_all add: fresh_def)
  obtain m' dir where cpy: "fork_copy E (Some p) (Some c) k1 = ret (nextpid k,
      put (copied E (procs (rb k) p) dir) c (k1\<lparr>mach := m', tframes := tf\<rparr>))"
    using fork_copy_ok [OF E(2) c(3) [symmetric] nz'] unfolding pc tf_def by blast
  define k2 where "k2 = put (copied E (procs (rb k) p) dir) c (k1\<lparr>mach := m', tframes := tf\<rparr>)"
  have m2: "mem_stable (acq E (Proc_lock c) k) k2" using m by (simp add: k2_def)
  have rb2: "rb k2 = rb (put (\<lambda>r. copied E (procs (rb k) p) dir (fresh E page pt (nextpid k) r)) c k)"
    by (simp add: k2_def put_def rb)
  have "table_ok E (put (\<lambda>r. copied E (procs (rb k) p) dir (fresh E page pt (nextpid k) r)) c k) q"
    by (rule table_ok_put [OF t c(2)]) (simp add: fresh_def copied_def)
  then have t2: "table_ok E k2 q" using table_ok_rb [OF rb2] by blast
  define k3 where "k3 = put (child_of E p (procs (rb k) p) page pt (nextpid k) dir) c k"
  have rb3: "rb (put (\<lambda>r. r\<lparr>parent := Some p, state := RUNNABLE\<rparr>) c k2) = rb k3"
    by (simp add: put_def rb2 k3_def child_of_def)
  have q3: "queue_in (put (\<lambda>r. r\<lparr>parent := Some p, state := RUNNABLE\<rparr>) c k2) c q = queue_in k3 c q"
    unfolding queue_in_def rb3 ..
  obtain k' where k': "fork_publish E (Some p) (Some c) k2 = ret k'" "mem_stable k k'"
    "nextpid k' = nextpid k2" "tframes k' = tframes k2" "table_ok E k' (queue_in k3 c q)"
    "tree_frame (insert c (set q)) (rb k3) (rb k')"
    using fork_publish_ok [OF E(1) l m2 t2 c(1,2), of "Some p"] unfolding rb3 q3 by blast
  then show ?thesis using cpy by (intro exI [of _ k'] exI [of _ dir]) (simp add: k2_def k3_def tf_def)
qed

lemma fork_ok:
  assumes E: "spin_ok E" "filedup_ok E" and p: "in_kernel E p k" and t: "table_ok E k q"
    and tf: "proc.trapframe (procs (rb k) p) \<noteq> 0"
  shows "\<exists>r k'. fork E k = ret (r, k') \<and> mem_stable k k' \<and>
    (r = - 1 \<and> table_ok E k' q \<and> same_used k k' \<or>
     (\<exists>c page pt dir. first_unused E k = Some c \<and> c \<noteq> p \<and> r = nextpid k \<and>
        nextpid k' = i32 (nextpid k + 1) \<and>
        table_ok E k' (queue_in (put (child_of E p (procs (rb k) p) page pt r dir) c k) c q) \<and>
        tree_frame (insert c (set q)) (rb (put (child_of E p (procs (rb k) p) page pt r dir) c k)) (rb k') \<and>
        (fst (fst (kalloc E (mach k))) \<noteq> proc.trapframe (procs (rb k) p) \<longrightarrow>
          tframes k' page = (tframes k (proc.trapframe (procs (rb k) p)))\<lparr>tf_a0 := 0\<rparr> \<and>
          tframes k' (proc.trapframe (procs (rb k) p)) = tframes k (proc.trapframe (procs (rb k) p)))))"
proof -
  have l: "locks k = []" and me: "myproc k = Some p" and run: "state (procs (rb k) p) = RUNNING"
    using p by (simp_all add: in_kernel_def)
  have free: "proc_free k" "Pid_lock \<notin> set (locks k)" using l by (simp_all add: proc_free_def)
  note alloc = allocproc_ok [OF E(1) free]
  show ?thesis
  proof (cases "first_unused E k")
    case None
    then obtain k' where k': "allocproc E k = ret (None, k')" "stable k k'" "rb k' = rb k"
      using alloc by auto
    then have "fork E k = ret (-1, k')" "table_ok E k' q" using t by (simp_all add: fork_def Let_def table_ok_def)
    then show ?thesis using k' stable_mem [of k k'] same_used_rb [of k' k] stable_views(4) [of k k'] by blast
  next
    case (Some c)
    have c: "c < NPROC E" "state (procs (rb k) c) = UNUSED" using first_unused_Some [OF Some] by auto
    have cq: "c \<notin> set q" using table_ok_queue(4) [OF t, of c] c by auto
    have cp: "c \<noteq> p" using c run by auto
    have lc: "Proc_lock c \<notin> set (locks k)" using l by simp
    have tfreed: "table_ok E (put freed c k) q"
      by (rule table_ok_put [OF t cq]) (use table_ok_queue(6) [OF t c(1) cq] in \<open>simp add: insertable_def\<close>)
    obtain k0 page where page_def: "page = fst (fst (kalloc E (mach k)))"
      and k0: "nextpid k0 = i32 (nextpid k + 1)" "\<forall>a. a \<noteq> page \<longrightarrow> tframes k0 a = tframes k a"
      and cases0: "allocproc E k = ret (None, k0) \<and> mem_stable k k0 \<and> rb k0 = rb (put freed c k) \<or>
       (\<exists>pt. page \<noteq> 0 \<and> pt \<noteq> 0 \<and> allocproc E k = ret (Some c, k0) \<and>
         mem_stable (acq E (Proc_lock c) k) k0 \<and> rb k0 = rb (put (fresh E page pt (nextpid k)) c k))"
      using alloc unfolding Some by auto
    from cases0 show ?thesis
    proof (elim disjE exE conjE)
      assume a: "allocproc E k = ret (None, k0)" "mem_stable k k0" "rb k0 = rb (put freed c k)"
      then have "fork E k = ret (-1, k0)" "table_ok E k0 q" "same_used k k0"
        using tfreed same_used_freed [OF c(2), of k0 "\<lambda>r. r"] k0(1)
        by (simp_all add: fork_def Let_def table_ok_def)
      then show ?thesis using a(2) by blast
    next
      fix pt assume nz: "page \<noteq> 0" and a: "allocproc E k = ret (Some c, k0)"
        and m: "mem_stable (acq E (Proc_lock c) k) k0"
        and rb0: "rb k0 = rb (put (fresh E page pt (nextpid k)) c k)"
      have pp: "procs (rb k0) p = procs (rb k) p" "pagetable (procs (rb k0) c) = pt"
        using cp by (simp_all add: rb0) (simp add: fresh_def)
      define r where "r = fst (uvmcopy E (pagetable (procs (rb k) p)) pt (sz (procs (rb k) p)) (mach k0))"
      define k1 where "k1 = k0\<lparr>mach := snd (uvmcopy E (pagetable (procs (rb k) p)) pt
          (sz (procs (rb k) p)) (mach k0))\<rparr>"
      have f: "fork E k = (if r < 0 then
          kbind (freeproc E (Some c) k1) (\<lambda>k. kbind (release_p E (Some c) k) (\<lambda>k. ret (- 1, k)))
        else kbind (fork_copy E (Some p) (Some c) k1) (\<lambda>(n, k).
          kbind (fork_publish E (Some p) (Some c) k) (\<lambda>k. ret (n, k))))"
        unfolding r_def k1_def by (simp add: fork_def Let_def me a pp mcall_eq split del: if_split cong: if_cong)
      have k1: "mem_stable (acq E (Proc_lock c) k) k1"
        "rb k1 = rb (put (fresh E page pt (nextpid k)) c k)" "nextpid k1 = i32 (nextpid k + 1)"
        using m k0(1) by (simp_all add: k1_def rb0)
      show ?thesis
      proof (cases "r < 0")
        case True
        then show ?thesis using fork_undone [OF E(1) t cq c(2) lc k1] unfolding f by auto
      next
        case False
        have fr: "tframes k1 (proc.trapframe (procs (rb k) p)) = tframes k (proc.trapframe (procs (rb k) p))"
          if "page \<noteq> proc.trapframe (procs (rb k) p)"
          using k0(2) that by (simp add: k1_def)
        obtain k' dir where k': "fork E k = ret (nextpid k, k')" "mem_stable k k'" "nextpid k' = nextpid k1"
          "tframes k' = (tframes k1)(page := (tframes k1 (proc.trapframe (procs (rb k) p)))\<lparr>tf_a0 := 0\<rparr>)"
          "table_ok E k' (queue_in (put (child_of E p (procs (rb k) p) page pt (nextpid k) dir) c k) c q)"
          "tree_frame (insert c (set q))
            (rb (put (child_of E p (procs (rb k) p) page pt (nextpid k) dir) c k)) (rb k')"
          using fork_done [OF E t c(1) cq cp l k1(1,2) nz tf] False unfolding f by auto
        have "tframes k' page = (tframes k (proc.trapframe (procs (rb k) p)))\<lparr>tf_a0 := 0\<rparr> \<and>
          tframes k' (proc.trapframe (procs (rb k) p)) = tframes k (proc.trapframe (procs (rb k) p))"
          if "fst (fst (kalloc E (mach k))) \<noteq> proc.trapframe (procs (rb k) p)"
          using k'(4) fr that page_def by simp
        then show ?thesis using k' k1(3) Some cp by metis
      qed
    qed
  qed
qed

end
