(* ===== verification/Exit_Wait.thy ===== *)
theory Exit_Wait
  imports Fork
begin

text \<open>
  \<open>exit\<close> and \<open>wait\<close>: orphans are handed to the init process, the parent is woken, and a
  zombie is found, reported and freed exactly once.
\<close>

section \<open>Orphans\<close>

definition adopt :: "ptr \<Rightarrow> nat set \<Rightarrow> 'm kernel \<Rightarrow> 'm kernel" where
  "adopt p I k = k\<lparr>rb := (rb k)\<lparr>procs := (\<lambda>j. if j \<in> I \<and> parent (procs (rb k) j) = p
     then (procs (rb k) j)\<lparr>parent := initproc k\<rparr> else procs (rb k) j)\<rparr>\<rparr>"

lemma redata_parent:
  "redata r s \<Longrightarrow> redata (r\<lparr>parent := x\<rparr>) (s\<lparr>parent := x\<rparr>)"
  by (cases r, cases s) (simp add: redata_def)

lemma make_runnable_parent: "make_runnable (r\<lparr>parent := x\<rparr>) = (make_runnable r)\<lparr>parent := x\<rparr>"
  by (cases r) (simp add: make_runnable_def)

lemma wakes_adopt:
  assumes w: "wakes A k k'" and i: "initproc k' = initproc k"
  shows "wakes A (adopt p I k) (adopt p I k')"
  unfolding wakes_def
proof
  fix j
  have r: "redata (if j \<in> A then make_runnable (procs (rb k) j) else procs (rb k) j) (procs (rb k') j)"
    using w by (simp add: wakes_def)
  show "redata (if j \<in> A then make_runnable (procs (rb (adopt p I k)) j)
      else procs (rb (adopt p I k)) j) (procs (rb (adopt p I k')) j)"
    using r redata_parent [OF r, of "initproc k"] wakes_fields(4) [OF w, of j] i
    by (auto simp: adopt_def make_runnable_parent split: if_splits)
qed

lemma adopt_Nil [simp]: "adopt p {} k = k"
  by (simp add: adopt_def)

lemma adopt_fields [simp]:
  "state (procs (rb (adopt p I k)) j) = state (procs (rb k) j)"
  "chan (procs (rb (adopt p I k)) j) = chan (procs (rb k) j)"
  "parent (procs (rb (adopt p I k)) j) =
    (if j \<in> I \<and> parent (procs (rb k) j) = p then initproc k else parent (procs (rb k) j))"
  by (simp_all add: adopt_def)

lemma adopt_skip:
  assumes "parent (procs (rb k) i) \<noteq> p"
  shows "adopt p (insert i I) k = adopt p I k"
proof -
  have "(\<lambda>j. if j \<in> insert i I \<and> parent (procs (rb k) j) = p
      then (procs (rb k) j)\<lparr>parent := initproc k\<rparr> else procs (rb k) j) =
    (\<lambda>j. if j \<in> I \<and> parent (procs (rb k) j) = p
      then (procs (rb k) j)\<lparr>parent := initproc k\<rparr> else procs (rb k) j)"
    using assms by auto
  then show ?thesis unfolding adopt_def by (rule arg_cong)
qed

lemma adopt_take:
  assumes "parent (procs (rb k) i) = p" "p \<noteq> initproc k"
  shows "adopt p I (put (parent_update (\<lambda>_. initproc k)) i k) = adopt p (insert i I) k"
proof -
  have "procs (rb (adopt p I (put (parent_update (\<lambda>_. initproc k)) i k))) j =
      procs (rb (adopt p (insert i I) k)) j" for j
    using assms by (auto simp: adopt_def)
  then have "procs (rb (adopt p I (put (parent_update (\<lambda>_. initproc k)) i k))) =
      procs (rb (adopt p (insert i I) k))" ..
  then show ?thesis
    by (intro kernel.equality rbs.equality) (simp_all add: adopt_def)
qed

lemma reparent_ok:
  fixes "is" :: "nat list" and k :: "'m kernel"
  assumes E: "spin_ok E" and f: "proc_free k" and t: "table_ok E k q" and p: "p \<noteq> initproc k"
  defines "A \<equiv> if \<exists>i \<in> set is. parent (procs (rb k) i) = p
    then {..<NPROC E} \<inter> sleeping_on k (chan_of (initproc k)) else {}"
  shows "\<exists>k' q'. reparent E p is k = ret k' \<and> stable k k' \<and> table_ok E k' q' \<and>
    set q' = set q \<union> A \<and> wakes A (adopt p (set is) k) k'"
  using f t p unfolding A_def
proof (induction "is" arbitrary: k q)
  case Nil
  then show ?case by auto
next
  case (Cons i "is")
  show ?case
  proof (cases "parent (procs (rb k) i) = p")
    case False
    have "adopt p (set (i # is)) k = adopt p (set is) k"
      using adopt_skip [OF False] by simp
    then show ?thesis using Cons.IH [OF Cons.prems] False by simp
  next
    case True
    define ch where "ch = chan_of (initproc k)"
    define k1 where "k1 = put (parent_update (\<lambda>_. initproc k)) i k"
    define S where "S = {..<NPROC E} \<inter> sleeping_on k ch"
    have t1: "table_ok E k1 q"
      unfolding k1_def by (rule table_ok_put_same [OF Cons.prems(2)]) (simp_all add: links_def)
    have f1: "proc_free k1" using Cons.prems(1) by (simp add: k1_def proc_free_def)
    have s1: "sleeping_on k1 ch = sleeping_on k ch"
      by (auto simp: sleeping_on_def k1_def)
    obtain k2 q2 where k2: "wakeup E ch k1 = ret k2" "stable k1 k2" "wakes S k1 k2"
      "table_ok E k2 q2" "set q2 = set q \<union> S"
      using wakeup_ok [OF E f1 t1, of ch] unfolding s1 S_def by blast
    note v = stable_views [OF k2(2)]
    have i2: "initproc k2 = initproc k" using v by (simp add: k1_def)
    have f2: "proc_free k2" using f1 v by (simp add: proc_free_def)
    have none: "{..<NPROC E} \<inter> sleeping_on k2 ch = {}"
      using wakes_fields [OF k2(3)] v s1 by (auto simp: sleeping_on_def S_def k1_def split: if_splits)
    obtain k' q' where k': "reparent E p is k2 = ret k'" "stable k2 k'" "table_ok E k' q'"
      "set q' = set q2" "wakes {} (adopt p (set is) k2) k'"
      using Cons.IH [OF f2 k2(4)] Cons.prems(3) unfolding i2 ch_def [symmetric] none by auto
    have r: "reparent E p (i # is) k = ret k'"
      using True k2(1) k'(1) by (simp add: k1_def ch_def)
    have "wakes S (adopt p (set is) k1) (adopt p (set is) k2)"
      by (rule wakes_adopt [OF k2(3)]) (simp add: i2 k1_def)
    from wakes_trans [OF this k'(5)]
    have "wakes S (adopt p (set is) k1) k'" by simp
    moreover have "adopt p (set is) k1 = adopt p (set (i # is)) k"
      using adopt_take [OF True Cons.prems(3)] by (simp add: k1_def)
    ultimately have "wakes S (adopt p (set (i # is)) k) k'" by simp
    moreover have "stable k k'" using stable_trans [OF k2(2) k'(2)] by (simp add: k1_def put_def)
    moreover have "set q' = set q \<union> S" using k'(4) k2(5) by simp
    ultimately show ?thesis using r k'(3) True unfolding S_def ch_def by auto
  qed
qed

section \<open>exit\<close>

text \<open>
  What the kernel keeps for process \<open>p\<close> in the file system: the references it holds to open files
  and to directories, and whether it is inside a transaction. A call may sleep, so that other
  processes run and the ready queue changes; \<open>fs_call\<close> says that it returns, that the process then
  runs again without a lock and with the same open files, directory and init process, and how
  its references have changed. \<open>fs_ok\<close> is the documented use of the four calls of \<open>exit\<close>: only a
  reference one holds can be given back, an inode only inside a transaction, and transactions do
  not nest.
\<close>

record fs_view =
  open_refs :: "u64 multiset"
  dir_refs :: "u64 multiset"
  in_op :: bool

definition fs_call :: "'m ext \<Rightarrow> nat \<Rightarrow> ('m \<Rightarrow> fs_view) \<Rightarrow> fs_view \<Rightarrow> fs_view \<Rightarrow>
    ('m kernel \<Rightarrow> 'm kernel kres) \<Rightarrow> bool" where
  "fs_call E p V v v' f \<longleftrightarrow> (\<forall>k q. in_kernel E p k \<longrightarrow> table_ok E k q \<longrightarrow> V (mach k) = v \<longrightarrow>
     (\<exists>k' q'. f k = ret k' \<and> in_kernel E p k' \<and> table_ok E k' q' \<and> initproc k' = initproc k \<and>
        ofile (procs (rb k') p) = ofile (procs (rb k) p) \<and> cwd (procs (rb k') p) = cwd (procs (rb k) p) \<and>
        V (mach k') = v'))"

definition fs_ok :: "'m ext \<Rightarrow> nat \<Rightarrow> ('m \<Rightarrow> fs_view) \<Rightarrow> bool" where
  "fs_ok E p V \<longleftrightarrow>
     (\<forall>v f. f \<in># open_refs v \<longrightarrow> \<not> in_op v \<longrightarrow>
        fs_call E p V v (v\<lparr>open_refs := open_refs v - {#f#}\<rparr>) (fileclose E f)) \<and>
     (\<forall>v. \<not> in_op v \<longrightarrow> fs_call E p V v (v\<lparr>in_op := True\<rparr>) (begin_op E)) \<and>
     (\<forall>v d. d \<in># dir_refs v \<longrightarrow> in_op v \<longrightarrow>
        fs_call E p V v (v\<lparr>dir_refs := dir_refs v - {#d#}\<rparr>) (iput E d)) \<and>
     (\<forall>v. in_op v \<longrightarrow> fs_call E p V v (v\<lparr>in_op := False\<rparr>) (end_op E))"

text \<open>The references that the open files of a process are.\<close>

definition refs_of :: "u64 list \<Rightarrow> u64 multiset" where
  "refs_of files = mset (filter (\<lambda>f. f \<noteq> 0) files)"

lemma refs_of_Cons: "refs_of (f # fs) = (if f = 0 then refs_of fs else add_mset f (refs_of fs))"
  by (simp add: refs_of_def)

lemma in_kernel_put:
  "in_kernel E p k \<Longrightarrow> state (u (procs (rb k) i)) = state (procs (rb k) i) \<Longrightarrow> in_kernel E p (put u i k)"
  by (cases "p = i") (simp_all add: in_kernel_def)

lemma close_files_ok:
  assumes fs: "fs_ok E p V" and k: "in_kernel E p k" "table_ok E k q" "\<not> in_op (V (mach k))"
    and fds: "distinct fds" "\<forall>fd \<in> set fds. fd < length (ofile (procs (rb k) p))"
    and own: "refs_of (map ((!) (ofile (procs (rb k) p))) fds) \<subseteq># open_refs (V (mach k))"
  shows "\<exists>k' q'. close_files E (Some p) fds k = ret k' \<and> in_kernel E p k' \<and> table_ok E k' q' \<and>
    initproc k' = initproc k \<and> cwd (procs (rb k') p) = cwd (procs (rb k) p) \<and>
    length (ofile (procs (rb k') p)) = length (ofile (procs (rb k) p)) \<and>
    (\<forall>fd \<in> set fds. ofile (procs (rb k') p) ! fd = 0) \<and>
    (\<forall>j. ofile (procs (rb k) p) ! j = 0 \<longrightarrow> j < length (ofile (procs (rb k) p)) \<longrightarrow> ofile (procs (rb k') p) ! j = 0) \<and>
    V (mach k') = (V (mach k))\<lparr>open_refs := open_refs (V (mach k)) -
      refs_of (map ((!) (ofile (procs (rb k) p))) fds)\<rparr>"
  using k fds own
proof (induction fds arbitrary: k q)
  case Nil
  then show ?case by (auto simp: refs_of_def)
next
  case (Cons fd fds)
  let ?o = "ofile (procs (rb k) p)"
  show ?case
  proof (cases "?o ! fd = 0")
    case True
    have "\<exists>k' q'. close_files E (Some p) fds k = ret k' \<and> in_kernel E p k' \<and> table_ok E k' q' \<and>
      initproc k' = initproc k \<and> cwd (procs (rb k') p) = cwd (procs (rb k) p) \<and>
      length (ofile (procs (rb k') p)) = length ?o \<and> (\<forall>fd \<in> set fds. ofile (procs (rb k') p) ! fd = 0) \<and>
      (\<forall>j. ?o ! j = 0 \<longrightarrow> j < length ?o \<longrightarrow> ofile (procs (rb k') p) ! j = 0) \<and>
      V (mach k') = (V (mach k))\<lparr>open_refs := open_refs (V (mach k)) - refs_of (map ((!) ?o) fds)\<rparr>"
      by (rule Cons.IH [OF Cons.prems(1-3)]) (use Cons.prems(4-6) True in \<open>simp_all add: refs_of_Cons\<close>)
    then show ?thesis using True Cons.prems(5) by (auto simp: refs_of_Cons)
  next
    case False
    define v where "v = V (mach k)"
    have "?o ! fd \<in># open_refs v"
      using Cons.prems(6) False by (simp add: refs_of_Cons v_def insert_subset_eq_iff)
    then have "fs_call E p V v (v\<lparr>open_refs := open_refs v - {#?o ! fd#}\<rparr>) (fileclose E (?o ! fd))"
      using fs Cons.prems(3) by (simp add: fs_ok_def v_def)
    then obtain k1 q1 where k1: "fileclose E (?o ! fd) k = ret k1" "in_kernel E p k1" "table_ok E k1 q1"
      "initproc k1 = initproc k" "ofile (procs (rb k1) p) = ?o" "cwd (procs (rb k1) p) = cwd (procs (rb k) p)"
      "V (mach k1) = v\<lparr>open_refs := open_refs v - {#?o ! fd#}\<rparr>"
      using Cons.prems(1,2) unfolding fs_call_def v_def by blast
    define k2 where "k2 = put (ofile_update (\<lambda>l. l[fd := 0])) p k1"
    have o2: "ofile (procs (rb k2) p) = ?o[fd := 0]" using k1(5) by (simp add: k2_def)
    have i2: "in_kernel E p k2" using k1(2) by (simp add: k2_def in_kernel_put)
    have t2: "table_ok E k2 q1"
      unfolding k2_def by (rule table_ok_put_same [OF k1(3)]) (simp_all add: links_def)
    have m2: "mach k2 = mach k1" by (simp add: k2_def)
    have same: "map ((!) (ofile (procs (rb k2) p))) fds = map ((!) ?o) fds"
      by (intro map_cong refl) (metis Cons.prems(4) distinct.simps(2) nth_list_update_neq o2)
    have op2: "\<not> in_op (V (mach k2))" using Cons.prems(3) k1(7) by (simp add: m2 v_def)
    have own2: "refs_of (map ((!) (ofile (procs (rb k2) p))) fds) \<subseteq># open_refs (V (mach k2))"
      unfolding same m2 k1(7) using Cons.prems(6) False by (simp add: refs_of_Cons v_def insert_subset_eq_iff)
    have "\<exists>k' q'. close_files E (Some p) fds k2 = ret k' \<and> in_kernel E p k' \<and> table_ok E k' q' \<and>
      initproc k' = initproc k2 \<and> cwd (procs (rb k') p) = cwd (procs (rb k2) p) \<and>
      length (ofile (procs (rb k') p)) = length (ofile (procs (rb k2) p)) \<and>
      (\<forall>fd \<in> set fds. ofile (procs (rb k') p) ! fd = 0) \<and>
      (\<forall>j. ofile (procs (rb k2) p) ! j = 0 \<longrightarrow> j < length (ofile (procs (rb k2) p)) \<longrightarrow>
        ofile (procs (rb k') p) ! j = 0) \<and>
      V (mach k') = (V (mach k2))\<lparr>open_refs := open_refs (V (mach k2)) -
        refs_of (map ((!) (ofile (procs (rb k2) p))) fds)\<rparr>"
      by (rule Cons.IH [OF i2 t2 op2 _ _ own2]) (use Cons.prems(4,5) in \<open>simp_all add: o2\<close>)
    then obtain k' q' where k': "close_files E (Some p) fds k2 = ret k'" "in_kernel E p k'" "table_ok E k' q'"
      "initproc k' = initproc k2" "cwd (procs (rb k') p) = cwd (procs (rb k2) p)"
      "length (ofile (procs (rb k') p)) = length (ofile (procs (rb k2) p))"
      "\<forall>fd \<in> set fds. ofile (procs (rb k') p) ! fd = 0"
      "\<forall>j. ofile (procs (rb k2) p) ! j = 0 \<longrightarrow> j < length (ofile (procs (rb k2) p)) \<longrightarrow>
        ofile (procs (rb k') p) ! j = 0"
      "V (mach k') = (V (mach k2))\<lparr>open_refs := open_refs (V (mach k2)) -
        refs_of (map ((!) (ofile (procs (rb k2) p))) fds)\<rparr>"
      by blast
    have "close_files E (Some p) (fd # fds) k = ret k'"
      using False k1(1) k'(1) by (simp add: k2_def)
    moreover have "V (mach k') = v\<lparr>open_refs := open_refs v - refs_of (map ((!) ?o) (fd # fds))\<rparr>"
      using k'(9) k1(7) False by (simp add: m2 same refs_of_Cons)
    moreover have "ofile (procs (rb k') p) ! fd = 0" "\<forall>j. ?o ! j = 0 \<longrightarrow> j < length ?o \<longrightarrow> ofile (procs (rb k') p) ! j = 0"
      using k'(8) Cons.prems(5) by (auto simp: o2 nth_list_update)
    ultimately show ?thesis
      using k'(2-7) k1(4,5,6) unfolding v_def
      by (intro exI [of _ k'] exI [of _ q']) (simp add: k2_def)
  qed
qed

text \<open>
  What is true when an exiting process gives up the CPU for good: it is a zombie with its exit
  status, without open files, directory and children, it holds its own lock only, and its
  parent is not asleep in \<open>wait\<close>.
\<close>

definition dead :: "'m ext \<Rightarrow> nat \<Rightarrow> int \<Rightarrow> 'm kernel \<Rightarrow> bool" where
  "dead E p status k \<longleftrightarrow> myproc k = Some p \<and> locks k = [Proc_lock p] \<and>
     state (procs (rb k) p) = ZOMBIE \<and> xstate (procs (rb k) p) = status \<and>
     (\<forall>fd < NOFILE E. fd < length (ofile (procs (rb k) p)) \<longrightarrow> ofile (procs (rb k) p) ! fd = 0) \<and>
     cwd (procs (rb k) p) = 0 \<and> (\<forall>i < NPROC E. parent (procs (rb k) i) \<noteq> Some p) \<and>
     (\<forall>f < NPROC E. f \<noteq> p \<longrightarrow> parent (procs (rb k) p) = Some f \<longrightarrow>
        \<not> (state (procs (rb k) f) = SLEEPING \<and> chan (procs (rb k) f) = Some (Ch_proc f))) \<and>
     (\<exists>q. table_ok E k q \<and> p \<notin> set q)"

lemma wakes_more_fields:
  assumes "wakes A k k'"
  shows "ofile (procs (rb k') i) = ofile (procs (rb k) i)" "cwd (procs (rb k') i) = cwd (procs (rb k) i)"
    "xstate (procs (rb k') i) = xstate (procs (rb k) i)"
proof -
  have "redata (if i \<in> A then make_runnable (procs (rb k) i) else procs (rb k) i) (procs (rb k') i)"
    using assms by (simp add: wakes_def)
  note f = redata_fields [OF this]
  show "ofile (procs (rb k') i) = ofile (procs (rb k) i)" "cwd (procs (rb k') i) = cwd (procs (rb k) i)"
    "xstate (procs (rb k') i) = xstate (procs (rb k) i)"
    using f by (simp_all add: make_runnable_def)
qed

lemma exit_tail:
  assumes E: "spin_ok E" "intr_ok E" and k: "in_kernel E p k" and t: "table_ok E k q"
    and ip: "initproc k \<noteq> Some p"
    and o: "\<forall>fd < NOFILE E. fd < length (ofile (procs (rb k) p)) \<longrightarrow> ofile (procs (rb k) p) ! fd = 0"
    and c: "cwd (procs (rb k) p) = 0"
  shows "\<exists>k1. kbind (acquire E Wait_lock k) (\<lambda>k.
      kbind (reparent E (Some p) [0..<NPROC E] k) (\<lambda>k.
      kbind (pget parent (Some p) k) (\<lambda>q.
      kbind (wakeup E (chan_of q) k) (\<lambda>k.
      kbind (acquire_p E (Some p) k) (\<lambda>k.
      kbind (pset (\<lambda>r. r\<lparr>xstate := status, state := ZOMBIE\<rparr>) (Some p) k) (\<lambda>k.
      kbind (release E Wait_lock k) (\<lambda>k.
      kbind (sched E k) (\<lambda>k.
      err (Panic ''zombie exit''))))))))) =
    resume_with E k1 (\<lambda>k. err (Panic ''zombie exit'') :: 'm kernel kres) \<and> dead E p status k1 \<and>
    mach k1 = mach k"
proof -
  have l: "locks k = []" and me: "myproc k = Some p" and i: "p < NPROC E" and n: "noff (mycpu k) = 0"
    and run: "state (procs (rb k) p) = RUNNING" using k by (simp_all add: in_kernel_def)
  have lw: "Wait_lock \<notin> set (locks k)" using l by simp
  define k1 where "k1 = acq E Wait_lock k"
  note a1 = acquire_ok [OF E(1) lw, folded k1_def]
  have t1: "table_ok E k1 q" using t by (simp add: k1_def)
  have f1: "proc_free k1" using a1 l by (simp add: proc_free_def)
  have ip1: "Some p \<noteq> initproc k1" using ip by (simp add: k1_def)
  define A where "A = (if \<exists>i \<in> set [0..<NPROC E]. parent (procs (rb k1) i) = Some p
      then {..<NPROC E} \<inter> sleeping_on k1 (chan_of (initproc k1)) else {})"
  obtain k2 q2 where k2: "reparent E (Some p) [0..<NPROC E] k1 = ret k2" "stable k1 k2"
    "table_ok E k2 q2" "wakes A (adopt (Some p) (set [0..<NPROC E]) k1) k2"
    using reparent_ok [OF E(1) f1 t1 ip1, of "[0..<NPROC E]"] unfolding A_def by blast
  note v2 = stable_views [OF k2(2)]
  have f2: "proc_free k2" using f1 v2 by (simp add: proc_free_def)
  define ch where "ch = chan_of (parent (procs (rb k2) p))"
  define B where "B = {..<NPROC E} \<inter> sleeping_on k2 ch"
  obtain k3 q3 where k3: "wakeup E ch k2 = ret k3" "stable k2 k3" "wakes B k2 k3" "table_ok E k3 q3"
    using wakeup_ok [OF E(1) f2 k2(3), of ch] unfolding B_def by blast
  note v3 = stable_views [OF k3(2)]
  have lp3: "Proc_lock p \<notin> set (locks k3)" using v2 v3 a1 l by simp
  define k4 where "k4 = put (\<lambda>r. r\<lparr>xstate := status, state := ZOMBIE\<rparr>) p (acq E (Proc_lock p) k3)"
  note a3 = acquire_ok [OF E(1) lp3]
  have lw4: "Wait_lock \<in> set (locks k4)" using a3 v2 v3 a1 by (simp add: k4_def)
  define k5 where "k5 = rel E Wait_lock k4"
  note r5 = release_ok [OF E(1) lw4, folded k5_def]
  have me2: "Some p = myproc k2" using v2 a1 me by simp
  have nA: "p \<notin> A" "p \<notin> B" using me2 a1 me by (auto simp: A_def B_def sleeping_on_def)
  have s2: "state (procs (rb k2) j) = (if j \<in> A then RUNNABLE else state (procs (rb k) j))"
    "parent (procs (rb k2) j) = (if j < NPROC E \<and> parent (procs (rb k) j) = Some p
      then initproc k else parent (procs (rb k) j))"
    "ofile (procs (rb k2) p) = ofile (procs (rb k) p)" "cwd (procs (rb k2) p) = cwd (procs (rb k) p)"
    for j
    using wakes_fields [OF k2(4)] wakes_more_fields [OF k2(4), of p]
    by (simp_all add: k1_def) (simp_all add: adopt_def)
  have s3: "state (procs (rb k3) p) = RUNNING" using wakes_fields(1) [OF k3(3), of p] s2(1) nA run by simp
  have p3: "p \<notin> set q3" using table_ok_queue(4) [OF k3(4), of p] s3 by auto
  have t4: "table_ok E k4 q3"
    unfolding k4_def by (rule table_ok_put) (use k3(4) p3 table_ok_queue(6) [OF k3(4) i p3] in
      \<open>simp_all add: insertable_def\<close>)
  have t5: "table_ok E k5 q3" using t4 by (simp add: k5_def)
  have st5: "myproc k5 = Some p" "locks k5 = [Proc_lock p]" "noff (mycpu k5) = 1"
    "state (procs (rb k5) p) = ZOMBIE"
    using r5 a3 v2 v3 a1 me l n by (simp_all add: k4_def k5_def)
  have rb5: "procs (rb k5) = (procs (rb k3))(p := (procs (rb k3) p)\<lparr>xstate := status, state := ZOMBIE\<rparr>)"
    by (simp add: k5_def k4_def)
  have par3: "parent (procs (rb k3) j) = parent (procs (rb k2) j)" for j
    using wakes_fields(4) [OF k3(3)] .
  have orphan: "parent (procs (rb k5) j) \<noteq> Some p" if "j < NPROC E" for j
    using that ip by (auto simp: rb5 par3 s2(2))
  have awake: "\<not> (state (procs (rb k5) g) = SLEEPING \<and> chan (procs (rb k5) g) = Some (Ch_proc g))"
    if g: "g < NPROC E" "g \<noteq> p" "parent (procs (rb k5) p) = Some g" for g
  proof -
    have "ch = Some (Ch_proc g)" using g(3) by (simp add: ch_def rb5 par3 chan_of_def)
    then show ?thesis
      using wakes_fields(1,2) [OF k3(3), of g] g(1,2) me2 [symmetric]
      by (auto simp: rb5 B_def sleeping_on_def split: if_splits)
  qed
  have d: "dead E p status k5"
    unfolding dead_def using st5 orphan awake t5 p3 o c wakes_more_fields(1,2) [OF k3(3), of p] s2(3,4)
    by (auto simp: rb5)
  have "sched E k5 = kbind (swtch E (Ctx_proc p) (Ctx_cpu (cpuid k5)) k5)
      (\<lambda>k'. ret (set_mycpu (intena_update (\<lambda>_. intena (mycpu k5))) k'))"
    by (rule sched_switches [OF E st5(1) _ st5(3)]) (simp_all add: st5)
  then have "kbind (sched E k5) (\<lambda>k. err (Panic ''zombie exit'') :: 'm kernel kres) =
      resume_with E k5 (\<lambda>k. err (Panic ''zombie exit''))"
    by (simp add: resume_with_def st5(1) kbind_assoc)
  moreover have "mach k5 = mach k" using v2 v3 by (simp add: k5_def k4_def k1_def)
  ultimately show ?thesis
    using d a1(1) k2(1) k3(1) a3(1) r5(1)
    by (intro exI [of _ k5]) (simp add: ch_def k4_def acquire_p_def)
qed

lemma exit_ok:
  assumes E: "spin_ok E" "intr_ok E" "fs_ok E p V" and k: "in_kernel E p k" and t: "table_ok E k q"
    and ip: "initproc k \<noteq> Some p" and len: "length (ofile (procs (rb k) p)) = NOFILE E"
    and own: "\<not> in_op (V (mach k))" "refs_of (ofile (procs (rb k) p)) \<subseteq># open_refs (V (mach k))"
      "cwd (procs (rb k) p) \<in># dir_refs (V (mach k))"
  shows "\<exists>k1. exit E status k = resume_with E k1 (\<lambda>k. err (Panic ''zombie exit'')) \<and> dead E p status k1 \<and>
    V (mach k1) = \<lparr>open_refs = open_refs (V (mach k)) - refs_of (ofile (procs (rb k) p)),
      dir_refs = dir_refs (V (mach k)) - {#cwd (procs (rb k) p)#}, in_op = False\<rparr>"
proof -
  define v where "v = (V (mach k))\<lparr>open_refs := open_refs (V (mach k)) - refs_of (ofile (procs (rb k) p))\<rparr>"
  define d where "d = cwd (procs (rb k) p)"
  have o: "map ((!) (ofile (procs (rb k) p))) [0..<NOFILE E] = ofile (procs (rb k) p)"
    using map_nth [of "ofile (procs (rb k) p)"] len by simp
  obtain k1 q1 where k1: "close_files E (Some p) [0..<NOFILE E] k = ret k1" "in_kernel E p k1" "table_ok E k1 q1"
    "initproc k1 = initproc k" "cwd (procs (rb k1) p) = d" "V (mach k1) = v"
    "\<forall>fd < NOFILE E. ofile (procs (rb k1) p) ! fd = 0"
    using close_files_ok [OF E(3) k t own(1), of "[0..<NOFILE E]"] own(2) len
    unfolding o v_def [symmetric] d_def [symmetric] by auto
  have "\<not> in_op v" using own(1) by (simp add: v_def)
  then have "fs_call E p V v (v\<lparr>in_op := True\<rparr>) (begin_op E)" using E(3) by (simp add: fs_ok_def)
  then obtain k2 q2 where k2: "begin_op E k1 = ret k2" "in_kernel E p k2" "table_ok E k2 q2"
    "initproc k2 = initproc k" "cwd (procs (rb k2) p) = d" "V (mach k2) = v\<lparr>in_op := True\<rparr>"
    "ofile (procs (rb k2) p) = ofile (procs (rb k1) p)"
    using k1 unfolding fs_call_def by metis
  define w where "w = v\<lparr>in_op := True, dir_refs := dir_refs v - {#d#}\<rparr>"
  have "d \<in># dir_refs (v\<lparr>in_op := True\<rparr>)" "in_op (v\<lparr>in_op := True\<rparr>)" using own(3) by (simp_all add: v_def d_def)
  then have "fs_call E p V (v\<lparr>in_op := True\<rparr>) ((v\<lparr>in_op := True\<rparr>)\<lparr>dir_refs :=
      dir_refs (v\<lparr>in_op := True\<rparr>) - {#d#}\<rparr>) (iput E d)"
    using E(3) unfolding fs_ok_def by blast
  then have "fs_call E p V (v\<lparr>in_op := True\<rparr>) w (iput E d)" by (simp add: w_def)
  then obtain k3 q3 where k3: "iput E d k2 = ret k3" "in_kernel E p k3" "table_ok E k3 q3"
    "initproc k3 = initproc k" "V (mach k3) = w" "ofile (procs (rb k3) p) = ofile (procs (rb k1) p)"
    using k2 unfolding fs_call_def by metis
  have "in_op w" by (simp add: w_def)
  then have "fs_call E p V w (w\<lparr>in_op := False\<rparr>) (end_op E)" using E(3) by (simp add: fs_ok_def)
  then obtain k4 q4 where k4: "end_op E k3 = ret k4" "in_kernel E p k4" "table_ok E k4 q4"
    "initproc k4 = initproc k" "V (mach k4) = w\<lparr>in_op := False\<rparr>" "ofile (procs (rb k4) p) = ofile (procs (rb k1) p)"
    using k3 unfolding fs_call_def by metis
  define k5 where "k5 = put (cwd_update (\<lambda>_. 0)) p k4"
  have i5: "in_kernel E p k5" using k4(2) by (simp add: k5_def in_kernel_put)
  have t5: "table_ok E k5 q4"
    unfolding k5_def by (rule table_ok_put_same [OF k4(3)]) (simp_all add: links_def)
  have s5: "initproc k5 \<noteq> Some p" "cwd (procs (rb k5) p) = 0"
    "\<forall>fd < NOFILE E. fd < length (ofile (procs (rb k5) p)) \<longrightarrow> ofile (procs (rb k5) p) ! fd = 0"
    using ip k1(7) k4(4,6) by (simp_all add: k5_def)
  define tail where "tail = (\<lambda>k. kbind (acquire E Wait_lock k) (\<lambda>k.
      kbind (reparent E (Some p) [0..<NPROC E] k) (\<lambda>k.
      kbind (pget parent (Some p) k) (\<lambda>q.
      kbind (wakeup E (chan_of q) k) (\<lambda>k.
      kbind (acquire_p E (Some p) k) (\<lambda>k.
      kbind (pset (\<lambda>r. r\<lparr>xstate := status, state := ZOMBIE\<rparr>) (Some p) k) (\<lambda>k.
      kbind (release E Wait_lock k) (\<lambda>k.
      kbind (sched E k) (\<lambda>k.
      err (Panic ''zombie exit'') :: 'a kernel kres)))))))))"
  obtain k6 where k6: "tail k5 = resume_with E k6 (\<lambda>k. err (Panic ''zombie exit''))" "dead E p status k6"
    "mach k6 = mach k5"
    using exit_tail [OF E(1,2) i5 t5 s5(1,3,2), of status] unfolding tail_def by blast
  have "exit E status k = tail k5"
    using k ip k1(1,5) k2(1,5) k3(1) k4(1)
    by (simp add: exit_def tail_def in_kernel_def Let_def k5_def)
  moreover have "V (mach k6) = w\<lparr>in_op := False\<rparr>" using k6(3) k4(5) by (simp add: k5_def)
  ultimately show ?thesis using k6(1,2) by (intro exI [of _ k6]) (simp add: w_def v_def d_def)
qed

section \<open>wait\<close>

definition zombie_child :: "'m ext \<Rightarrow> nat \<Rightarrow> 'm kernel \<Rightarrow> nat \<Rightarrow> bool" where
  "zombie_child E p k i \<longleftrightarrow> parent (procs (rb k) i) = Some p \<and> state (procs (rb k) i) = ZOMBIE"

text \<open>The result of copying the exit status of child \<open>i\<close> to the caller's memory.\<close>

definition status_copy :: "'m ext \<Rightarrow> u64 \<Rightarrow> nat \<Rightarrow> nat \<Rightarrow> 'm kernel \<Rightarrow> int" where
  "status_copy E addr p i k = (if addr = 0 then 0
     else fst (copyout E (pagetable (procs (rb k) p)) addr (int_bytes (xstate (procs (rb k) i))) (mach k)))"

text \<open>The step of the scan that finds a zombie child.\<close>

lemma wait_scan_reap:
  fixes addr :: u64
  assumes E: "spin_ok E" and l: "locks k = [Wait_lock]"
    and par: "parent (procs (rb k) i) = Some p" and z: "state (procs (rb k) i) = ZOMBIE"
  defines "cr \<equiv> status_copy E addr p i k"
  shows "\<exists>k'. wait_scan E addr (Some p) (i # is) hk k =
      ret (Some (if cr < 0 then - 1 else pid (procs (rb k) i)), True, k') \<and>
    mem_stable (rel E Wait_lock k) k' \<and> nextpid k' = nextpid k \<and> tframes k' = tframes k \<and>
    rb k' = (if cr < 0 then rb k else rb (put freed i k))"
proof -
  have lk: "Proc_lock i \<notin> set (locks k)" using l by simp
  note a = acquire_ok [OF E lk]
  define k1 where "k1 = acq E (Proc_lock i) k"
  obtain m where cpy: "(if addr \<noteq> 0 then
        kbind (pget pagetable (Some p) k1) (\<lambda>pt.
        ret (mcall (copyout E pt addr (int_bytes (xstate (procs (rb k1) i)))) k1))
      else ret (0, k1)) = ret (cr, k1\<lparr>mach := m\<rparr>)"
  proof (cases "addr = 0")
    case True
    then show ?thesis using that [of "mach k1"] by (simp add: cr_def status_copy_def)
  next
    case False
    then show ?thesis using that by (simp add: cr_def status_copy_def mcall_eq k1_def)
  qed
  define k2 where "k2 = k1\<lparr>mach := m\<rparr>"
  obtain m' where free: "freeproc E (Some i) k2 = ret (put freed i (k2\<lparr>mach := m'\<rparr>))"
    using freeproc_ok [of E i k2] by blast
  define k3 where "k3 = (if cr < 0 then k2 else put freed i (k2\<lparr>mach := m'\<rparr>))"
  have m3: "mem_stable (acq E (Proc_lock i) k) k3" by (simp add: k3_def k2_def k1_def)
  note s3 = mem_stable_section [OF E lk m3]
  define k4 where "k4 = rel E (Proc_lock i) k3"
  have l4: "locks k4 = [Wait_lock]"
    using mem_stable_views(1) [OF s3(2)] l by (simp add: k4_def)
  have lw: "Wait_lock \<in> set (locks k4)" "Wait_lock \<in> set (locks k)" using l4 l by simp_all
  note r4 = release_ok [OF E lw(1)] and r = release_ok [OF E lw(2)]
  have ms: "mem_stable (rel E Wait_lock k) (rel E Wait_lock k4)"
    using r r4 s3(2) by (auto simp: mem_stable_def k4_def [symmetric])
  have rb4: "rb (rel E Wait_lock k4) = (if cr < 0 then rb k else rb (put freed i k))"
    by (simp add: k4_def k3_def k2_def k1_def put_def)
  have np: "nextpid (rel E Wait_lock k4) = nextpid k" "tframes (rel E Wait_lock k4) = tframes k"
    by (simp_all add: k4_def k3_def k2_def k1_def)
  have "wait_scan E addr (Some p) (i # is) hk k =
    kbind (if addr \<noteq> 0 then
        kbind (pget pagetable (Some p) k1) (\<lambda>pt.
        ret (mcall (copyout E pt addr (int_bytes (xstate (procs (rb k1) i)))) k1))
      else ret (0, k1)) (\<lambda>(r, k).
     kbind (if r < 0 then ret k else freeproc E (Some i) k) (\<lambda>k.
     kbind (release E (Proc_lock i) k) (\<lambda>k.
     kbind (release E Wait_lock k) (\<lambda>k.
     ret (Some (if r < 0 then - 1 else pid (procs (rb k1) i)), True, k)))))"
    using par z a(1) by (simp add: k1_def Let_def split del: if_split cong: if_cong)
  also have "\<dots> = ret (Some (if cr < 0 then - 1 else pid (procs (rb k) i)), True, rel E Wait_lock k4)"
    unfolding cpy k2_def [symmetric] using free s3(1) r4(1)
    by (cases "cr < 0") (simp_all add: k3_def k4_def, simp_all add: k1_def)
  finally show ?thesis
    using ms rb4 np by (intro exI [of _ "rel E Wait_lock k4"]) (simp del: wait_scan.simps)
qed

lemma wait_scan_ok:
  assumes E: "spin_ok E" and l: "locks k = [Wait_lock]"
  shows "case find (zombie_child E p k) is of
      None \<Rightarrow> \<exists>k'. wait_scan E addr (Some p) is hk k =
          ret (None, hk \<or> (\<exists>i \<in> set is. parent (procs (rb k) i) = Some p), k') \<and>
        stable k k' \<and> rb k' = rb k
    | Some i \<Rightarrow> \<exists>k'. wait_scan E addr (Some p) is hk k =
          ret (Some (if status_copy E addr p i k < 0 then - 1 else pid (procs (rb k) i)), True, k') \<and>
        mem_stable (rel E Wait_lock k) k' \<and> nextpid k' = nextpid k \<and> tframes k' = tframes k \<and>
        rb k' = (if status_copy E addr p i k < 0 then rb k else rb (put freed i k))"
  using l
proof (induction "is" arbitrary: k hk)
  case Nil
  then show ?case by auto
next
  case (Cons i "is")
  have lk: "Proc_lock i \<notin> set (locks k)" using Cons.prems by simp
  note a = acquire_ok [OF E lk]
  define k1 where "k1 = acq E (Proc_lock i) k"
  show ?case
  proof (cases "parent (procs (rb k) i) = Some p")
    case False
    then show ?thesis using Cons.IH [OF Cons.prems, of hk]
      by (auto simp: zombie_child_def split: option.splits)
  next
    case par: True
    show ?thesis
    proof (cases "state (procs (rb k) i) = ZOMBIE")
      case False
      have st: "stable k1 k1" by simp
      note sec = stable_section [OF E lk st [unfolded k1_def], folded k1_def]
      define k2 where "k2 = rel E (Proc_lock i) k1"
      have rb2: "rb k2 = rb k" "mach k2 = mach k" by (simp_all add: k2_def k1_def)
      have s2: "wait_scan E addr (Some p) (i # is) hk k = wait_scan E addr (Some p) is True k2"
        using a(1) sec(1) par False by (simp add: k1_def [symmetric] k2_def)
          (simp add: k1_def)
      have l2: "locks k2 = [Wait_lock]" using stable_views(1) [OF sec(2)] Cons.prems by (simp add: k2_def)
      have same: "zombie_child E p k2 = zombie_child E p k" "status_copy E addr p j k2 = status_copy E addr p j k"
        "rb (put u j k2) = rb (put u j k)" for j u
        by (auto simp: zombie_child_def status_copy_def rb2 put_def fun_eq_iff)
      have ms: "mem_stable (rel E Wait_lock k) (rel E Wait_lock k2)"
      proof -
        note r = release_ok [OF E, of Wait_lock k] and r2 = release_ok [OF E, of Wait_lock k2]
        show ?thesis using r r2 sec(2) Cons.prems l2
          by (auto simp: mem_stable_def stable_def k2_def [symmetric])
      qed
      show ?thesis
        using Cons.IH [OF l2, of True] par False stable_trans [OF sec(2), folded k2_def]
          mem_stable_trans [OF ms] stable_views(4,8) [OF sec(2), folded k2_def]
        unfolding s2 same rb2 by (auto simp: zombie_child_def split: option.splits)
    next
      case True
      then show ?thesis
        using wait_scan_reap [OF E Cons.prems par True, of addr "is" hk] par
        by (simp add: zombie_child_def del: wait_scan.simps)
    qed
  qed
qed

text \<open>\<open>killed\<close> reads the flag under the process lock.\<close>

lemma is_killed_ok:
  assumes "spin_ok E" "Proc_lock p \<notin> set (locks k)"
  shows "\<exists>k'. is_killed E (Some p) k = ret (killed (procs (rb k) p), k') \<and> stable k k' \<and> rb k' = rb k"
proof -
  note sec = stable_section [OF assms stable_refl]
  have "is_killed E (Some p) k =
      ret (killed (procs (rb k) p), rel E (Proc_lock p) (acq E (Proc_lock p) k))"
    using acquire_ok(1) [OF assms] sec(1) by (simp add: is_killed_def acquire_p_def release_p_def)
  then show ?thesis using sec(2) by simp
qed

text \<open>Going back to the scan after a sleep.\<close>

definition wait_again :: "'m ext \<Rightarrow> u64 \<Rightarrow> nat \<Rightarrow> 'm kernel \<Rightarrow> (int \<times> 'm kernel) kres" where
  "wait_again E addr p k = kbind (kbind (pset (chan_update (\<lambda>_. None)) (Some p) k) (\<lambda>k.
     kbind (release_p E (Some p) k) (acquire E Wait_lock))) (wait_loop E addr (Some p))"

lemma resume_with_kbind:
  assumes "myproc k = Some i"
  shows "kbind (resume_with E k f) g = kbind (swtch E (Ctx_proc i) (Ctx_cpu (cpuid k)) k)
    (\<lambda>k'. kbind (f (set_mycpu (intena_update (\<lambda>_. intena (mycpu k))) k')) g)"
  using assms by (simp add: resume_with_def kbind_assoc)

lemma wait_ok:
  assumes E: "spin_ok E" "intr_ok E" and k: "in_kernel E p k" and t: "table_ok E k q"
  defines "none \<equiv> \<not> (\<exists>i < NPROC E. parent (procs (rb k) i) = Some p)"
  shows "case find (zombie_child E p k) [0..<NPROC E] of
      Some i \<Rightarrow> \<exists>k'. wait E addr k =
          ret (if status_copy E addr p i k < 0 then - 1 else pid (procs (rb k) i), k') \<and>
        mem_stable k k' \<and> rb k' = (if status_copy E addr p i k < 0 then rb k else rb (put freed i k))
    | None \<Rightarrow>
        if none \<or> killed (procs (rb k) p) \<noteq> 0
        then \<exists>k'. wait E addr k = ret (- 1, k') \<and> stable k k' \<and> rb k' = rb k
        else \<exists>k1. wait E addr k = kbind (swtch E (Ctx_proc p) (Ctx_cpu (cpuid k1)) k1)
            (\<lambda>k'. wait_again E addr p (set_mycpu (intena_update (\<lambda>_. intena (mycpu k1))) k')) \<and>
          myproc k1 = Some p \<and> locks k1 = [Proc_lock p] \<and> table_ok E k1 q \<and>
          procTree (rb k1) = procTree (rb k) \<and> procs (rb k1) =
            (procs (rb k))(p := (procs (rb k) p)\<lparr>chan := Some (Ch_proc p), state := SLEEPING\<rparr>)"
proof -
  have l: "locks k = []" and me: "myproc k = Some p" and i: "p < NPROC E" and n: "noff (mycpu k) = 0"
    and run: "state (procs (rb k) p) = RUNNING" using k by (simp_all add: in_kernel_def)
  have lw: "Wait_lock \<notin> set (locks k)" using l by simp
  define k0 where "k0 = acq E Wait_lock k"
  note a = acquire_ok [OF E(1) lw, folded k0_def]
  have l0: "locks k0 = [Wait_lock]" using a l by simp
  have rb0: "rb k0 = rb k" "mach k0 = mach k" "nextpid k0 = nextpid k" "tframes k0 = tframes k"
    by (simp_all add: k0_def)
  have same: "zombie_child E p k0 = zombie_child E p k" "status_copy E addr p j k0 = status_copy E addr p j k"
    "rb (put u j k0) = rb (put u j k)" for j u
    by (auto simp: zombie_child_def status_copy_def rb0 put_def fun_eq_iff)
  have w: "wait E addr k = wait_loop E addr (Some p) k0"
    using a(1) me by (simp add: wait_def Let_def)
  note scan = wait_scan_ok [OF E(1) l0, of addr p "[0..<NPROC E]" False, unfolded same rb0]
  show ?thesis
  proof (cases "find (zombie_child E p k) [0..<NPROC E]")
    case (Some c)
    obtain k' where k': "wait_scan E addr (Some p) [0..<NPROC E] False k0 =
        ret (Some (if status_copy E addr p c k < 0 then - 1 else pid (procs (rb k) c)), True, k')"
      "mem_stable (rel E Wait_lock k0) k'"
      "rb k' = (if status_copy E addr p c k < 0 then rb k else rb (put freed c k))"
      using scan unfolding Some option.case by blast
    have "stable k (rel E Wait_lock k0)"
      unfolding k0_def by (rule stable_section(2) [OF E(1) lw stable_refl])
    from mem_stable_trans [OF stable_mem [OF this] k'(2)] have m: "mem_stable k k'" .
    have "wait E addr k = ret (if status_copy E addr p c k < 0 then - 1 else pid (procs (rb k) c), k')"
      unfolding w by (subst wait_loop.simps) (simp add: k'(1))
    with m k'(3) show ?thesis unfolding Some option.case by blast
  next
    case None
    have any: "(False \<or> (\<exists>i \<in> set [0..<NPROC E]. parent (procs (rb k) i) = Some p)) \<longleftrightarrow> \<not> none"
      by (auto simp: none_def)
    obtain k1 where k1: "wait_scan E addr (Some p) [0..<NPROC E] False k0 = ret (None, \<not> none, k1)"
      "stable k0 k1" "rb k1 = rb k"
      using scan unfolding None option.case any by blast
    note v1 = stable_views [OF k1(2)]
    have lw1: "Wait_lock \<in> set (locks k1)" "Proc_lock p \<notin> set (locks k1)" using v1 l0 by simp_all
    obtain k2 where k2: "is_killed E (Some p) k1 = ret (killed (procs (rb k) p), k2)" "stable k1 k2" "rb k2 = rb k"
      using is_killed_ok [OF E(1) lw1(2)] k1(3) by auto
    have s02: "stable k0 k2" by (rule stable_trans [OF k1(2) k2(2)])
    have stop: "\<exists>k'. kbind (release E Wait_lock kx) (\<lambda>k. ret (- 1 :: int, k)) = ret (- 1, k') \<and> stable k k' \<and> rb k' = rb k"
      if "stable k0 kx" "rb kx = rb k" for kx
      using stable_section [OF E(1) lw that(1) [unfolded k0_def]] that(2) by auto
    show ?thesis
    proof (cases "none \<or> killed (procs (rb k) p) \<noteq> 0")
      case True
      have "wait E addr k = kbind (release E Wait_lock (if none then k1 else k2)) (\<lambda>k. ret (- 1 :: int, k))"
        unfolding w by (subst wait_loop.simps) (use True in \<open>auto simp add: k1(1) k2(1)\<close>)
      with stop [of "if none then k1 else k2"] k1(2,3) k2(3) s02 True show ?thesis
        unfolding None option.case by (cases none) auto
    next
      case False
      have v: "myproc k2 = Some p" "locks k2 = [Wait_lock]" "noff (mycpu k2) = 1"
        using stable_views [OF s02] l0 a me n by simp_all
      have t2: "table_ok E k2 q" using t by (simp add: table_ok_def k2(3))
      have run2: "state (procs (rb k2) p) = RUNNING" by (simp add: k2(3) run)
      obtain k3 where k3: "sleep E (Some (Ch_proc p)) Wait_lock k2 = resume_with E k3 (\<lambda>k.
          kbind (pset (chan_update (\<lambda>_. None)) (Some p) k) (\<lambda>k.
          kbind (release_p E (Some p) k) (acquire E Wait_lock)))"
        "myproc k3 = Some p" "locks k3 = [Proc_lock p]" "table_ok E k3 q"
        "procs (rb k3) = (procs (rb k))(p := (procs (rb k) p)\<lparr>chan := Some (Ch_proc p), state := SLEEPING\<rparr>)"
        "procTree (rb k3) = procTree (rb k)"
        using sleep_switches [OF E v(1) i run2 t2 v(2) _ v(3), of "Some (Ch_proc p)"] unfolding k2(3) by auto
      have "wait E addr k = kbind (sleep E (Some (Ch_proc p)) Wait_lock k2) (wait_loop E addr (Some p))"
        unfolding w by (subst wait_loop.simps) (use False in \<open>simp add: k1(1) k2(1) chan_of_def\<close>)
      also have "\<dots> = kbind (swtch E (Ctx_proc p) (Ctx_cpu (cpuid k3)) k3)
          (\<lambda>k'. wait_again E addr p (set_mycpu (intena_update (\<lambda>_. intena (mycpu k3))) k'))"
        unfolding k3(1) resume_with_kbind [OF k3(2)] wait_again_def ..
      finally show ?thesis using False k3(2-6) unfolding None option.case by auto
    qed
  qed
qed

end
