(* ===== verification/Samples.thy ===== *)
theory Samples
  imports Exit_Wait Tree_Properties
begin

text \<open>
  A concrete environment and a concrete kernel state, at which the properties of the process
  operations are applied. The locks behave as documented; page allocator, page tables, files
  and user memory accept every request. In the state, process 1 runs on
  hart 0; its parent 0 sleeps in \<open>wait\<close>, process 2 sleeps on \<open>ticks\<close>, process 3 is a zombie
  child of 1, and entry 4 is free.
\<close>

definition sample_tf :: trapframe where
  "sample_tf = \<lparr>kernel_satp = 0, kernel_sp = 0, kernel_trap = 0, epc = 16, kernel_hartid = 0,
     tf_ra = 0, tf_sp = 0, tf_gp = 0, tf_tp = 0, tf_t0 = 0, tf_t1 = 0, tf_t2 = 0, tf_s0 = 0,
     tf_s1 = 0, tf_a0 = 7, tf_a1 = 0, tf_a2 = 0, tf_a3 = 0, tf_a4 = 0, tf_a5 = 0, tf_a6 = 0,
     tf_a7 = 1, tf_s2 = 0, tf_s3 = 0, tf_s4 = 0, tf_s5 = 0, tf_s6 = 0, tf_s7 = 0, tf_s8 = 0,
     tf_s9 = 0, tf_s10 = 0, tf_s11 = 0, tf_t3 = 0, tf_t4 = 0, tf_t5 = 0, tf_t6 = 0\<rparr>"

definition sample_ext :: "'m ext" where
  "sample_ext = \<lparr>NPROC = 5, NOFILE = 2, PGSIZE = 4096, TRAMPOLINE = 2 ^ 38 - 4096,
     TRAPFRAME = 2 ^ 38 - 8192, KSTACK = (\<lambda>i. 2 ^ 38 - 8192 * of_nat (i + 2)),
     PTE_R = 2, PTE_W = 4, PTE_X = 8, trampoline = 0x80007000, forkret_addr = 0x80001a00,
     acquire_cpu = (\<lambda>l tr c. if l \<in> set (held tr []) then err (Panic ''acquire'')
       else ret (c\<lparr>noff := noff c + 1, intena := 0\<rparr>)),
     release_cpu = (\<lambda>l tr c. if l \<in> set (held tr []) then ret (c\<lparr>noff := noff c - 1, intena := 0\<rparr>)
       else err (Panic ''release'')),
     holding = (\<lambda>l tr. l \<in> set (held tr [])), intr_get = (\<lambda>_. False),
     intr_on = ret, intr_off = ret, wfi = ret, printf = (\<lambda>_ _ m. m),
     swtch = (\<lambda>_ _ _. hang),
     kalloc = (\<lambda>m. ((8192, sample_tf), m)), kfree = (\<lambda>_ m. m),
     kvmmap = (\<lambda>_ _ _ _ _ m. m), uvmcreate = (\<lambda>m. (12288, m)),
     mappages = (\<lambda>_ _ _ _ _ m. (0, m)), uvmunmap = (\<lambda>_ _ _ _ m. m), uvmfree = (\<lambda>_ _ m. m),
     uvmfirst = (\<lambda>_ _ m. m), uvmalloc = (\<lambda>_ _ n _ m. (n, m)), uvmdealloc = (\<lambda>_ old n m. (if n < old then n else old, m)),
     uvmcopy = (\<lambda>_ _ _ m. (0, m)), copyout = (\<lambda>_ _ _ m. (0, m)),
     copyin = (\<lambda>_ _ n m. ((0, replicate (unat n) 0), m)), store = (\<lambda>_ _ m. m),
     load = (\<lambda>_ n _. replicate (unat n) 0), safestrcpy = (\<lambda>s n. take (n - 1) s),
     filedup = (\<lambda>f m. (f, m)), idup = (\<lambda>d m. (d, m)), namei = (\<lambda>_ k. ret (1, k)),
     fileclose = (\<lambda>_ k. ret k), begin_op = ret, iput = (\<lambda>_ k. ret k), end_op = ret,
     fsinit = ret\<rparr>"

abbreviation sample_env :: "nat ext" where
  "sample_env \<equiv> sample_ext"

definition sample_procs :: "nat \<Rightarrow> proc" where
  "sample_procs i =
     (if i = 0 then blank_proc\<lparr>state := SLEEPING, chan := Some (Ch_proc 0), pid := 1, trapframe := 8\<rparr>
      else if i = 1 then blank_proc\<lparr>state := RUNNING, pid := 2, parent := Some 0, trapframe := 4096,
        ofile := [5, 0], currentRuntime := 3, maxExecutionTime := 2\<rparr>
      else if i = 2 then blank_proc\<lparr>state := SLEEPING, chan := Some Ch_ticks, pid := 3, parent := Some 0\<rparr>
      else if i = 3 then blank_proc\<lparr>state := ZOMBIE, pid := 4, parent := Some 1, xstate := 9\<rparr>
      else blank_proc\<lparr>state := UNUSED, ofile := [0, 0]\<rparr>)"

definition sample_at :: "'m \<Rightarrow> 'm kernel" where
  "sample_at m = \<lparr>rb = rbinit 5 \<lparr>procs = sample_procs,
       procTree = \<lparr>count = 0, treeWeight = 0, root = None, minvRuntime = None, period = 0\<rparr>\<rparr>,
     cpus = (\<lambda>h. \<lparr>cpu_proc = (if h = 0 then Some 1 else None), cpu_context = zero_context,
       noff = 0, intena = 0\<rparr>),
     nextpid = 5, initproc = Some 0, ticks = 0, first = False, tframes = (\<lambda>_. sample_tf),
     hart = 0, calls = [], mach = m\<rparr>"

abbreviation sample_kernel :: "nat kernel" where
  "sample_kernel \<equiv> sample_at 0"

lemma sample_env_consts [simp]:
  "NPROC sample_ext = 5" "NOFILE sample_ext = 2" "intr_get sample_ext = (\<lambda>_. False)"
  by (simp_all add: sample_ext_def)

lemma any_spin: "spin_ok sample_ext"
  unfolding spin_ok_def
  by (intro exI [of _ "\<lambda>_ _. 0"]) (simp add: sample_ext_def)

lemma any_intr: "intr_ok sample_ext"
  by (simp add: intr_ok_def)

lemma any_filedup: "filedup_ok sample_ext"
  by (simp add: filedup_ok_def sample_ext_def)

lemma sample_procs_in [simp]: "procs (rb (sample_at m)) = sample_procs"
  by (simp add: sample_at_def rbinit_def)

lemma sample_views [simp]:
  "locks (sample_at m) = []" "myproc (sample_at m) = Some 1" "nextpid (sample_at m) = 5"
  "initproc (sample_at m) = Some 0" "noff (mycpu (sample_at m)) = 0"
  "mach (sample_at m) = m" "ticks (sample_at m) = 0" "hart (sample_at m) = 0"
  by (simp_all add: sample_at_def locks_def myproc_def mycpu_def cpuid_def)

lemma any_free: "proc_free (sample_at m)"
  by (simp add: proc_free_def)

lemma any_table: "table_ok sample_ext (sample_at m) []"
proof -
  have "ready 5 (rb (sample_at m)) []" unfolding sample_at_def by (simp add: rbinit_ready)
  then show ?thesis
    by (auto simp: table_ok_def queued_def insertable_def sample_procs_def blank_proc_def)
qed

lemma any_running: "in_kernel sample_ext 1 (sample_at m)"
  by (simp add: in_kernel_def sample_procs_def blank_proc_def)

lemma any_empty_tree: "minvRuntime (procTree (rb (sample_at m))) = None"
  by (simp add: sample_at_def rbinit_def)

text \<open>The same at the instance that the witnesses use.\<close>

lemma sample_spin: "spin_ok sample_env"
  and sample_intr: "intr_ok sample_env"
  and sample_filedup: "filedup_ok sample_env"
  and sample_free: "proc_free sample_kernel"
  and sample_table: "table_ok sample_env sample_kernel []"
  and sample_running: "in_kernel sample_env 1 sample_kernel"
  by (rule any_spin any_intr any_filedup any_free any_table any_running)+

text \<open>
  A machine whose memory is the view the file system has of process 1: the calls of \<open>exit\<close> panic
  unless they are used as documented, and \<open>swtch\<close> returns at once.
\<close>

definition fs_env :: "fs_view ext" where
  "fs_env = sample_ext
    \<lparr>fileclose := \<lambda>f k. if f \<in># open_refs (mach k) \<and> \<not> in_op (mach k)
       then ret (k\<lparr>mach := (mach k)\<lparr>open_refs := open_refs (mach k) - {#f#}\<rparr>\<rparr>)
       else err (Panic ''fileclose''),
     begin_op := \<lambda>k. if in_op (mach k) then err (Panic ''begin_op'')
       else ret (k\<lparr>mach := (mach k)\<lparr>in_op := True\<rparr>\<rparr>),
     iput := \<lambda>d k. if d \<in># dir_refs (mach k) \<and> in_op (mach k)
       then ret (k\<lparr>mach := (mach k)\<lparr>dir_refs := dir_refs (mach k) - {#d#}\<rparr>\<rparr>)
       else err (Panic ''iput''),
     end_op := \<lambda>k. if in_op (mach k) then ret (k\<lparr>mach := (mach k)\<lparr>in_op := False\<rparr>\<rparr>)
       else err (Panic ''end_op''),
     swtch := \<lambda>_ _. ret\<rparr>"

definition fs_kernel :: "fs_view kernel" where
  "fs_kernel = put (cwd_update (\<lambda>_. 7)) 1
     (sample_at \<lparr>open_refs = {#5, 5#}, dir_refs = {#7#}, in_op = False\<rparr>)"

lemma fs_env_consts [simp]: "NPROC fs_env = 5" "NOFILE fs_env = 2"
  by (simp_all add: fs_env_def)

lemma fs_env_in_kernel: "in_kernel fs_env p k = in_kernel sample_ext p k" "table_ok fs_env k q = table_ok sample_ext k q"
  by (simp_all add: in_kernel_def table_ok_def)

lemma fs_env_call:
  assumes "\<And>k. mach k = v \<Longrightarrow> f k = ret (k\<lparr>mach := v'\<rparr>)"
  shows "fs_call fs_env p (\<lambda>m. m) v v' f"
  unfolding fs_call_def using assms by (simp add: in_kernel_def table_ok_def)

lemma fs_env_ok: "spin_ok fs_env" "intr_ok fs_env" "fs_ok fs_env p (\<lambda>m. m)"
proof -
  show "spin_ok fs_env" using any_spin by (simp add: spin_ok_def fs_env_def)
  show "intr_ok fs_env" by (simp add: intr_ok_def fs_env_def)
  show "fs_ok fs_env p (\<lambda>m. m)"
    unfolding fs_ok_def by (intro conjI allI impI; rule fs_env_call) (simp_all add: fs_env_def)
qed

lemma fs_kernel_ok: "in_kernel fs_env 1 fs_kernel" "table_ok fs_env fs_kernel []"
  unfolding fs_kernel_def fs_env_in_kernel
  by (rule in_kernel_put table_ok_put_same any_running any_table | simp add: links_def)+

end
