(* ===== verification/Spin_Locks.thy ===== *)
theory Spin_Locks
  imports Kernel_Rules Transition_Systems
begin

text \<open>
  Harts that share spin locks. The models of the kernel functions record their calls of
  \<open>acquire\<close> and \<open>release\<close>; here such sequences of calls, one per hart, are interleaved: a hart
  whose next call is \<open>acquire\<close> spins until no hart holds the lock. No lock is ever held by two
  harts. The last section is about one hart that goes to sleep and another that wakes it.
\<close>

section \<open>Interleaved calls\<close>

text \<open>For each hart the calls it has made and the calls it has still to make.\<close>

type_synonym harts = "nat \<Rightarrow> event list \<times> event list"

definition holds :: "harts \<Rightarrow> nat \<Rightarrow> lock set" where
  "holds s h = set (held (fst (s h)) [])"

inductive advance :: "harts \<Rightarrow> harts \<Rightarrow> bool" where
  take: "snd (s h) = Acquire l # es \<Longrightarrow> \<forall>g. l \<notin> holds s g \<Longrightarrow>
    advance s (s(h := (fst (s h) @ [Acquire l], es)))"
| give: "snd (s h) = Release l # es \<Longrightarrow> advance s (s(h := (fst (s h) @ [Release l], es)))"

definition exclusive :: "harts \<Rightarrow> bool" where
  "exclusive s \<longleftrightarrow> (\<forall>g h. g \<noteq> h \<longrightarrow> holds s g \<inter> holds s h = {})"

definition stuck :: "harts \<Rightarrow> bool" where
  "stuck s \<longleftrightarrow> (\<exists>h. snd (s h) \<noteq> []) \<and> (\<forall>s'. \<not> advance s s')"

lemma holds_upd [simp]:
  "holds (s(h := (d, es))) g = (if g = h then set (held d []) else holds s g)"
  by (simp add: holds_def)

lemma advance_exclusive:
  assumes "exclusive s" "advance s s'"
  shows "exclusive s'"
  using assms(2)
proof cases
  case (take h l es)
  then have "holds s' g = (if g = h then insert l (holds s h) else holds s g)" for g
    by (simp add: holds_def)
  then show ?thesis using take(3) assms(1) by (auto simp: exclusive_def)
next
  case (give h l es)
  then have "holds s' g \<subseteq> holds s g" for g
    by (auto simp: holds_def dest: in_set_remove1)
       (metis notin_set_remove1)
  then show ?thesis using assms(1) unfolding exclusive_def by blast
qed

interpretation spin: invariant_system "\<lambda>s. \<forall>h. fst (s h) = []" advance exclusive
proof
  fix s :: harts
  assume "\<forall>h. fst (s h) = []"
  then show "exclusive s" by (simp add: exclusive_def holds_def)
qed (rule advance_exclusive)

lemma reachable_exclusive:
  assumes "reachable (\<lambda>s. s = s0) advance s" "\<forall>h. fst (s0 h) = []"
  shows "exclusive s"
proof (rule spin.reachable_inv)
  show "reachable (\<lambda>s. \<forall>h. fst (s h) = []) advance s"
    using assms(1) by (induction rule: reachable.induct) (use assms(2) in \<open>auto intro: reachable.intros\<close>)
qed

text \<open>A sequence of calls that a hart holding \<open>ls\<close> can make if nobody else interferes.\<close>

fun flows :: "lock list \<Rightarrow> event list \<Rightarrow> bool" where
  "flows ls [] = True"
| "flows ls (Acquire l # es) = (l \<notin> set ls \<and> flows (l # ls) es)"
| "flows ls (Release l # es) = flows (remove1 l ls) es"

lemma flows_append: "flows ls (es @ fs) \<longleftrightarrow> flows ls es \<and> flows (held es ls) fs"
  by (induction ls es rule: flows.induct) auto

lemma run_alone:
  assumes "reachable init advance s" "snd (s h) = es @ rest" "flows (held (fst (s h)) []) es"
    "\<And>l g. Acquire l \<in> set es \<Longrightarrow> g \<noteq> h \<Longrightarrow> l \<notin> holds s g"
  shows "reachable init advance (s(h := (fst (s h) @ es, rest)))"
  using assms
proof (induction es arbitrary: s)
  case Nil
  then have "s(h := (fst (s h), rest)) = s" by (metis append_Nil fun_upd_triv prod.collapse)
  then show ?case using Nil by simp
next
  case (Cons e es)
  define s1 where "s1 = s(h := (fst (s h) @ [e], es @ rest))"
  have "advance s s1"
  proof (cases e)
    case (Acquire l)
    then have "\<forall>g. l \<notin> holds s g"
      using Cons.prems(3,4) by (metis flows.simps(2) holds_def list.set_intros(1))
    then show ?thesis using Cons.prems(2) Acquire unfolding s1_def by (auto intro: advance.take)
  next
    case (Release l)
    then show ?thesis using Cons.prems(2) unfolding s1_def by (auto intro: advance.give)
  qed
  then have "reachable init advance s1" using Cons.prems(1) by (rule reachable.more [rotated])
  moreover have "snd (s1 h) = es @ rest" by (simp add: s1_def)
  moreover have "flows (held (fst (s1 h)) []) es"
    using Cons.prems(3) by (cases e) (simp_all add: s1_def)
  moreover have "l \<notin> holds s1 g" if "Acquire l \<in> set es" "g \<noteq> h" for l g
    using Cons.prems(4) [of l g] that by (simp add: s1_def)
  ultimately have "reachable init advance (s1(h := (fst (s1 h) @ es, rest)))" by (rule Cons.IH)
  moreover have "s1(h := (fst (s1 h) @ es, rest)) = s(h := (fst (s h) @ e # es, rest))"
    by (simp add: s1_def)
  ultimately show ?case by (simp only:)
qed

section \<open>A sleeper and a waker\<close>

text \<open>
  Hart \<open>h\<close> holds the condition lock \<open>lk\<close> and makes the calls of \<open>sleep\<close> for process \<open>i\<close>, which
  are \<open>es\<close> up to the switch, after which the scheduler gives the process lock back. Hart \<open>g\<close> is a
  waker that has the condition lock to take before anything else.
\<close>

definition sleeper_and_waker :: "lock \<Rightarrow> nat \<Rightarrow> event list \<Rightarrow> event list \<Rightarrow> nat \<Rightarrow> nat \<Rightarrow> harts \<Rightarrow> bool" where
  "sleeper_and_waker lk i done0 es h g s \<longleftrightarrow> exclusive s \<and> g \<noteq> h \<and> lk \<in> holds s h \<and>
     s h = (done0, es @ [Release (Proc_lock i)]) \<and>
     (\<exists>ws. snd (s g) = Acquire lk # ws) \<and> Proc_lock i \<notin> holds s g"

text \<open>How far the sleeper is, while the waker stands at the condition lock or later.\<close>

definition asleep_soon :: "lock \<Rightarrow> nat \<Rightarrow> nat \<Rightarrow> nat \<Rightarrow> harts \<Rightarrow> bool" where
  "asleep_soon lk i h g s \<longleftrightarrow> exclusive s \<and>
     (snd (s h) = [Acquire (Proc_lock i), Release lk, Release (Proc_lock i)] \<and> lk \<in> holds s h \<and>
        (\<exists>ws. snd (s g) = Acquire lk # ws) \<and> Proc_lock i \<notin> holds s g \<or>
      snd (s h) = [Release lk, Release (Proc_lock i)] \<and> {lk, Proc_lock i} \<subseteq> holds s h \<and>
        (\<exists>ws. snd (s g) = Acquire lk # ws) \<or>
      snd (s h) = [Release (Proc_lock i)] \<and> Proc_lock i \<in> holds s h \<or>
      snd (s h) = [])"

lemma asleep_soon_step:
  assumes "asleep_soon lk i h g s" "advance s s'" "g \<noteq> h" "lk \<noteq> Proc_lock i"
  shows "asleep_soon lk i h g s'"
proof -
  have ex: "exclusive s'" using assms(1,2) advance_exclusive by (auto simp: asleep_soon_def)
  from assms(2) show ?thesis
  proof cases
    case (take f l es)
    then show ?thesis using assms(1,3,4) ex by (auto simp: asleep_soon_def holds_def)
  next
    case (give f l es)
    then show ?thesis using assms(1,3,4) ex by (auto simp: asleep_soon_def holds_def)
  qed
qed

text \<open>If \<open>sleep\<close> takes the process lock before it gives back the condition lock, no waker gets
  the process lock before the sleeper has switched.\<close>

lemma waker_finds_sleeper:
  assumes "sleeper_and_waker lk i done0 [Acquire (Proc_lock i), Release lk] h g s0" "lk \<noteq> Proc_lock i"
    and "reachable (\<lambda>s. s = s0) advance s" "Proc_lock i \<in> holds s g"
  shows "snd (s h) = []"
proof -
  have "asleep_soon lk i h g s"
    using assms(3)
  proof (induction rule: reachable.induct)
    case (start s)
    then show ?case using assms(1) by (auto simp: sleeper_and_waker_def asleep_soon_def)
  next
    case (more s s')
    then show ?case using asleep_soon_step assms(1,2) by (auto simp: sleeper_and_waker_def)
  qed
  moreover have "g \<noteq> h" using assms(1) by (simp add: sleeper_and_waker_def)
  ultimately show ?thesis using assms(4) by (auto simp: asleep_soon_def exclusive_def)
qed

end
