(* ===== verification/Proc_Properties.thy ===== *)
theory Proc_Properties
  imports Samples Spin_Locks
begin

text \<open>
  The properties of the process operations of \<open>proc.c\<close>: allocation, \<open>fork\<close>, \<open>exit\<close>, \<open>wait\<close>,
  \<open>wakeup\<close>, \<open>kill\<close>, \<open>sleep\<close> and \<open>yield\<close>. Each assumes the documented behaviour of the spin
  locks and the process table invariant, and shows that the invariant holds again.
\<close>

section \<open>Waking, killing, sleeping\<close>

lemma wakes_charge:
  assumes "wakes A k k'"
  shows "virtualRuntime (procs (rb k') i) = (if i \<in> A
    then i32 (virtualRuntime (procs (rb k) i) + currentRuntime (procs (rb k) i))
    else virtualRuntime (procs (rb k) i))"
proof -
  have "redata (if i \<in> A then make_runnable (procs (rb k) i) else procs (rb k) i) (procs (rb k') i)"
    using assms by (simp add: wakes_def)
  from redata_fields(15) [OF this] show ?thesis by (simp add: make_runnable_def)
qed

text \<open>
  C10. \<open>wakeup\<close> makes exactly those processes runnable that sleep on the channel and are not
  the caller: each is charged its run time and queued, no other process changes its state or its
  run times, and every lock is given back.
\<close>

theorem wakeup_exact:
  assumes "spin_ok E" and "proc_free k" and "table_ok E k q"
  shows "\<exists>k' q'. wakeup E ch k = ret k' \<and> locks k' = locks k \<and> table_ok E k' q' \<and>
    (\<forall>i < NPROC E. i \<in> set q' \<longleftrightarrow> i \<in> set q \<or>
       state (procs (rb k) i) = SLEEPING \<and> chan (procs (rb k) i) = ch \<and> myproc k \<noteq> Some i) \<and>
    (\<forall>i < NPROC E. state (procs (rb k') i) =
       (if state (procs (rb k) i) = SLEEPING \<and> chan (procs (rb k) i) = ch \<and> myproc k \<noteq> Some i
        then RUNNABLE else state (procs (rb k) i))) \<and>
    (\<forall>i < NPROC E. virtualRuntime (procs (rb k') i) =
       (if state (procs (rb k) i) = SLEEPING \<and> chan (procs (rb k) i) = ch \<and> myproc k \<noteq> Some i
        then i32 (virtualRuntime (procs (rb k) i) + currentRuntime (procs (rb k) i))
        else virtualRuntime (procs (rb k) i))) \<and>
    (\<forall>i < NPROC E. currentRuntime (procs (rb k') i) =
       (if state (procs (rb k) i) = SLEEPING \<and> chan (procs (rb k) i) = ch \<and> myproc k \<noteq> Some i
        then 0 else currentRuntime (procs (rb k) i)))"
proof -
  obtain k' q' where k': "wakeup E ch k = ret k'" "stable k k'"
    "wakes ({..<NPROC E} \<inter> sleeping_on k ch) k k'" "table_ok E k' q'"
    "set q' = set q \<union> ({..<NPROC E} \<inter> sleeping_on k ch)"
    using wakeup_ok [OF assms] by blast
  have w: "i \<in> {..<NPROC E} \<inter> sleeping_on k ch \<longleftrightarrow> i < NPROC E \<and>
      state (procs (rb k) i) = SLEEPING \<and> chan (procs (rb k) i) = ch \<and> myproc k \<noteq> Some i" for i
    by (auto simp: sleeping_on_def)
  have "\<forall>i < NPROC E. state (procs (rb k') i) =
       (if state (procs (rb k) i) = SLEEPING \<and> chan (procs (rb k) i) = ch \<and> myproc k \<noteq> Some i
        then RUNNABLE else state (procs (rb k) i))"
    unfolding wakes_fields(1) [OF k'(3)] w by simp
  moreover have "\<forall>i < NPROC E. i \<in> set q' \<longleftrightarrow> i \<in> set q \<or>
       state (procs (rb k) i) = SLEEPING \<and> chan (procs (rb k) i) = ch \<and> myproc k \<noteq> Some i"
    unfolding k'(5) Un_iff w by simp
  moreover have "\<forall>i < NPROC E. virtualRuntime (procs (rb k') i) =
       (if state (procs (rb k) i) = SLEEPING \<and> chan (procs (rb k) i) = ch \<and> myproc k \<noteq> Some i
        then i32 (virtualRuntime (procs (rb k) i) + currentRuntime (procs (rb k) i))
        else virtualRuntime (procs (rb k) i))"
    unfolding wakes_charge [OF k'(3)] w by simp
  moreover have "\<forall>i < NPROC E. currentRuntime (procs (rb k') i) =
       (if state (procs (rb k) i) = SLEEPING \<and> chan (procs (rb k) i) = ch \<and> myproc k \<noteq> Some i
        then 0 else currentRuntime (procs (rb k) i))"
    unfolding wakes_fields(6) [OF k'(3)] w by simp
  ultimately show ?thesis
    using k'(1,4) stable_views(1) [OF k'(2)] by (intro exI [of _ k'] exI [of _ q'] conjI)
qed

theorem wakeup_exact_witness:
  "\<exists>k' q'. wakeup sample_env (Some Ch_ticks) sample_kernel = ret k' \<and> table_ok sample_env k' q' \<and>
    2 \<in> set q' \<and> 0 \<notin> set q' \<and> state (procs (rb k') 2) = RUNNABLE"
proof -
  obtain k' q' where k': "wakeup sample_env (Some Ch_ticks) sample_kernel = ret k'"
    "table_ok sample_env k' q'"
    "\<forall>i < NPROC sample_env. i \<in> set q' \<longleftrightarrow> i \<in> set [] \<or>
       state (procs (rb sample_kernel) i) = SLEEPING \<and>
       chan (procs (rb sample_kernel) i) = Some Ch_ticks \<and> myproc sample_kernel \<noteq> Some i"
    "\<forall>i < NPROC sample_env. state (procs (rb k') i) =
       (if state (procs (rb sample_kernel) i) = SLEEPING \<and>
          chan (procs (rb sample_kernel) i) = Some Ch_ticks \<and> myproc sample_kernel \<noteq> Some i
        then RUNNABLE else state (procs (rb sample_kernel) i))"
    by (rule exE [OF wakeup_exact [OF sample_spin sample_free sample_table, of "Some Ch_ticks"]],
      elim exE conjE) (rule that)
  have "2 \<in> set q'" using k'(3) [rule_format, of 2] by (simp add: sample_procs_def blank_proc_def)
  moreover have "0 \<notin> set q'" using k'(3) [rule_format, of 0] by (simp add: sample_procs_def blank_proc_def)
  moreover have "state (procs (rb k') 2) = RUNNABLE"
    using k'(4) [rule_format, of 2] by (simp add: sample_procs_def blank_proc_def)
  ultimately show ?thesis using k'(1,2) by blast
qed

text \<open>
  C11. \<open>kill\<close> acts on the first entry with the given pid: its flag is set, and if it slept it
  is made runnable and queued, so that it can notice; without such an entry the result is -1
  and nothing changes. Every lock is given back.
\<close>

theorem kill_correct:
  assumes "spin_ok E" and "proc_free k" and "table_ok E k q"
  shows "\<exists>r k' q'. kill E n k = ret (r, k') \<and> locks k' = locks k \<and> table_ok E k' q' \<and>
    (r = - 1 \<longleftrightarrow> (\<forall>i < NPROC E. pid (procs (rb k) i) \<noteq> n)) \<and> (r = - 1 \<or> r = 0) \<and>
    (case victim E k n of None \<Rightarrow> rb k' = rb k | Some i \<Rightarrow> killed (procs (rb k') i) = 1 \<and>
      (if state (procs (rb k) i) = SLEEPING
       then state (procs (rb k') i) = RUNNABLE \<and> set q' = insert i (set q)
       else state (procs (rb k') i) = state (procs (rb k) i) \<and> set q' = set q))"
proof (cases "victim E k n")
  case None
  then obtain k' where k': "kill E n k = ret (- 1, k')" "stable k k'" "rb k' = rb k"
    using kill_ok [OF assms, of n] by auto
  moreover have "\<forall>i < NPROC E. pid (procs (rb k) i) \<noteq> n"
    using None by (auto simp: victim_def find_None_iff)
  moreover have "table_ok E k' q" using assms(3) k'(3) by (simp add: table_ok_def)
  ultimately show ?thesis using None stable_views(1) [OF k'(2)] by auto
next
  case (Some i)
  define A where "A = (if state (procs (rb k) i) = SLEEPING then {i} else {})"
  obtain k' q' where k': "kill E n k = ret (0, k')" "stable k k'" "table_ok E k' q'"
    "wakes A (put (killed_update (\<lambda>_. 1)) i k) k'"
    "set q' = (if state (procs (rb k) i) = SLEEPING then insert i (set q) else set q)"
    using kill_ok [OF assms, of n] Some unfolding A_def by auto
  moreover have "\<not> (\<forall>i < NPROC E. pid (procs (rb k) i) \<noteq> n)"
    using Some by (auto simp: victim_def find_Some_iff)
  ultimately show ?thesis
    using Some stable_views(1) [OF k'(2)] wakes_fields(1,5) [OF k'(4), of i]
    by (intro exI [of _ 0] exI [of _ k'] exI [of _ q']) (auto simp: A_def)
qed

theorem kill_correct_witness:
  "\<exists>k' q'. kill sample_env 3 sample_kernel = ret (0, k') \<and> table_ok sample_env k' q' \<and> killed (procs (rb k') 2) = 1 \<and>
    state (procs (rb k') 2) = RUNNABLE \<and> set q' = {2}"
proof -
  have v: "victim sample_env sample_kernel 3 = Some 2"
    by (simp add: victim_def sample_procs_def blank_proc_def upt_rec)
  have "state (procs (rb sample_kernel) 2) = SLEEPING" "pid (sample_procs 2) = 3"
    by (simp_all add: sample_procs_def blank_proc_def)
  moreover have "(2 :: nat) < 5" by simp
  ultimately show ?thesis
    using kill_correct [OF sample_spin sample_free sample_table, of 3] unfolding v option.case by auto
qed

text \<open>
  C12. Killing pid 0 hits a free entry: the first unused one is marked killed, and the process
  that is later allocated in it starts its life with the mark, because \<open>allocproc\<close> does not
  clear it.
\<close>

theorem kill_zero_marks_free_entry:
  assumes "spin_ok E" and "proc_free k" and "Pid_lock \<notin> set (locks k)" and "table_ok E k q"
    and "\<forall>i < NPROC E. state (procs (rb k) i) = UNUSED \<longleftrightarrow> pid (procs (rb k) i) = 0"
    and "first_unused E k = Some c"
  shows "\<exists>k1 k2. kill E 0 k = ret (0, k1) \<and> killed (procs (rb k1) c) = 1 \<and>
    (allocproc E k1 = ret (None, k2) \<or>
     allocproc E k1 = ret (Some c, k2) \<and> state (procs (rb k2) c) = USED \<and> killed (procs (rb k2) c) = 1)"
proof -
  have find_eq: "find P xs = find Q xs" if "\<forall>x \<in> set xs. P x = Q x" for P Q :: "nat \<Rightarrow> bool" and xs
    using that by (induction xs) auto
  have "victim E k 0 = first_unused E k"
    unfolding victim_def first_unused_def by (rule find_eq) (use assms(5) in auto)
  then have v: "victim E k 0 = Some c" using assms(6) by simp
  have c: "c < NPROC E" "state (procs (rb k) c) = UNUSED" using first_unused_Some [OF assms(6)] by auto
  obtain k1 where k1: "kill E 0 k = ret (0, k1)" "stable k k1"
    "wakes {} (put (killed_update (\<lambda>_. 1)) c k) k1"
    using kill_ok [OF assms(1,2,4), of 0] c unfolding v by auto
  have st: "state (procs (rb k1) i) = state (procs (rb k) i)" for i
    using wakes_fields(1) [OF k1(3), of i] by simp
  have kd: "killed (procs (rb k1) c) = 1" using wakes_fields(5) [OF k1(3), of c] by simp
  have f1: "proc_free k1" "Pid_lock \<notin> set (locks k1)"
    using assms(2,3) stable_views(1) [OF k1(2)] by (simp_all add: proc_free_def)
  have "first_unused E k1 = Some c" using assms(6) by (simp add: first_unused_def st)
  then obtain k2 where "allocproc E k1 = ret (None, k2) \<or>
      (\<exists>page pt n. allocproc E k1 = ret (Some c, k2) \<and> rb k2 = rb (put (fresh E page pt n) c k1))"
    using allocproc_ok [OF assms(1) f1] by auto
  then have "allocproc E k1 = ret (None, k2) \<or>
     allocproc E k1 = ret (Some c, k2) \<and> state (procs (rb k2) c) = USED \<and> killed (procs (rb k2) c) = 1"
    using kd by (auto simp: fresh_def)
  then show ?thesis using k1(1) kd by blast
qed

theorem kill_zero_marks_free_entry_witness:
  "\<exists>k1 k2. kill sample_env 0 sample_kernel = ret (0, k1) \<and> killed (procs (rb k1) 4) = 1 \<and>
    (allocproc sample_env k1 = ret (None, k2) \<or> killed (procs (rb k2) 4) = 1)"
proof -
  have "first_unused sample_env sample_kernel = Some 4"
    by (simp add: first_unused_def sample_procs_def blank_proc_def upt_rec)
  moreover have "\<forall>i < 5. state (sample_procs i) = UNUSED \<longleftrightarrow> pid (sample_procs i) = 0"
    by (auto simp: sample_procs_def blank_proc_def)
  ultimately show ?thesis
    using kill_zero_marks_free_entry [OF sample_spin sample_free _ sample_table, of 4] by auto
qed

section \<open>Giving up the CPU\<close>

text \<open>
  C13. \<open>yield\<close> on a well-formed table, called without locks: if the preemption test says so, the
  process is charged its run time, made runnable and queued, and none of the panics of \<open>sched\<close>
  can happen, because at the switch it holds its own lock and no other; otherwise \<open>yield\<close>
  returns with table and locks as before.
\<close>

theorem yield_correct:
  assumes "spin_ok E" and "intr_ok E" and "in_kernel E i k" and "table_ok E k q"
  shows "if checkPreemption (Some i) (minvRuntime (procTree (rb k))) (rb k) = ret True
    then \<exists>k1 q1. yield E k = resume_with E k1 (release_p E (Some i)) \<and> locks k1 = [Proc_lock i] \<and>
      table_ok E k1 q1 \<and> set q1 = insert i (set q) \<and> state (procs (rb k1) i) = RUNNABLE \<and>
      currentRuntime (procs (rb k1) i) = 0 \<and> virtualRuntime (procs (rb k1) i) =
        i32 (virtualRuntime (procs (rb k) i) + currentRuntime (procs (rb k) i))
    else \<exists>k'. yield E k = ret k' \<and> locks k' = locks k \<and> rb k' = rb k"
proof (cases "checkPreemption (Some i) (minvRuntime (procTree (rb k))) (rb k) = ret True")
  case True
  obtain k1 where k1: "yield E k = resume_with E k1 (release_p E (Some i))" "locks k1 = [Proc_lock i]"
    "table_ok E k1 (queue_in (put make_runnable i k) i q)" "wakes {i} k k1"
    using yield_switches [OF assms True] by auto
  have "redata (make_runnable (procs (rb k) i)) (procs (rb k1) i)"
    using k1(4) [unfolded wakes_def, rule_format, of i] by simp
  then have "virtualRuntime (procs (rb k1) i) =
      i32 (virtualRuntime (procs (rb k) i) + currentRuntime (procs (rb k) i))"
    using redata_fields(15) by fastforce
  then show ?thesis
    using True k1 wakes_fields(1,6) [OF k1(4), of i] queue_in_set by (metis insertI1)
next
  case False
  then have "checkPreemption (Some i) (minvRuntime (procTree (rb k))) (rb k) = ret False"
    by (simp add: checkPreemption_value Let_def)
  from yield_stays [OF assms(1,3) this] False show ?thesis
    using stable_views(1) by fastforce
qed

theorem yield_correct_witness:
  "\<exists>k1 q1. yield sample_env sample_kernel = resume_with sample_env k1 (release_p sample_env (Some 1)) \<and>
    table_ok sample_env k1 q1 \<and> set q1 = {1} \<and> virtualRuntime (procs (rb k1) 1) = 3"
proof -
  have c: "checkPreemption (Some 1) (minvRuntime (procTree (rb sample_kernel))) (rb sample_kernel) = ret True"
    by (simp add: checkPreemption_def sample_procs_def blank_proc_def min_granularity_def)
  have v: "i32 (virtualRuntime (procs (rb sample_kernel) 1) + currentRuntime (procs (rb sample_kernel) 1)) = 3"
    by (simp add: sample_procs_def blank_proc_def)
  show ?thesis
    using yield_correct [OF sample_spin sample_intr sample_running sample_table]
    unfolding c v by auto
qed

text \<open>
  C14. No wake-up is lost in \<open>sleep\<close>. Up to its switch it takes its own lock and then gives back
  the condition lock. So, however the calls of the harts interleave, a waker that takes the
  condition lock first, as one must that makes the condition true, and then comes to look at
  the sleeper, for which it needs the process lock, finds that the sleeper has switched; its
  state and channel are set by then, and a \<open>wakeup\<close> on that channel queues it.
\<close>

theorem sleep_no_lost_wakeup:
  assumes "spin_ok E" and "intr_ok E" and "myproc k = Some i" and "i < NPROC E"
    and "state (procs (rb k) i) = RUNNING" and "table_ok E k q"
    and "locks k = [lk]" and "lk \<noteq> Proc_lock i" and "noff (mycpu k) = 1"
    and "proc_free k2" and "myproc k2 \<noteq> Some i"
  shows "\<exists>k1. sleep E ch lk k = resume_with E k1 (\<lambda>k.
      kbind (pset (chan_update (\<lambda>_. None)) (Some i) k) (\<lambda>k.
      kbind (release_p E (Some i) k) (acquire E lk))) \<and>
    calls k1 = calls k @ [Acquire (Proc_lock i), Release lk] \<and>
    locks k1 = [Proc_lock i] \<and> state (procs (rb k1) i) = SLEEPING \<and> chan (procs (rb k1) i) = ch \<and>
    (\<forall>h g s0 s. sleeper_and_waker lk i (calls k) (drop (length (calls k)) (calls k1)) h g s0 \<longrightarrow>
      reachable (\<lambda>s. s = s0) advance s \<longrightarrow> Proc_lock i \<in> holds s g \<longrightarrow> snd (s h) = []) \<and>
    (\<exists>k3 q3. wakeup E ch (k2\<lparr>rb := rb k1\<rparr>) = ret k3 \<and> state (procs (rb k3) i) = RUNNABLE \<and>
      table_ok E k3 q3 \<and> i \<in> set q3)"
proof -
  obtain k1 where k1: "sleep E ch lk k = resume_with E k1 (\<lambda>k.
      kbind (pset (chan_update (\<lambda>_. None)) (Some i) k) (\<lambda>k.
      kbind (release_p E (Some i) k) (acquire E lk)))" "locks k1 = [Proc_lock i]" "table_ok E k1 q"
    "procs (rb k1) = (procs (rb k))(i := (procs (rb k) i)\<lparr>chan := ch, state := SLEEPING\<rparr>)"
    "calls k1 = calls k @ [Acquire (Proc_lock i), Release lk]"
    using sleep_switches [OF assms(1-9)] by blast
  have f: "proc_free (k2\<lparr>rb := rb k1\<rparr>)" "table_ok E (k2\<lparr>rb := rb k1\<rparr>) q"
    using assms(10) k1(3) by (simp_all add: proc_free_def table_ok_def)
  obtain k3 q3 where k3: "wakeup E ch (k2\<lparr>rb := rb k1\<rparr>) = ret k3" "table_ok E k3 q3"
    "wakes ({..<NPROC E} \<inter> sleeping_on (k2\<lparr>rb := rb k1\<rparr>) ch) (k2\<lparr>rb := rb k1\<rparr>) k3"
    "set q3 = set q \<union> ({..<NPROC E} \<inter> sleeping_on (k2\<lparr>rb := rb k1\<rparr>) ch)"
    using wakeup_ok [OF assms(1) f, of ch] by blast
  have "i \<in> {..<NPROC E} \<inter> sleeping_on (k2\<lparr>rb := rb k1\<rparr>) ch"
    using assms(4,11) k1(4) by (simp add: sleeping_on_def)
  then have "state (procs (rb k3) i) = RUNNABLE" "i \<in> set q3"
    using wakes_fields(1) [OF k3(3), of i] k3(4) by simp_all
  then have w: "\<exists>k3 q3. wakeup E ch (k2\<lparr>rb := rb k1\<rparr>) = ret k3 \<and> state (procs (rb k3) i) = RUNNABLE \<and>
      table_ok E k3 q3 \<and> i \<in> set q3"
    using k3(1,2) by blast
  have "snd (s h) = []"
    if "sleeper_and_waker lk i (calls k) [Acquire (Proc_lock i), Release lk] h g s0"
      "reachable (\<lambda>s. s = s0) advance s" "Proc_lock i \<in> holds s g" for h g s0 s
    using waker_finds_sleeper [OF that(1) assms(8) that(2,3)] .
  then show ?thesis
    using k1 w by (intro exI [of _ k1]) simp
qed

text \<open>Process 1 goes to sleep on hart 0; hart 1 takes \<open>tickslock\<close> and gets to its lock.\<close>

theorem sleep_no_lost_wakeup_witness:
  "\<exists>k k1 k2 k3 q3 s0 s. sleep sample_env (Some Ch_ticks) Ticks_lock k = resume_with sample_env k1 (\<lambda>k.
      kbind (pset (chan_update (\<lambda>_. None)) (Some 1) k) (\<lambda>k.
      kbind (release_p sample_env (Some 1) k) (acquire sample_env Ticks_lock))) \<and>
    sleeper_and_waker Ticks_lock 1 (calls k) (drop (length (calls k)) (calls k1)) 0 1 s0 \<and>
    reachable (\<lambda>s. s = s0) advance s \<and>
    Proc_lock 1 \<in> holds s 1 \<and> snd (s 0) = [] \<and>
    wakeup sample_env (Some Ch_ticks) (k2\<lparr>rb := rb k1\<rparr>) = ret k3 \<and> table_ok sample_env k3 q3 \<and> 1 \<in> set q3"
proof -
  define k where "k = acq sample_env Ticks_lock sample_kernel"
  have n: "Ticks_lock \<notin> set (locks sample_kernel)" by simp
  note a = acquire_ok [OF sample_spin n, folded k_def]
  define k2 where "k2 = sample_kernel\<lparr>hart := 1\<rparr>"
  have k2: "proc_free k2" "myproc k2 \<noteq> Some 1"
    by (simp_all add: k2_def sample_at_def proc_free_def locks_def myproc_def mycpu_def cpuid_def)
  have k: "myproc k = Some 1" "(1 :: nat) < NPROC sample_env" "state (procs (rb k) 1) = RUNNING"
    "table_ok sample_env k []" "locks k = [Ticks_lock]" "noff (mycpu k) = 1"
    using a sample_table by (simp_all add: k_def sample_procs_def blank_proc_def)
  obtain k1 k3 q3 where r: "sleep sample_env (Some Ch_ticks) Ticks_lock k = resume_with sample_env k1 (\<lambda>k.
      kbind (pset (chan_update (\<lambda>_. None)) (Some 1) k) (\<lambda>k.
      kbind (release_p sample_env (Some 1) k) (acquire sample_env Ticks_lock)))"
    "calls k1 = calls k @ [Acquire (Proc_lock 1), Release Ticks_lock]"
    "\<forall>h g s0 s. sleeper_and_waker Ticks_lock 1 (calls k) (drop (length (calls k)) (calls k1)) h g s0 \<longrightarrow>
      reachable (\<lambda>s. s = s0) advance s \<longrightarrow> Proc_lock 1 \<in> holds s g \<longrightarrow> snd (s h) = []"
    "wakeup sample_env (Some Ch_ticks) (k2\<lparr>rb := rb k1\<rparr>) = ret k3" "table_ok sample_env k3 q3" "1 \<in> set q3"
    using sleep_no_lost_wakeup [OF sample_spin sample_intr k(1-5) _ k(6) k2, of "Some Ch_ticks"] by blast
  define es where "es = [Acquire (Proc_lock 1), Release Ticks_lock, Release (Proc_lock 1)]"
  define ws where "ws = [Acquire Ticks_lock, Acquire (Proc_lock 1)]"
  define s0 :: harts where "s0 = (\<lambda>_. ([], []))(0 := (calls k, es), 1 := ([], ws))"
  have c: "held (calls k) [] = [Ticks_lock]" using k(5) by (simp add: locks_def)
  have s0: "sleeper_and_waker Ticks_lock 1 (calls k) (drop (length (calls k)) (calls k1)) 0 1 s0"
    by (auto simp: sleeper_and_waker_def exclusive_def holds_def s0_def es_def ws_def r(2))
      (simp_all add: c)
  define s1 where "s1 = s0(0 := (calls k @ es, []))"
  have "reachable (\<lambda>s. s = s0) advance (s0(0 := (fst (s0 0) @ es, [])))"
    by (rule run_alone) (auto simp: s0_def es_def c holds_def intro: reachable.start)
  then have "reachable (\<lambda>s. s = s0) advance s1" by (simp add: s1_def s0_def)
  then have "reachable (\<lambda>s. s = s0) advance (s1(1 := (fst (s1 1) @ ws, [])))"
    by (rule run_alone) (auto simp: s1_def s0_def ws_def es_def c holds_def)
  moreover have h: "Proc_lock 1 \<in> holds (s1(1 := (fst (s1 1) @ ws, []))) 1"
    by (simp add: s1_def s0_def ws_def)
  ultimately have s: "reachable (\<lambda>s. s = s0) advance (s1(1 := (fst (s1 1) @ ws, [])))"
    "snd ((s1(1 := (fst (s1 1) @ ws, []))) 0) = []"
    using r(3) s0 by blast+
  show ?thesis
    by (intro exI conjI) (rule r(1) s0 s h r(4-6))+
qed

section \<open>Creating processes\<close>

text \<open>
  C15. \<open>allocproc\<close> has three outcomes: every entry is in use; an allocation fails and the first
  unused entry is unused again; or that entry is returned with its lock, and no other, newly
  held, with the next pid, a context that starts in \<open>forkret\<close> on the top of its kernel stack,
  cleared run times, nice value and tree links. No other entry changes.
\<close>

theorem allocproc_correct:
  assumes "spin_ok E" and "proc_free k" and "Pid_lock \<notin> set (locks k)" and "table_ok E k q"
  shows "\<exists>r k'. allocproc E k = ret (r, k') \<and> table_ok E k' q \<and>
    (\<forall>j. first_unused E k \<noteq> Some j \<longrightarrow> procs (rb k') j = procs (rb k) j) \<and>
    (case r of
       None \<Rightarrow> locks k' = locks k \<and> (\<forall>j. state (procs (rb k') j) = state (procs (rb k) j))
     | Some i \<Rightarrow> first_unused E k = Some i \<and> locks k' = Proc_lock i # locks k \<and>
         nextpid k' = i32 (nextpid k + 1) \<and>
         (let p = procs (rb k') i in state p = USED \<and> pid p = nextpid k \<and>
           proc.trapframe p \<noteq> 0 \<and> pagetable p \<noteq> 0 \<and>
           cx_ra (ctxt p) = forkret_addr E \<and> cx_sp (ctxt p) = kstack p + PGSIZE E \<and>
           virtualRuntime p = 0 \<and> currentRuntime p = 0 \<and> niceVal p = 0 \<and>
           left p = None \<and> right p = None \<and> pParent p = None))"
proof (cases "first_unused E k")
  case None
  then obtain k' where k': "allocproc E k = ret (None, k')" "stable k k'" "rb k' = rb k"
    using allocproc_ok [OF assms(1-3)] by auto
  then show ?thesis
    using None assms(4) stable_views(1) [OF k'(2)]
    by (intro exI [of _ None] exI [of _ k']) (simp add: table_ok_def)
next
  case (Some c)
  have c: "c < NPROC E" "c \<notin> set q"
    using first_unused_Some [OF Some] table_ok_queue(4) [OF assms(4), of c] by auto
  have n: "Proc_lock c \<notin> set (locks k)" using assms(2) by (simp add: proc_free_def)
  define page where "page = fst (fst (kalloc E (mach k)))"
  obtain k' where np: "nextpid k' = i32 (nextpid k + 1)" and
    d: "allocproc E k = ret (None, k') \<and> mem_stable k k' \<and> rb k' = rb (put freed c k) \<or>
     (\<exists>pt. page \<noteq> 0 \<and> pt \<noteq> 0 \<and> allocproc E k = ret (Some c, k') \<and>
       mem_stable (acq E (Proc_lock c) k) k' \<and> rb k' = rb (put (fresh E page pt (nextpid k)) c k))"
    using allocproc_ok [OF assms(1-3)] unfolding Some option.case page_def by blast
  from d show ?thesis
  proof (elim disjE exE conjE)
    assume k': "allocproc E k = ret (None, k')" "mem_stable k k'" "rb k' = rb (put freed c k)"
    have "table_ok E (put freed c k) q"
      by (rule table_ok_put [OF assms(4) c(2)])
        (use table_ok_queue(6) [OF assms(4) c] in \<open>simp add: insertable_def\<close>)
    then have "table_ok E k' q" using table_ok_rb [OF k'(3)] by blast
    moreover have "\<forall>j. state (procs (rb k') j) = state (procs (rb k) j)"
      using first_unused_Some [OF Some] by (simp add: k'(3))
    ultimately show ?thesis
      using k' Some mem_stable_views(1) [OF k'(2)]
      by (intro exI [of _ None] exI [of _ k']) simp
  next
    fix pt assume k': "page \<noteq> 0" "pt \<noteq> 0" "allocproc E k = ret (Some c, k')"
      "mem_stable (acq E (Proc_lock c) k) k'" "rb k' = rb (put (fresh E page pt (nextpid k)) c k)"
    have "table_ok E (put (fresh E page pt (nextpid k)) c k) q"
      by (rule table_ok_put [OF assms(4) c(2)]) (simp add: fresh_def)
    then have "table_ok E k' q" using table_ok_rb [OF k'(5)] by blast
    then show ?thesis
      using k'(1-3) Some np mem_stable_views(1) [OF k'(4)] acquire_ok(2) [OF assms(1) n]
      by (intro exI [of _ "Some c"] exI [of _ k']) (simp add: k'(5) fresh_def Let_def)
  qed
qed

theorem allocproc_correct_witness:
  "\<exists>r k'. allocproc sample_env sample_kernel = ret (r, k') \<and> table_ok sample_env k' [] \<and>
    (r = None \<or> r = Some 4 \<and> locks k' = [Proc_lock 4])"
proof -
  have f: "first_unused sample_env sample_kernel = Some 4"
    by (simp add: first_unused_def sample_procs_def blank_proc_def upt_rec)
  have l: "Pid_lock \<notin> set (locks sample_kernel)" by simp
  obtain r k' where "allocproc sample_env sample_kernel = ret (r, k')" "table_ok sample_env k' []"
    "case r of
       None \<Rightarrow> locks k' = locks sample_kernel \<and> (\<forall>j. state (procs (rb k') j) = state (procs (rb sample_kernel) j))
     | Some i \<Rightarrow> Some 4 = Some i \<and> locks k' = Proc_lock i # locks sample_kernel \<and>
         nextpid k' = i32 (nextpid sample_kernel + 1) \<and>
         (let p = procs (rb k') i in state p = USED \<and> pid p = nextpid sample_kernel \<and>
           proc.trapframe p \<noteq> 0 \<and> pagetable p \<noteq> 0 \<and>
           cx_ra (ctxt p) = forkret_addr sample_env \<and> cx_sp (ctxt p) = kstack p + PGSIZE sample_env \<and>
           virtualRuntime p = 0 \<and> currentRuntime p = 0 \<and> niceVal p = 0 \<and>
           left p = None \<and> right p = None \<and> pParent p = None)"
    using allocproc_correct [OF sample_spin sample_free l sample_table] unfolding f by blast
  then show ?thesis by (cases r) auto
qed

text \<open>The entry of a child that keeps all but its place in the tree.\<close>

lemma child_fields:
  assumes "redata (child_of E p P page pt n dir C0) C"
  shows "state C = RUNNABLE" "pid C = n" "parent C = Some p" "sz C = sz P" "virtualRuntime C = 0"
    "niceVal C = 0" "proc.trapframe C = page"
    "\<forall>fd < NOFILE E. fd < length (ofile C) \<longrightarrow> ofile P ! fd \<noteq> 0 \<longrightarrow> ofile C ! fd = ofile P ! fd"
  using redata_fields [OF assms]
  by (simp_all add: child_of_def copied_def fresh_def dup_list_nth)

text \<open>
  C16. \<open>fork\<close> either fails with -1, and then nothing changed but unused entries, or returns the
  pid of a new runnable process in the first unused entry: it is queued with virtual runtime
  0, has the caller as parent, its memory size, open files, and its registers except that it
  will see 0 as the result; the caller's own registers are untouched, no lock stays held, and
  no other process changes but for its tree links.
\<close>

theorem fork_correct:
  assumes "spin_ok E" and "filedup_ok E" and "in_kernel E p k" and "table_ok E k q"
    and "proc.trapframe (procs (rb k) p) \<noteq> 0"
    and "fst (fst (kalloc E (mach k))) \<noteq> proc.trapframe (procs (rb k) p)"
    and "length (ofile (procs (rb k) p)) = NOFILE E"
  shows "\<exists>r k'. fork E k = ret (r, k') \<and> locks k' = [] \<and>
    (r = - 1 \<and> table_ok E k' q \<and> same_used k k' \<or>
     (\<exists>c q'. first_unused E k = Some c \<and> r = nextpid k \<and> nextpid k' = i32 (nextpid k + 1) \<and>
        table_ok E k' q' \<and> set q' = insert c (set q) \<and>
        (let P = procs (rb k) p; C = procs (rb k') c in
         state C = RUNNABLE \<and> pid C = nextpid k \<and> parent C = Some p \<and> sz C = sz P \<and>
         virtualRuntime C = 0 \<and> niceVal C = 0 \<and>
         (\<forall>fd < NOFILE E. fd < length (ofile C) \<longrightarrow> ofile P ! fd \<noteq> 0 \<longrightarrow> ofile C ! fd = ofile P ! fd) \<and>
         tframes k' (proc.trapframe C) = (tframes k (proc.trapframe P))\<lparr>tf_a0 := 0\<rparr> \<and>
         tframes k' (proc.trapframe P) = tframes k (proc.trapframe P)) \<and>
        (\<forall>j. j \<noteq> c \<longrightarrow> redata (procs (rb k) j) (procs (rb k') j))))"
proof -
  obtain r k' where k': "fork E k = ret (r, k')" "mem_stable k k'" and d:
    "r = - 1 \<and> table_ok E k' q \<and> same_used k k' \<or>
     (\<exists>c page pt dir. first_unused E k = Some c \<and> c \<noteq> p \<and> r = nextpid k \<and>
        nextpid k' = i32 (nextpid k + 1) \<and>
        table_ok E k' (queue_in (put (child_of E p (procs (rb k) p) page pt r dir) c k) c q) \<and>
        tree_frame (insert c (set q)) (rb (put (child_of E p (procs (rb k) p) page pt r dir) c k)) (rb k') \<and>
        tframes k' page = (tframes k (proc.trapframe (procs (rb k) p)))\<lparr>tf_a0 := 0\<rparr> \<and>
        tframes k' (proc.trapframe (procs (rb k) p)) = tframes k (proc.trapframe (procs (rb k) p)))"
    using fork_ok [OF assms(1-5)] assms(6) by blast
  have l: "locks k' = []" using mem_stable_views(1) [OF k'(2)] assms(3) by (simp add: in_kernel_def)
  from d show ?thesis
  proof (elim disjE exE conjE)
    assume "r = - 1" "table_ok E k' q" "same_used k k'"
    then show ?thesis using k'(1) l by blast
  next
    fix c page pt dir
    assume c: "first_unused E k = Some c" "c \<noteq> p" "r = nextpid k" "nextpid k' = i32 (nextpid k + 1)"
      "table_ok E k' (queue_in (put (child_of E p (procs (rb k) p) page pt r dir) c k) c q)"
      "tree_frame (insert c (set q)) (rb (put (child_of E p (procs (rb k) p) page pt r dir) c k)) (rb k')"
      "tframes k' page = (tframes k (proc.trapframe (procs (rb k) p)))\<lparr>tf_a0 := 0\<rparr>"
      "tframes k' (proc.trapframe (procs (rb k) p)) = tframes k (proc.trapframe (procs (rb k) p))"
    have rd: "redata (child_of E p (procs (rb k) p) page pt r dir (procs (rb k) c)) (procs (rb k') c)"
      using tree_frame_fields(1) [OF c(6), of c] by simp
    have other: "redata (procs (rb k) j) (procs (rb k') j)" if "j \<noteq> c" for j
      using tree_frame_fields(1) [OF c(6), of j] that by simp
    show ?thesis
    proof (rule exI [of _ r], rule exI [of _ k'], intro conjI disjI2 k'(1) l, rule exI [of _ c],
        rule exI, intro conjI c(1,3,4,5))
      show "set (queue_in (put (child_of E p (procs (rb k) p) page pt r dir) c k) c q) = insert c (set q)"
        by simp
    qed (use child_fields [OF rd] c(3,5,7,8) other in \<open>simp_all add: Let_def\<close>)
  qed
qed

theorem fork_correct_witness:
  "\<exists>r k'. fork sample_env sample_kernel = ret (r, k') \<and> locks k' = [] \<and>
    (r = - 1 \<or> r = 5 \<and> state (procs (rb k') 4) = RUNNABLE)"
proof -
  have f: "first_unused sample_env sample_kernel = Some 4"
    by (simp add: first_unused_def sample_procs_def blank_proc_def upt_rec)
  have "proc.trapframe (procs (rb sample_kernel) 1) \<noteq> 0"
    "fst (fst (kalloc sample_env (mach sample_kernel))) \<noteq> proc.trapframe (procs (rb sample_kernel) 1)"
    "length (ofile (procs (rb sample_kernel) 1)) = NOFILE sample_env"
    by (simp_all add: sample_procs_def blank_proc_def) (simp_all add: sample_ext_def)
  from fork_correct [OF sample_spin sample_filedup sample_running sample_table this]
  show ?thesis unfolding f by (auto simp: Let_def)
qed

text \<open>Every process in use has a pid of its own, handed out before.\<close>

definition pids_ok :: "'m ext \<Rightarrow> 'm kernel \<Rightarrow> bool" where
  "pids_ok E k \<longleftrightarrow> 0 < nextpid k \<and>
     (\<forall>i < NPROC E. state (procs (rb k) i) \<noteq> UNUSED \<longrightarrow>
        0 < pid (procs (rb k) i) \<and> pid (procs (rb k) i) < nextpid k) \<and>
     (\<forall>i < NPROC E. \<forall>j < NPROC E. i \<noteq> j \<longrightarrow> state (procs (rb k) i) \<noteq> UNUSED \<longrightarrow>
        state (procs (rb k) j) \<noteq> UNUSED \<longrightarrow> pid (procs (rb k) i) \<noteq> pid (procs (rb k) j))"

lemma pids_grow:
  assumes ok: "pids_ok E k" and le: "nextpid k \<le> nextpid k'"
    and step: "\<And>i. state (procs (rb k') i) \<noteq> UNUSED \<Longrightarrow>
      state (procs (rb k) i) \<noteq> UNUSED \<and> pid (procs (rb k') i) = pid (procs (rb k) i) \<or>
      i = c \<and> pid (procs (rb k') i) = nextpid k \<and> nextpid k < nextpid k'"
  shows "pids_ok E k'"
  unfolding pids_ok_def
proof (intro conjI allI impI)
  have pos: "0 < nextpid k" using ok by (simp add: pids_ok_def)
  then show "0 < nextpid k'" using le by simp
  have old: "0 < pid (procs (rb k) i) \<and> pid (procs (rb k) i) < nextpid k"
    if "i < NPROC E" "state (procs (rb k) i) \<noteq> UNUSED" for i
    using ok that unfolding pids_ok_def by blast
  fix i assume i: "i < NPROC E" "state (procs (rb k') i) \<noteq> UNUSED"
  show "0 < pid (procs (rb k') i)" "pid (procs (rb k') i) < nextpid k'"
    using step [OF i(2)] old [OF i(1)] pos le by auto
  fix j assume j: "j < NPROC E" "i \<noteq> j" "state (procs (rb k') j) \<noteq> UNUSED"
  have "pid (procs (rb k) i) \<noteq> pid (procs (rb k) j)"
    if "state (procs (rb k) i) \<noteq> UNUSED" "state (procs (rb k) j) \<noteq> UNUSED"
    using ok i(1) j(1,2) that unfolding pids_ok_def by blast
  then show "pid (procs (rb k') i) \<noteq> pid (procs (rb k') j)"
    using step [OF i(2)] step [OF j(3)] old [OF i(1)] old [OF j(1)] j(2) by auto
qed

text \<open>
  C17. Pids stay unique: as long as the 32-bit counter has not reached its end, \<open>fork\<close> keeps
  the pids of all processes in use distinct, positive and below \<open>nextpid\<close>.
\<close>

theorem fork_pids_unique:
  assumes "spin_ok E" and "filedup_ok E" and "in_kernel E p k" and "table_ok E k q"
    and "proc.trapframe (procs (rb k) p) \<noteq> 0"
    and "pids_ok E k" and "nextpid k < 2 ^ 31 - 1"
  shows "\<exists>r k'. fork E k = ret (r, k') \<and> pids_ok E k'"
proof -
  have np: "i32 (nextpid k + 1) = nextpid k + 1"
    using assms(6,7) by (simp add: pids_ok_def)
  obtain r k' where k': "fork E k = ret (r, k')" and d: "same_used k k' \<or>
     (\<exists>c page pt dir. first_unused E k = Some c \<and> r = nextpid k \<and> nextpid k' = nextpid k + 1 \<and>
        tree_frame (insert c (set q)) (rb (put (child_of E p (procs (rb k) p) page pt r dir) c k)) (rb k'))"
    using fork_ok [OF assms(1-5)] unfolding np by blast
  from d have "pids_ok E k'"
  proof (elim disjE exE conjE)
    assume s: "same_used k k'"
    have "state (procs (rb k) i) \<noteq> UNUSED \<and> pid (procs (rb k') i) = pid (procs (rb k) i)"
      if "state (procs (rb k') i) \<noteq> UNUSED" for i
    proof -
      have "if state (procs (rb k) i) = UNUSED then state (procs (rb k') i) = UNUSED
          else procs (rb k') i = procs (rb k) i"
        using s unfolding same_used_def by meson
      with that show ?thesis by (auto split: if_splits)
    qed
    moreover have "nextpid k \<le> nextpid k'" using s np by (auto simp: same_used_def)
    ultimately show ?thesis using pids_grow [OF assms(6)] by blast
  next
    fix c page pt dir assume c: "first_unused E k = Some c" "r = nextpid k" "nextpid k' = nextpid k + 1"
      "tree_frame (insert c (set q)) (rb (put (child_of E p (procs (rb k) p) page pt r dir) c k)) (rb k')"
    have "pid (procs (rb k') i) = (if i = c then nextpid k else pid (procs (rb k) i))"
      "state (procs (rb k') i) = (if i = c then RUNNABLE else state (procs (rb k) i))" for i
      using redata_fields(5,1) [OF tree_frame_fields(1) [OF c(4), of i]] c(2)
      by (simp_all add: child_of_def copied_def fresh_def)
    moreover have "nextpid k < nextpid k'" using c(3) by simp
    ultimately show ?thesis using pids_grow [OF assms(6), of k' c] by (auto split: if_splits)
  qed
  with k' show ?thesis by blast
qed

theorem fork_pids_unique_witness:
  "\<exists>r k'. fork sample_env sample_kernel = ret (r, k') \<and> pids_ok sample_env k'"
proof -
  have "proc.trapframe (procs (rb sample_kernel) 1) \<noteq> 0"
    by (simp add: sample_procs_def blank_proc_def)
  moreover have "pids_ok sample_env sample_kernel" "nextpid sample_kernel < 2 ^ 31 - 1"
    by (auto simp: pids_ok_def sample_procs_def blank_proc_def)
  ultimately show ?thesis
    by (rule fork_pids_unique [OF sample_spin sample_filedup sample_running sample_table])
qed

section \<open>Ending processes\<close>

text \<open>
  C18. \<open>exit\<close> of any process but the init process, called without locks, gets to its last switch:
  the process is then a zombie with its exit status, all files closed, no directory, no
  children left (they belong to the init process), holding only its own lock, in no queue, and
  with its parent not asleep in \<open>wait\<close>. It has given back exactly the references that its open
  files and its directory are, each once, with no transaction left open. The calls of the file
  system are assumed to return when they are used as documented, that is with a reference the
  process holds, and an inode inside a transaction. None of the panics before the switch can
  happen; the one behind it is what follows if the process should be resumed.
\<close>

theorem exit_correct:
  assumes "spin_ok E" and "intr_ok E" and "fs_ok E p V" and "in_kernel E p k" and "table_ok E k q"
    and "initproc k \<noteq> Some p" and "length (ofile (procs (rb k) p)) = NOFILE E"
    and "\<not> in_op (V (mach k))" and "refs_of (ofile (procs (rb k) p)) \<subseteq># open_refs (V (mach k))"
    and "cwd (procs (rb k) p) \<in># dir_refs (V (mach k))"
  shows "\<exists>k1. exit E status k = resume_with E k1 (\<lambda>k. err (Panic ''zombie exit'')) \<and>
    myproc k1 = Some p \<and> locks k1 = [Proc_lock p] \<and>
    state (procs (rb k1) p) = ZOMBIE \<and> xstate (procs (rb k1) p) = status \<and>
    (\<forall>fd < NOFILE E. fd < length (ofile (procs (rb k1) p)) \<longrightarrow> ofile (procs (rb k1) p) ! fd = 0) \<and>
    cwd (procs (rb k1) p) = 0 \<and> (\<forall>i < NPROC E. parent (procs (rb k1) i) \<noteq> Some p) \<and>
    (\<forall>f < NPROC E. f \<noteq> p \<longrightarrow> parent (procs (rb k1) p) = Some f \<longrightarrow>
       \<not> (state (procs (rb k1) f) = SLEEPING \<and> chan (procs (rb k1) f) = Some (Ch_proc f))) \<and>
    (\<exists>q1. table_ok E k1 q1 \<and> p \<notin> set q1) \<and>
    V (mach k1) = \<lparr>open_refs = open_refs (V (mach k)) - refs_of (ofile (procs (rb k) p)),
      dir_refs = dir_refs (V (mach k)) - {#cwd (procs (rb k) p)#}, in_op = False\<rparr>"
  using exit_ok [OF assms] unfolding dead_def by blast

theorem exit_correct_witness:
  "exit fs_env 3 fs_kernel = err (Panic ''zombie exit'') \<and>
   (\<exists>k1. exit fs_env 3 fs_kernel = resume_with fs_env k1 (\<lambda>k. err (Panic ''zombie exit'')) \<and>
      state (procs (rb k1) 1) = ZOMBIE \<and> xstate (procs (rb k1) 1) = 3 \<and>
      mach k1 = \<lparr>open_refs = {#5#}, dir_refs = {#}, in_op = False\<rparr>)"
proof -
  have c: "initproc fs_kernel \<noteq> Some 1" "length (ofile (procs (rb fs_kernel) 1)) = NOFILE fs_env"
    "\<not> in_op (mach fs_kernel)" "refs_of (ofile (procs (rb fs_kernel) 1)) \<subseteq># open_refs (mach fs_kernel)"
    "cwd (procs (rb fs_kernel) 1) \<in># dir_refs (mach fs_kernel)"
    and m: "\<lparr>open_refs = open_refs (mach fs_kernel) - refs_of (ofile (procs (rb fs_kernel) 1)),
      dir_refs = dir_refs (mach fs_kernel) - {#cwd (procs (rb fs_kernel) 1)#}, in_op = False\<rparr> =
      \<lparr>open_refs = {#5#}, dir_refs = {#}, in_op = False\<rparr>"
    by (simp_all add: fs_kernel_def sample_procs_def blank_proc_def refs_of_def)
  obtain k1 where k1: "exit fs_env 3 fs_kernel = resume_with fs_env k1 (\<lambda>k. err (Panic ''zombie exit''))"
    "myproc k1 = Some 1" "state (procs (rb k1) 1) = ZOMBIE" "xstate (procs (rb k1) 1) = 3"
    "mach k1 = \<lparr>open_refs = {#5#}, dir_refs = {#}, in_op = False\<rparr>"
    using exit_correct [OF fs_env_ok fs_kernel_ok c, of 3] unfolding m by blast
  have "resume_with fs_env k1 (\<lambda>k. err (Panic ''zombie exit'')) = err (Panic ''zombie exit'')"
    using k1(2) by (simp add: resume_with_def fs_env_def)
  with k1 show ?thesis by (intro conjI exI [of _ k1]) simp_all
qed

text \<open>
  C19. \<open>wait\<close>, called without locks: if a child is a zombie, the first one is reported by its pid
  and its entry is freed, or the copy of its status fails and it stays as it is, with -1. With
  no zombie, the call fails with -1 if there is no child or the caller was killed, and sleeps
  on its own process otherwise, with its own lock as the only one held at the switch.
\<close>

theorem wait_correct:
  assumes "spin_ok E" and "intr_ok E" and "in_kernel E p k" and "table_ok E k q"
  shows "case find (zombie_child E p k) [0..<NPROC E] of
      Some i \<Rightarrow> \<exists>k'. wait E addr k =
          ret (if status_copy E addr p i k < 0 then - 1 else pid (procs (rb k) i), k') \<and>
        locks k' = [] \<and> table_ok E k' q \<and>
        rb k' = (if status_copy E addr p i k < 0 then rb k else rb (put freed i k))
    | None \<Rightarrow>
        if \<not> (\<exists>i < NPROC E. parent (procs (rb k) i) = Some p) \<or> killed (procs (rb k) p) \<noteq> 0
        then \<exists>k'. wait E addr k = ret (- 1, k') \<and> locks k' = [] \<and> rb k' = rb k
        else \<exists>k1. wait E addr k = kbind (swtch E (Ctx_proc p) (Ctx_cpu (cpuid k1)) k1)
            (\<lambda>k'. wait_again E addr p (set_mycpu (intena_update (\<lambda>_. intena (mycpu k1))) k')) \<and>
          myproc k1 = Some p \<and> locks k1 = [Proc_lock p] \<and> table_ok E k1 q \<and> procs (rb k1) =
            (procs (rb k))(p := (procs (rb k) p)\<lparr>chan := Some (Ch_proc p), state := SLEEPING\<rparr>)"
proof (cases "find (zombie_child E p k) [0..<NPROC E]")
  case None
  show ?thesis
    using wait_ok [OF assms, of addr] stable_views(1) assms(3)
    unfolding None option.case in_kernel_def by (auto split: if_splits)
next
  case (Some i)
  then have i: "i < NPROC E" "state (procs (rb k) i) = ZOMBIE"
    by (auto simp: find_Some_iff zombie_child_def)
  then have q: "i \<notin> set q" using table_ok_queue(4) [OF assms(4), of i] by auto
  obtain k' where k': "wait E addr k =
      ret (if status_copy E addr p i k < 0 then - 1 else pid (procs (rb k) i), k')" "mem_stable k k'"
    "rb k' = (if status_copy E addr p i k < 0 then rb k else rb (put freed i k))"
    using wait_ok [OF assms, of addr] unfolding Some option.case by blast
  have "table_ok E (put freed i k) q"
    by (rule table_ok_put [OF assms(4) q])
      (use table_ok_queue(6) [OF assms(4) i(1) q] in \<open>simp add: insertable_def\<close>)
  then have "table_ok E k' q"
    using assms(4) k'(3) table_ok_rb [of k' k E q] table_ok_rb [of k' "put freed i k" E q]
    by (auto split: if_splits)
  then show ?thesis
    using k' mem_stable_views(1) [OF k'(2)] assms(3) unfolding Some option.case by (simp add: in_kernel_def)
qed

theorem wait_correct_witness:
  "\<exists>k'. wait sample_env 0 sample_kernel = ret (4, k') \<and> state (procs (rb k') 3) = UNUSED"
proof -
  have f: "find (zombie_child sample_env 1 sample_kernel) [0..<NPROC sample_env] = Some 3"
    by (simp add: zombie_child_def sample_procs_def blank_proc_def upt_rec)
  have c: "status_copy sample_env 0 1 3 sample_kernel = 0" "pid (procs (rb sample_kernel) 3) = 4"
    by (simp_all add: status_copy_def sample_procs_def blank_proc_def)
  show ?thesis
    using wait_correct [OF sample_spin sample_intr sample_running sample_table, of 0]
    unfolding f option.case c by auto
qed

end
