(* ===== verification/Sched_System.thy ===== *)
theory Sched_System
  imports Proc_Alloc Transition_Systems
begin

text \<open>
  The whole machine as a transition system: any number of harts run the scheduler and the
  processes, and interleave at the granularity of the critical sections of \<open>proc.c\<close>; sections
  nested in one that holds a process lock, as the call of \<open>insertProcess\<close> in \<open>yield\<close> and
  \<open>wakeup\<close>, belong to that one. The map \<open>duties\<close> says what each hart and each process (as a
  kernel thread) is in the middle of. A hart is in the scheduler without a process (\<open>Idle\<close>), has
  taken a process from the ready tree but not its lock yet (\<open>Claimed\<close>), runs a process (\<open>Runs\<close>),
  or is between \<open>sched\<close> and the release of the process lock by the scheduler (\<open>Parked\<close>). The
  stages of \<open>fork\<close> belong to the parent as a thread and not to its hart, because interrupts are on
  between the critical sections of \<open>fork\<close>: a timer interrupt can preempt the parent there, and it
  resumes \<open>fork\<close> on whichever hart takes it next. The child is allocated and its lock held
  (\<open>Building\<close>), unlocked (\<open>Built\<close>), has a parent (\<open>Adopted\<close>), or is runnable but not queued yet
  (\<open>Forking\<close>). One relation per function of \<open>proc.c\<close> gives its steps, which apply the models of
  the code: \<open>retrieveProcess\<close>, \<open>insertProcess\<close>, \<open>checkPreemption\<close>, \<open>make_runnable\<close>, and the
  contents left by \<open>allocproc\<close> and \<open>freeproc\<close>.
\<close>

datatype owner = Hart nat | Thread nat

datatype duty = Idle
  | Claimed nat | Runs nat | Parked nat
  | Building nat | Built nat | Adopted nat | Forking nat

record sys =
  tab :: rbs
  duties :: "owner \<Rightarrow> duty"

text \<open>The process whose code runs on a hart, the processes an owner is responsible for, and the
  processes whose lock it holds.\<close>

fun current :: "duty \<Rightarrow> ptr" where
  "current (Runs i) = Some i"
| "current _ = None"

fun owned :: "duty \<Rightarrow> nat set" where
  "owned Idle = {}"
| "owned (Parked i) = {}"
| "owned (Claimed i) = {i}"
| "owned (Runs i) = {i}"
| "owned (Building c) = {c}"
| "owned (Built c) = {c}"
| "owned (Adopted c) = {c}"
| "owned (Forking c) = {c}"

fun locked :: "duty \<Rightarrow> nat set" where
  "locked (Parked i) = {i}"
| "locked (Building c) = {c}"
| "locked _ = {}"

text \<open>Harts have the duties of the scheduler, threads those of \<open>fork\<close>.\<close>

fun fits :: "owner \<Rightarrow> duty \<Rightarrow> bool" where
  "fits w Idle = True"
| "fits (Hart h) d = (\<exists>i. d \<in> {Claimed i, Runs i, Parked i})"
| "fits (Thread i) d = (\<exists>c. d \<in> {Building c, Built c, Adopted c, Forking c})"

text \<open>
  Nobody holds the lock of process \<open>i\<close> across steps, and thread \<open>i\<close> runs on hart \<open>h\<close> outside the
  section of \<open>fork\<close> that holds the lock of the child.
\<close>

definition lock_free :: "sys \<Rightarrow> nat \<Rightarrow> bool" where
  "lock_free s i \<longleftrightarrow> (\<forall>w. i \<notin> locked (duties s w))"

definition unlocked :: "sys \<Rightarrow> nat \<Rightarrow> nat \<Rightarrow> bool" where
  "unlocked s h i \<longleftrightarrow> duties s (Hart h) = Runs i \<and> locked (duties s (Thread i)) = {}"

definition upd_proc :: "nat \<Rightarrow> (proc \<Rightarrow> proc) \<Rightarrow> rbs \<Rightarrow> rbs" where
  "upd_proc i u r = r\<lparr>procs := (procs r)(i := u (procs r i))\<rparr>"

text \<open>
  What a running process, an interrupt or another kernel path may change of a process without
  the scheduler noticing: anything but its scheduling state, its place in the tree and its
  nice value, which no system call changes.
\<close>

definition harmless :: "(proc \<Rightarrow> proc) \<Rightarrow> bool" where
  "harmless u \<longleftrightarrow> (\<forall>p. state (u p) = state p \<and> links (u p) = links p \<and> weightVal (u p) = weightVal p \<and>
     virtualRuntime (u p) = virtualRuntime p \<and> niceVal (u p) = niceVal p)"

text \<open>The entry after \<open>allocproc\<close>, for any saved context.\<close>

definition allocated :: "context_regs \<Rightarrow> u64 \<Rightarrow> u64 \<Rightarrow> int \<Rightarrow> proc \<Rightarrow> proc" where
  "allocated cx page pt n r = r\<lparr>pid := n, state := USED, trapframe := page, pagetable := pt,
     ctxt := cx, virtualRuntime := 0, currentRuntime := 0, maxExecutionTime := 0, niceVal := 0,
     left := None, right := None, pParent := None\<rparr>"

lemma fresh_allocated: "fresh E page pt n r = allocated (zero_context\<lparr>cx_ra := forkret_addr E,
    cx_sp := kstack r + PGSIZE E\<rparr>) page pt n r"
  by (simp add: fresh_def allocated_def)

section \<open>The steps, function by function\<close>

text \<open>
  \<open>scheduler\<close>: take a process from the tree, lock it, and run it if it is runnable; \<open>unpark\<close> is the
  release of the lock after the process has switched back.
\<close>

inductive sched_step :: "nat \<Rightarrow> sys \<Rightarrow> sys \<Rightarrow> bool" for N where
  pick: "duties s (Hart h) = Idle \<Longrightarrow> retrieveProcess N (tab s) = ret (Some i, t) \<Longrightarrow>
    sched_step N s (s\<lparr>tab := t, duties := (duties s)(Hart h := Claimed i)\<rparr>)"
| pick_none: "duties s (Hart h) = Idle \<Longrightarrow> retrieveProcess N (tab s) = ret (None, t) \<Longrightarrow>
    sched_step N s (s\<lparr>tab := t\<rparr>)"
| dispatch: "duties s (Hart h) = Claimed i \<Longrightarrow> lock_free s i \<Longrightarrow> state (procs (tab s) i) = RUNNABLE \<Longrightarrow>
    sched_step N s (s\<lparr>tab := upd_proc i (state_update (\<lambda>_. RUNNING)) (tab s),
      duties := (duties s)(Hart h := Runs i)\<rparr>)"
| drop: "duties s (Hart h) = Claimed i \<Longrightarrow> lock_free s i \<Longrightarrow> state (procs (tab s) i) \<noteq> RUNNABLE \<Longrightarrow>
    sched_step N s (s\<lparr>duties := (duties s)(Hart h := Idle)\<rparr>)"
| unpark: "duties s (Hart h) = Parked i \<Longrightarrow>
    sched_step N s (s\<lparr>duties := (duties s)(Hart h := Idle)\<rparr>)"

text \<open>
  \<open>yield\<close>, from \<open>usertrap\<close> or \<open>kerneltrap\<close>, wherever the process does not hold a lock, \<open>fork\<close>
  included. The preemption test reads the tree without its lock: the pointer \<open>m\<close> it passes and the
  entry this points to in \<open>r\<close> are any, only the process itself, whose lock is held, is as it is.
\<close>

inductive yield_step :: "nat \<Rightarrow> sys \<Rightarrow> sys \<Rightarrow> bool" for N where
  preempt: "unlocked s h i \<Longrightarrow> lock_free s i \<Longrightarrow> procs r i = procs (tab s) i \<Longrightarrow>
    checkPreemption (Some i) m r = ret True \<Longrightarrow>
    insertProcess N (Some i) (upd_proc i make_runnable (tab s)) = ret t \<Longrightarrow>
    yield_step N s (s\<lparr>tab := t, duties := (duties s)(Hart h := Parked i)\<rparr>)"

text \<open>\<open>sleep\<close>, and the last section of \<open>exit\<close>; \<open>fork\<close> calls neither.\<close>

inductive sleep_step :: "sys \<Rightarrow> sys \<Rightarrow> bool" where
  block: "duties s (Hart h) = Runs i \<Longrightarrow> duties s (Thread i) = Idle \<Longrightarrow> lock_free s i \<Longrightarrow>
    sleep_step s (s\<lparr>tab := upd_proc i (\<lambda>r. r\<lparr>chan := ch, state := SLEEPING\<rparr>) (tab s),
      duties := (duties s)(Hart h := Parked i)\<rparr>)"

inductive exit_step :: "sys \<Rightarrow> sys \<Rightarrow> bool" where
  die: "duties s (Hart h) = Runs i \<Longrightarrow> duties s (Thread i) = Idle \<Longrightarrow> lock_free s i \<Longrightarrow>
    exit_step s (s\<lparr>tab := upd_proc i (\<lambda>r. r\<lparr>xstate := status, state := ZOMBIE\<rparr>) (tab s),
      duties := (duties s)(Hart h := Parked i)\<rparr>)"

text \<open>
  One round of the loop of \<open>wakeup\<close>, or the wake-up in \<open>kill\<close>: any sleeping process, whatever its
  channel and whoever calls, an interrupt handler on an idle hart included.
\<close>

inductive wakeup_step :: "nat \<Rightarrow> sys \<Rightarrow> sys \<Rightarrow> bool" for N where
  wake: "i < N \<Longrightarrow> lock_free s i \<Longrightarrow> state (procs (tab s) i) = SLEEPING \<Longrightarrow>
    insertProcess N (Some i) (upd_proc i make_runnable (tab s)) = ret t \<Longrightarrow>
    wakeup_step N s (s\<lparr>tab := t\<rparr>)"

text \<open>
  \<open>fork\<close> by the thread \<open>i\<close>, whenever it runs: \<open>allocproc\<close> with its two outcomes, the copy that
  fails, the release of the child's lock, and the three sections that follow.
\<close>

inductive fork_step :: "nat \<Rightarrow> sys \<Rightarrow> sys \<Rightarrow> bool" for N where
  alloc: "duties s (Hart h) = Runs i \<Longrightarrow> duties s (Thread i) = Idle \<Longrightarrow>
    c < N \<Longrightarrow> lock_free s c \<Longrightarrow> state (procs (tab s) c) = UNUSED \<Longrightarrow>
    fork_step N s (s\<lparr>tab := upd_proc c (allocated cx page pt n) (tab s),
      duties := (duties s)(Thread i := Building c)\<rparr>)"
| alloc_fails: "duties s (Hart h) = Runs i \<Longrightarrow> duties s (Thread i) = Idle \<Longrightarrow>
    c < N \<Longrightarrow> lock_free s c \<Longrightarrow> state (procs (tab s) c) = UNUSED \<Longrightarrow>
    fork_step N s (s\<lparr>tab := upd_proc c freed (tab s)\<rparr>)"
| give_up: "duties s (Hart h) = Runs i \<Longrightarrow> duties s (Thread i) = Building c \<Longrightarrow>
    fork_step N s (s\<lparr>tab := upd_proc c freed (tab s), duties := (duties s)(Thread i := Idle)\<rparr>)"
| unlock: "duties s (Hart h) = Runs i \<Longrightarrow> duties s (Thread i) = Building c \<Longrightarrow>
    fork_step N s (s\<lparr>duties := (duties s)(Thread i := Built c)\<rparr>)"
| adopt: "duties s (Hart h) = Runs i \<Longrightarrow> duties s (Thread i) = Built c \<Longrightarrow>
    fork_step N s (s\<lparr>tab := upd_proc c (parent_update (\<lambda>_. Some i)) (tab s),
      duties := (duties s)(Thread i := Adopted c)\<rparr>)"
| publish: "duties s (Hart h) = Runs i \<Longrightarrow> duties s (Thread i) = Adopted c \<Longrightarrow> lock_free s c \<Longrightarrow>
    fork_step N s (s\<lparr>tab := upd_proc c (state_update (\<lambda>_. RUNNABLE)) (tab s),
      duties := (duties s)(Thread i := Forking c)\<rparr>)"
| enqueue: "duties s (Hart h) = Runs i \<Longrightarrow> duties s (Thread i) = Forking c \<Longrightarrow>
    insertProcess N (Some c) (tab s) = ret t \<Longrightarrow>
    fork_step N s (s\<lparr>tab := t, duties := (duties s)(Thread i := Idle)\<rparr>)"

text \<open>\<open>wait\<close> frees a zombie child.\<close>

inductive wait_step :: "nat \<Rightarrow> sys \<Rightarrow> sys \<Rightarrow> bool" for N where
  reap: "duties s (Hart h) = Runs i \<Longrightarrow> duties s (Thread i) = Idle \<Longrightarrow>
    c < N \<Longrightarrow> parent (procs (tab s) c) = Some i \<Longrightarrow> lock_free s c \<Longrightarrow>
    state (procs (tab s) c) = ZOMBIE \<Longrightarrow>
    wait_step N s (s\<lparr>tab := upd_proc c freed (tab s)\<rparr>)"

text \<open>The machine: any of these, and anything else that is harmless.\<close>

inductive step :: "nat \<Rightarrow> sys \<Rightarrow> sys \<Rightarrow> bool" for N where
  step_sched: "sched_step N s s' \<Longrightarrow> step N s s'"
| step_yield: "yield_step N s s' \<Longrightarrow> step N s s'"
| step_sleep: "sleep_step s s' \<Longrightarrow> step N s s'"
| step_exit: "exit_step s s' \<Longrightarrow> step N s s'"
| step_wakeup: "wakeup_step N s s' \<Longrightarrow> step N s s'"
| step_fork: "fork_step N s s' \<Longrightarrow> step N s s'"
| step_wait: "wait_step N s s' \<Longrightarrow> step N s s'"
| compute: "harmless u \<Longrightarrow> step N s (s\<lparr>tab := upd_proc i u (tab s)\<rparr>)"

text \<open>
  The start: \<open>main\<close> runs \<open>procinit\<close> and \<open>userinit\<close> on the zeroed table (between them memory and
  the trap frames change, in files outside the repository), and every hart enters its scheduler.
  That \<open>namei\<close> leaves the process table and the locks as they were holds at this point, where
  it is called before any process runs and for the root directory, which needs no search.
\<close>

definition zeroed :: "'m ext \<Rightarrow> 'm kernel \<Rightarrow> bool" where
  "zeroed E k \<longleftrightarrow> calls k = [] \<and> (\<forall>i < NPROC E. left (procs (rb k) i) = None \<and>
     right (procs (rb k) i) = None \<and> niceVal (procs (rb k) i) = 0)"

definition namei_ok :: "'m ext \<Rightarrow> bool" where
  "namei_ok E \<longleftrightarrow> (\<forall>k ip k'. namei E ''/'' k = ret (ip, k') \<longrightarrow> rb k' = rb k \<and> locks k' = locks k)"

definition boot :: "'m ext \<Rightarrow> sys \<Rightarrow> bool" where
  "boot E s \<longleftrightarrow> (\<exists>k k1 k2 m t. zeroed E k \<and> procinit E k = ret k1 \<and>
     userinit E (k1\<lparr>mach := m, tframes := t\<rparr>) = ret k2 \<and>
     s = \<lparr>tab = rb k2, duties = \<lambda>_. Idle\<rparr>)"

section \<open>The invariant\<close>

text \<open>The process table on its own: the ready tree holds runnable processes, the rest can be queued.\<close>

definition tab_ok :: "nat \<Rightarrow> rbs \<Rightarrow> nat list \<Rightarrow> bool" where
  "tab_ok N r q \<longleftrightarrow> queued N r q \<and> (\<forall>i \<in> set q. runnable r i) \<and>
     (\<forall>i < N. i \<notin> set q \<longrightarrow> insertable N r i)"

text \<open>What the state of the processes must be that an owner is responsible for.\<close>

fun role_ok :: "rbs \<Rightarrow> duty \<Rightarrow> bool" where
  "role_ok r Idle = True"
| "role_ok r (Claimed i) = (state (procs r i) = RUNNABLE)"
| "role_ok r (Runs i) = (state (procs r i) = RUNNING)"
| "role_ok r (Parked i) = (state (procs r i) \<in> {RUNNABLE, SLEEPING, ZOMBIE})"
| "role_ok r (Building c) = (state (procs r c) = USED)"
| "role_ok r (Built c) = (state (procs r c) = USED)"
| "role_ok r (Adopted c) = (state (procs r c) = USED)"
| "role_ok r (Forking c) = (state (procs r c) = RUNNABLE)"

fun touched :: "duty \<Rightarrow> nat set" where
  "touched (Parked i) = {i}"
| "touched x = owned x"

text \<open>States in which some owner or the ready tree is responsible for a process.\<close>

definition active :: "procstate set" where
  "active = {RUNNING, RUNNABLE, USED}"

definition sched_inv :: "nat \<Rightarrow> sys \<Rightarrow> nat list \<Rightarrow> bool" where
  "sched_inv N s q \<longleftrightarrow> tab_ok N (tab s) q \<and>
     (\<forall>w. fits w (duties s w) \<and> role_ok (tab s) (duties s w) \<and> owned (duties s w) \<subseteq> {..<N} \<and>
        owned (duties s w) \<inter> set q = {}) \<and>
     (\<forall>w w'. w \<noteq> w' \<longrightarrow> owned (duties s w) \<inter> owned (duties s w') = {}) \<and>
     (\<forall>w w' i. duties s w = Parked i \<longrightarrow> duties s w' = Parked i \<longrightarrow> w = w') \<and>
     (\<forall>i < N. state (procs (tab s) i) \<in> active \<longrightarrow> i \<in> set q \<or> (\<exists>w. i \<in> owned (duties s w)))"

lemma role_ok_cong:
  "(\<And>i. i \<in> touched x \<Longrightarrow> state (procs t i) = state (procs r i)) \<Longrightarrow> role_ok t x = role_ok r x"
  by (cases x) auto

lemma owned_touched: "owned x \<subseteq> touched x"
  by (cases x) auto

lemma role_active: "role_ok r x \<Longrightarrow> i \<in> owned x \<Longrightarrow> state (procs r i) \<in> active"
  by (cases x) (auto simp: active_def)

text \<open>
  One owner \<open>w\<close> moves to \<open>x\<close>, the table to \<open>t\<close> and the queue to \<open>q'\<close>, where only the states of the
  processes in \<open>C\<close> change, none of which another owner touches.
\<close>

lemma sched_inv_move:
  assumes inv: "sched_inv N s q" and t: "tab_ok N t q'"
    and same: "\<And>i. i \<notin> C \<Longrightarrow> state (procs t i) = state (procs (tab s) i)"
    and alone: "\<And>w'. w' \<noteq> w \<Longrightarrow> touched (duties s w') \<inter> C = {}"
    and grow: "set q' \<subseteq> set q \<union> C \<union> owned (duties s w)"
    and role: "fits w x" "role_ok t x" "owned x \<subseteq> {..<N}" "owned x \<inter> set q' = {}"
      "owned x \<subseteq> owned (duties s w) \<union> C \<union> set q" "\<And>i. x = Parked i \<Longrightarrow> i \<in> C \<or> duties s w = Parked i"
    and kept: "\<And>i. i \<in> C \<union> owned (duties s w) \<union> set q \<Longrightarrow> state (procs t i) \<in> active \<Longrightarrow>
      i \<in> set q' \<union> owned x"
  shows "sched_inv N (s\<lparr>tab := t, duties := (duties s)(w := x)\<rparr>) q'"
proof -
  have o: "role_ok (tab s) (duties s w')" "owned (duties s w') \<subseteq> {..<N}" "owned (duties s w') \<inter> set q = {}" for w'
    using inv by (auto simp: sched_inv_def)
  have d: "w1 \<noteq> w2 \<Longrightarrow> owned (duties s w1) \<inter> owned (duties s w2) = {}" for w1 w2
    using inv by (auto simp: sched_inv_def)
  have pk: "duties s w1 = Parked i \<Longrightarrow> duties s w2 = Parked i \<Longrightarrow> w1 = w2" for w1 w2 i
    using inv by (auto simp: sched_inv_def)
  have al: "owned (duties s w') \<inter> C = {}" if "w' \<noteq> w" for w'
    using alone [OF that] owned_touched by blast
  have ro: "role_ok t (duties s w')" if "w' \<noteq> w" for w'
    using role_ok_cong [of "duties s w'" t "tab s"] same alone [OF that] o(1) by blast
  have other: "owned x \<inter> owned (duties s w') = {}" if "w' \<noteq> w" for w'
    using role(5) d [OF that] al [OF that] o(3) [of w'] by blast
  have park: "duties s w' \<noteq> Parked i" if "w' \<noteq> w" "x = Parked i" for w' i
    using alone [OF that(1)] role(6) [OF that(2)] pk [of w' i w] that(1) by auto
  have comp: "i \<in> set q' \<or> (\<exists>w'. i \<in> owned (((duties s)(w := x)) w'))"
    if i: "i < N" "state (procs t i) \<in> active" for i
  proof (cases "i \<in> C \<union> owned (duties s w) \<union> set q")
    case True
    with kept i(2) have "i \<in> set q' \<union> owned x" by blast
    then show ?thesis by auto
  next
    case False
    then have "state (procs (tab s) i) \<in> active" using same i(2) by simp
    then obtain w' where "i \<in> owned (duties s w')" using inv i(1) False by (auto simp: sched_inv_def)
    with False show ?thesis by (metis Un_iff fun_upd_other)
  qed
  show ?thesis
    unfolding sched_inv_def
  proof (intro conjI allI impI)
    fix w' show "fits w' (duties (s\<lparr>tab := t, duties := (duties s)(w := x)\<rparr>) w')"
      using inv role(1) by (simp add: sched_inv_def)
    show "role_ok (tab (s\<lparr>tab := t, duties := (duties s)(w := x)\<rparr>)) (duties (s\<lparr>tab := t, duties := (duties s)(w := x)\<rparr>) w')"
      using ro role(2) by simp
    show "owned (duties (s\<lparr>tab := t, duties := (duties s)(w := x)\<rparr>) w') \<subseteq> {..<N}"
      using o(2) role(3) by simp
    show "owned (duties (s\<lparr>tab := t, duties := (duties s)(w := x)\<rparr>) w') \<inter> set q' = {}"
    proof (cases "w' = w")
      case False
      with o(3) [of w'] al [OF False] d [OF False] grow show ?thesis by auto
    qed (use role(4) in simp)
  next
    fix w1 w2 :: owner assume "w1 \<noteq> w2"
    then show "owned (duties (s\<lparr>tab := t, duties := (duties s)(w := x)\<rparr>) w1) \<inter>
        owned (duties (s\<lparr>tab := t, duties := (duties s)(w := x)\<rparr>) w2) = {}"
      using d other by (cases "w1 = w"; cases "w2 = w") (auto simp: Int_commute)
  next
    fix w1 w2 i assume "duties (s\<lparr>tab := t, duties := (duties s)(w := x)\<rparr>) w1 = Parked i"
      "duties (s\<lparr>tab := t, duties := (duties s)(w := x)\<rparr>) w2 = Parked i"
    then show "w1 = w2" using pk park by (auto split: if_splits)
  qed (use t comp in simp_all)
qed

section \<open>The table operations of the steps\<close>

lemma upd_proc_simps [simp]:
  "procs (upd_proc i u r) = (procs r)(i := u (procs r i))" "procTree (upd_proc i u r) = procTree r"
  by (simp_all add: upd_proc_def)

lemma tab_ok_table: "table_ok E k q \<longleftrightarrow> tab_ok (NPROC E) (rb k) q"
  by (simp add: table_ok_def tab_ok_def)

lemma tab_okD:
  assumes "tab_ok N r q"
  shows "ready N r q" "queued N r q" "distinct q"
    "i \<in> set q \<Longrightarrow> state (procs r i) = RUNNABLE" "i \<in> set q \<Longrightarrow> i < N"
    "i < N \<Longrightarrow> i \<notin> set q \<Longrightarrow> insertable N r i"
  using assms ready_distinct by (auto simp: tab_ok_def queued_def runnable_def ready_def)

lemma tab_put:
  assumes t: "tab_ok N r q" and i: "i \<notin> set q"
    and u: "i < N \<Longrightarrow> left (u (procs r i)) = None \<and> right (u (procs r i)) = None \<and>
      niceVal (u (procs r i)) \<le> 0"
  shows "tab_ok N (upd_proc i u r) q"
proof -
  have "ready N (upd_proc i u r) q"
    by (rule ready_cong [OF tab_okD(1) [OF t]]) (use i in auto)
  then show ?thesis using t i u unfolding tab_ok_def queued_def runnable_def insertable_def by auto
qed

lemma tab_put_keep:
  assumes t: "tab_ok N r q" and i: "i \<notin> set q"
    and u: "left (u (procs r i)) = left (procs r i)" "right (u (procs r i)) = right (procs r i)"
      "niceVal (u (procs r i)) = niceVal (procs r i)"
  shows "tab_ok N (upd_proc i u r) q"
  by (rule tab_put [OF t i]) (use tab_okD(6) [OF t _ i] u in \<open>simp add: insertable_def\<close>)

lemma tab_harmless:
  assumes t: "tab_ok N r q" and u: "harmless u"
  shows "tab_ok N (upd_proc i u r) q"
proof -
  have "ready N (upd_proc i u r) q"
    by (rule ready_cong [OF tab_okD(1) [OF t]]) (use u in \<open>auto simp: harmless_def\<close>)
  moreover have "left (u p) = left p" "right (u p) = right p" for p
    using u by (simp_all add: harmless_def links_def)
  ultimately show ?thesis
    using t u unfolding tab_ok_def queued_def runnable_def insertable_def harmless_def by auto
qed

lemma tab_insert:
  assumes t: "tab_ok N r q" and p: "p < N" "p \<notin> set q" "state (procs r p) = RUNNABLE"
  shows "\<exists>t'. insertProcess N (Some p) r = ret t' \<and> tab_ok N t' (insort_after (vr r) p q) \<and>
    (\<forall>i. state (procs t' i) = state (procs r i))"
proof -
  have ip: "insertable N r p" using tab_okD(6) [OF t p(1,2)] .
  obtain s' where s': "insertProcess N (Some p) r = ret s'"
    "ready N s' (insort_after (vr r) p q)" "tree_frame (insert p (set q)) r s'"
    using insertProcess_ready [of N r q p] tab_okD(2) [OF t] ip p(2)
    by (auto simp: queued_def insertable_def)
  have "tab_ok N s' (insort_after (vr r) p q)"
    using t s' p(3) ip tree_frame_fields [OF s'(3)] tree_frame_insertable [OF s'(3)]
    unfolding tab_ok_def by (auto simp: queued_def runnable_def insertable_def)
  with s'(1) tree_frame_fields(4) [OF s'(3)] show ?thesis by blast
qed

lemma tab_retrieve:
  assumes t: "tab_ok N r (p # q)"
  shows "\<exists>t'. retrieveProcess N r = ret (Some p, t') \<and> tab_ok N t' q \<and>
    (\<forall>i. state (procs t' i) = state (procs r i))"
proof -
  have p: "runnable r p" "p \<notin> set q" "p < N"
    using t tab_okD(3,5) [OF t] by (auto simp: tab_ok_def)
  obtain s' where s': "retrieveProcess N r = ret (Some p, s')" "ready N s' q" "detached s' p"
    "tree_frame (insert p (set q)) r s'"
    using retrieveProcess_ready [of N r p q] tab_okD(2) [OF t] p(1)
    by (auto simp: queued_def runnable_def)
  have "insertable N s' i" if "i < N" "i \<notin> set q" for i
  proof (cases "i = p")
    case True
    then show ?thesis using s'(3) p(3) tab_okD(2) [OF t] tree_frame_fields(5) [OF s'(4), of p]
      by (auto simp: insertable_def detached_def queued_def)
  next
    case False
    then have "i \<notin> insert p (set q)" using that by simp
    with tree_frame_insertable [OF s'(4) this] show ?thesis using tab_okD(6) [OF t that(1)] by simp
  qed
  moreover have "queued N s' q" "\<forall>i \<in> set q. runnable s' i"
    using tab_okD(2) [OF t] t s'(2) tree_frame_fields(4,5) [OF s'(4)]
    by (auto simp: queued_def runnable_def tab_ok_def)
  ultimately have "tab_ok N s' q" by (simp add: tab_ok_def)
  with s'(1) tree_frame_fields(4) [OF s'(4)] show ?thesis by blast
qed

lemma tab_retrieve_empty: "tab_ok N r [] \<Longrightarrow> retrieveProcess N r = ret (None, r)"
  by (rule retrieveProcess_empty) (rule tab_okD)

section \<open>Every step keeps the invariant\<close>

definition good :: "nat \<Rightarrow> sys \<Rightarrow> bool" where
  "good N s \<longleftrightarrow> (\<exists>q. sched_inv N s q)"

lemma sched_invD:
  assumes "sched_inv N s q"
  shows "tab_ok N (tab s) q" "role_ok (tab s) (duties s w)" "owned (duties s w) \<subseteq> {..<N}"
    "owned (duties s w) \<inter> set q = {}"
    "w \<noteq> w' \<Longrightarrow> owned (duties s w) \<inter> owned (duties s w') = {}"
    "i < N \<Longrightarrow> state (procs (tab s) i) \<in> active \<Longrightarrow> i \<in> set q \<or> (\<exists>w. i \<in> owned (duties s w))"
    "fits w (duties s w)"
  using assms by (simp_all add: sched_inv_def)

text \<open>Who can touch a process: the only owner of one that is active, if its lock is free or it runs.\<close>

lemma inactive_not_owned:
  "sched_inv N s q \<Longrightarrow> state (procs (tab s) i) \<notin> active \<Longrightarrow> i \<notin> owned (duties s w)"
  using role_active sched_invD(2) by blast

lemma lock_free_parked: "lock_free s i \<Longrightarrow> duties s w \<noteq> Parked i"
  unfolding lock_free_def by (metis insertI1 locked.simps(1))

lemma alone_owner:
  assumes "sched_inv N s q" "i \<in> owned (duties s w)" "lock_free s i \<or> state (procs (tab s) i) \<in> {RUNNING, USED}"
    "w' \<noteq> w"
  shows "touched (duties s w') \<inter> {i} = {}"
proof -
  have "i \<notin> owned (duties s w')" using sched_invD(5) [OF assms(1,4)] assms(2) by blast
  moreover have "duties s w' \<noteq> Parked i"
    using assms(3) sched_invD(2) [OF assms(1), of w'] lock_free_parked by auto
  ultimately show ?thesis by (cases "duties s w'") auto
qed

lemma alone_nobody:
  assumes "sched_inv N s q" "state (procs (tab s) i) \<notin> active" "lock_free s i"
  shows "touched (duties s w') \<inter> {i} = {}"
  using inactive_not_owned [OF assms(1,2), of w'] lock_free_parked [OF assms(3), of w']
  by (cases "duties s w'") auto

text \<open>A step without an acting owner.\<close>

lemma sched_inv_stay:
  assumes inv: "sched_inv N s q" and t: "tab_ok N t q'"
    and same: "\<And>i. i \<notin> C \<Longrightarrow> state (procs t i) = state (procs (tab s) i)"
    and alone: "\<And>w'. touched (duties s w') \<inter> C = {}"
    and grow: "set q \<subseteq> set q'" "set q' \<subseteq> set q \<union> C"
    and kept: "\<And>i. i \<in> C \<Longrightarrow> state (procs t i) \<in> active \<Longrightarrow> i \<in> set q'"
  shows "sched_inv N (s\<lparr>tab := t\<rparr>) q'"
proof -
  let ?w = "Hart 0"
  have r: "role_ok t (duties s ?w)"
    using role_ok_cong [of "duties s ?w" t "tab s"] same alone [of ?w] sched_invD(2) [OF inv, of ?w] by blast
  have al: "owned (duties s w') \<inter> C = {}" for w'
    using alone [of w'] owned_touched [of "duties s w'"] by blast
  have o: "owned (duties s ?w) \<inter> set q' = {}" using sched_invD(4) [OF inv, of ?w] al [of ?w] grow(2) by blast
  have k: "i \<in> set q' \<union> owned (duties s ?w)"
    if "i \<in> C \<union> owned (duties s ?w) \<union> set q" "state (procs t i) \<in> active" for i
    using that kept grow(1) by blast
  have "sched_inv N (s\<lparr>tab := t, duties := (duties s)(?w := duties s ?w)\<rparr>) q'"
    by (rule sched_inv_move [OF inv t same alone _ sched_invD(7) [OF inv] r sched_invD(3) [OF inv] o _ _ k])
      (use grow(2) in auto)
  then show ?thesis by simp
qed

subsection \<open>The scheduler\<close>

lemma good_pick:
  assumes inv: "sched_inv N s q" and h: "duties s (Hart h) = Idle"
    and r: "retrieveProcess N (tab s) = ret (Some i, t)"
  shows "good N (s\<lparr>tab := t, duties := (duties s)(Hart h := Claimed i)\<rparr>)"
proof -
  obtain p q' where q: "q = p # q'"
    using r tab_retrieve_empty sched_invD(1) [OF inv] by (cases q) auto
  obtain t' where "retrieveProcess N (tab s) = ret (Some p, t')" "tab_ok N t' q'"
    "\<forall>i. state (procs t' i) = state (procs (tab s) i)"
    using tab_retrieve sched_invD(1) [OF inv] unfolding q by blast
  with r have t: "i = p" "tab_ok N t q'" "\<And>j. state (procs t j) = state (procs (tab s) j)" by auto
  have p: "p < N" "state (procs (tab s) p) = RUNNABLE" "p \<notin> set q'"
    using tab_okD(3-5) [OF sched_invD(1) [OF inv]] by (auto simp: q)
  have "sched_inv N (s\<lparr>tab := t, duties := (duties s)(Hart h := Claimed p)\<rparr>) q'"
    by (rule sched_inv_move [OF inv t(2), of "{}"]) (use p h t(3) in \<open>auto simp: q\<close>)
  then show ?thesis by (auto simp: good_def t(1))
qed

lemma good_pick_none:
  assumes inv: "sched_inv N s q" and r: "retrieveProcess N (tab s) = ret (None, t)"
  shows "good N (s\<lparr>tab := t\<rparr>)"
proof (cases q)
  case Nil
  then have "t = tab s" using r tab_retrieve_empty sched_invD(1) [OF inv] by auto
  then show ?thesis using inv by (auto simp: good_def)
next
  case (Cons p q')
  then show ?thesis using r tab_retrieve sched_invD(1) [OF inv] by fastforce
qed

lemma good_dispatch:
  assumes inv: "sched_inv N s q" and h: "duties s (Hart h) = Claimed i" and l: "lock_free s i"
  shows "good N (s\<lparr>tab := upd_proc i (state_update (\<lambda>_. RUNNING)) (tab s),
    duties := (duties s)(Hart h := Runs i)\<rparr>)"
proof -
  have i: "i \<notin> set q" "i < N" "i \<in> owned (duties s (Hart h))"
    using sched_invD(3,4) [OF inv, of "Hart h"] by (auto simp: h)
  have "sched_inv N (s\<lparr>tab := upd_proc i (state_update (\<lambda>_. RUNNING)) (tab s),
      duties := (duties s)(Hart h := Runs i)\<rparr>) q"
  proof (rule sched_inv_move [OF inv _ _ alone_owner [OF inv i(3) disjI1 [OF l]]])
    show "tab_ok N (upd_proc i (state_update (\<lambda>_. RUNNING)) (tab s)) q"
      by (rule tab_put_keep [OF sched_invD(1) [OF inv] i(1)]) simp_all
  qed (use i h in auto)
  then show ?thesis by (auto simp: good_def)
qed

text \<open>An owner whose next duty is about the same process, or about none it must keep.\<close>

lemma good_move:
  assumes inv: "sched_inv N s q" and x: "fits w x" "role_ok (tab s) x" "owned x = owned (duties s w)"
    "\<And>i. x \<noteq> Parked i"
  shows "good N (s\<lparr>duties := (duties s)(w := x)\<rparr>)"
proof -
  have "sched_inv N (s\<lparr>tab := tab s, duties := (duties s)(w := x)\<rparr>) q"
    by (rule sched_inv_move [OF inv sched_invD(1) [OF inv], of "{}"])
      (use x sched_invD(3,4) [OF inv, of w] in auto)
  then show ?thesis by (auto simp: good_def)
qed

text \<open>A process that a hart has taken from the tree is runnable, so it is never dropped.\<close>

lemma claimed_runnable: "good N s \<Longrightarrow> duties s w = Claimed i \<Longrightarrow> state (procs (tab s) i) = RUNNABLE"
  unfolding good_def using sched_invD(2) [of N s _ w] by auto

lemma good_sched: "sched_step N s s' \<Longrightarrow> sched_inv N s q \<Longrightarrow> good N s'"
proof (induction rule: sched_step.induct)
  case (pick s h i t) then show ?case using good_pick by blast
next
  case (pick_none s h t) then show ?case using good_pick_none by blast
next
  case (dispatch s h i) then show ?case using good_dispatch by blast
next
  case (drop s h i) then show ?case using claimed_runnable [of N s] by (auto simp: good_def)
next
  case (unpark s h i) then show ?case using good_move [of N s q "Hart h" Idle] by simp
qed

subsection \<open>A running process that leaves its hart\<close>

lemma good_leave:
  assumes inv: "sched_inv N s q" and h: "duties s (Hart h) = Runs i"
    and u: "state (u (procs (tab s) i)) \<in> {SLEEPING, ZOMBIE}"
      "\<And>p. left (u p) = left p" "\<And>p. right (u p) = right p" "\<And>p. niceVal (u p) = niceVal p"
  shows "good N (s\<lparr>tab := upd_proc i u (tab s), duties := (duties s)(Hart h := Parked i)\<rparr>)"
proof -
  have i: "i \<notin> set q" "i < N" "i \<in> owned (duties s (Hart h))" "state (procs (tab s) i) = RUNNING"
    using sched_invD(2,3,4) [OF inv, of "Hart h"] by (auto simp: h)
  have r: "lock_free s i \<or> state (procs (tab s) i) \<in> {RUNNING, USED}" using i(4) by simp
  have "sched_inv N (s\<lparr>tab := upd_proc i u (tab s), duties := (duties s)(Hart h := Parked i)\<rparr>) q"
  proof (rule sched_inv_move [OF inv _ _ alone_owner [OF inv i(3) r]])
    show "tab_ok N (upd_proc i u (tab s)) q"
      by (rule tab_put_keep [OF sched_invD(1) [OF inv] i(1)]) (simp_all add: u)
  qed (use i h u(1) in \<open>auto simp: active_def\<close>)
  then show ?thesis by (auto simp: good_def)
qed

lemma good_sleep: "sleep_step s s' \<Longrightarrow> sched_inv N s q \<Longrightarrow> good N s'"
  by (induction rule: sleep_step.induct) (rule good_leave, simp_all)

lemma good_exit: "exit_step s s' \<Longrightarrow> sched_inv N s q \<Longrightarrow> good N s'"
  by (induction rule: exit_step.induct) (rule good_leave, simp_all)

text \<open>Charging a process and queueing it.\<close>

lemma tab_make_runnable:
  assumes t: "tab_ok N r q" and i: "i < N" "i \<notin> set q"
    and ins: "insertProcess N (Some i) (upd_proc i make_runnable r) = ret t'"
  shows "tab_ok N t' (insort_after (vr (upd_proc i make_runnable r)) i q)"
    "state (procs t' i) = RUNNABLE" "j \<noteq> i \<Longrightarrow> state (procs t' j) = state (procs r j)"
proof -
  have "tab_ok N (upd_proc i make_runnable r) q"
    by (rule tab_put_keep [OF t i(2)]) simp_all
  from tab_insert [OF this i] ins
  show "tab_ok N t' (insort_after (vr (upd_proc i make_runnable r)) i q)"
    "state (procs t' i) = RUNNABLE" "j \<noteq> i \<Longrightarrow> state (procs t' j) = state (procs r j)"
    by auto
qed

lemma good_preempt:
  assumes inv: "sched_inv N s q" and h: "duties s (Hart h) = Runs i"
    and ins: "insertProcess N (Some i) (upd_proc i make_runnable (tab s)) = ret t"
  shows "good N (s\<lparr>tab := t, duties := (duties s)(Hart h := Parked i)\<rparr>)"
proof -
  have i: "i \<notin> set q" "i < N" "i \<in> owned (duties s (Hart h))" "state (procs (tab s) i) = RUNNING"
    using sched_invD(2,3,4) [OF inv, of "Hart h"] by (auto simp: h)
  have r: "lock_free s i \<or> state (procs (tab s) i) \<in> {RUNNING, USED}" using i(4) by simp
  note t = tab_make_runnable [OF sched_invD(1) [OF inv] i(2,1) ins]
  have "sched_inv N (s\<lparr>tab := t, duties := (duties s)(Hart h := Parked i)\<rparr>)
      (insort_after (vr (upd_proc i make_runnable (tab s))) i q)"
    by (rule sched_inv_move [OF inv t(1) _ alone_owner [OF inv i(3) r]])
      (use i h t(2,3) in \<open>auto simp: active_def\<close>)
  then show ?thesis by (auto simp: good_def)
qed

lemma good_yield: "yield_step N s s' \<Longrightarrow> sched_inv N s q \<Longrightarrow> good N s'"
  by (induction rule: yield_step.induct) (auto simp: unlocked_def intro: good_preempt)

subsection \<open>Wake-ups and freed entries\<close>

lemma good_wake:
  assumes inv: "sched_inv N s q" and i: "i < N" "lock_free s i" "state (procs (tab s) i) = SLEEPING"
    and ins: "insertProcess N (Some i) (upd_proc i make_runnable (tab s)) = ret t"
  shows "good N (s\<lparr>tab := t\<rparr>)"
proof -
  have q: "i \<notin> set q" using tab_okD(4) [OF sched_invD(1) [OF inv], of i] i(3) by auto
  have na: "state (procs (tab s) i) \<notin> active" using i(3) by (simp add: active_def)
  note t = tab_make_runnable [OF sched_invD(1) [OF inv] i(1) q ins]
  have "sched_inv N (s\<lparr>tab := t\<rparr>) (insort_after (vr (upd_proc i make_runnable (tab s))) i q)"
    by (rule sched_inv_stay [OF inv t(1) _ alone_nobody [OF inv na i(2)]]) (use t(3) in auto)
  then show ?thesis by (auto simp: good_def)
qed

lemma good_wakeup: "wakeup_step N s s' \<Longrightarrow> sched_inv N s q \<Longrightarrow> good N s'"
  by (induction rule: wakeup_step.induct) (rule good_wake)

lemma good_freed:
  assumes inv: "sched_inv N s q" and c: "lock_free s c" "state (procs (tab s) c) \<in> {ZOMBIE, UNUSED}"
  shows "good N (s\<lparr>tab := upd_proc c freed (tab s)\<rparr>)"
proof -
  have q: "c \<notin> set q" using tab_okD(4) [OF sched_invD(1) [OF inv], of c] c(2) by auto
  have na: "state (procs (tab s) c) \<notin> active" using c(2) by (auto simp: active_def)
  have "sched_inv N (s\<lparr>tab := upd_proc c freed (tab s)\<rparr>) q"
    by (rule sched_inv_stay [OF inv tab_put_keep [OF sched_invD(1) [OF inv] q] _ alone_nobody [OF inv na c(1)]])
      (auto simp: active_def)
  then show ?thesis by (auto simp: good_def)
qed

lemma good_wait: "wait_step N s s' \<Longrightarrow> sched_inv N s q \<Longrightarrow> good N s'"
  by (induction rule: wait_step.induct) (rule good_freed, simp_all)

subsection \<open>fork\<close>

lemma good_alloc:
  assumes inv: "sched_inv N s q" and w: "duties s (Thread i) = Idle"
    and c: "c < N" "lock_free s c" "state (procs (tab s) c) = UNUSED"
  shows "good N (s\<lparr>tab := upd_proc c (allocated cx page pt n) (tab s),
    duties := (duties s)(Thread i := Building c)\<rparr>)"
proof -
  have q: "c \<notin> set q" using tab_okD(4) [OF sched_invD(1) [OF inv], of c] c(3) by auto
  have na: "state (procs (tab s) c) \<notin> active" using c(3) by (simp add: active_def)
  have st: "state (allocated cx page pt n r) = USED" for r by (simp add: allocated_def)
  have "sched_inv N (s\<lparr>tab := upd_proc c (allocated cx page pt n) (tab s),
      duties := (duties s)(Thread i := Building c)\<rparr>) q"
  proof (rule sched_inv_move [OF inv _ _ alone_nobody [OF inv na c(2)]])
    show "tab_ok N (upd_proc c (allocated cx page pt n) (tab s)) q"
      by (rule tab_put [OF sched_invD(1) [OF inv] q]) (simp add: allocated_def)
  qed (use c w q st in auto)
  then show ?thesis by (auto simp: good_def)
qed

text \<open>What a thread inside \<open>fork\<close> does with the child that it owns and that is \<open>USED\<close>.\<close>

lemma good_child:
  assumes inv: "sched_inv N s q"
    and w: "c \<in> owned (duties s w)" "owned (duties s w) = {c}" "state (procs (tab s) c) = USED"
    and u: "\<And>p. left (u p) = left p" "\<And>p. right (u p) = right p" "\<And>p. niceVal (u p) = niceVal p"
    and x: "fits w x" "role_ok (upd_proc c u (tab s)) x" "owned x \<subseteq> {c}" "\<And>i. x \<noteq> Parked i"
      "state (u (procs (tab s) c)) \<in> active \<Longrightarrow> owned x = {c}"
  shows "good N (s\<lparr>tab := upd_proc c u (tab s), duties := (duties s)(w := x)\<rparr>)"
proof -
  have i: "c \<notin> set q" "c < N" using sched_invD(3,4) [OF inv, of w] w(1) by auto
  have r: "lock_free s c \<or> state (procs (tab s) c) \<in> {RUNNING, USED}" using w(3) by simp
  have "sched_inv N (s\<lparr>tab := upd_proc c u (tab s), duties := (duties s)(w := x)\<rparr>) q"
  proof (rule sched_inv_move [OF inv _ _ alone_owner [OF inv w(1) r]])
    show "tab_ok N (upd_proc c u (tab s)) q"
      by (rule tab_put_keep [OF sched_invD(1) [OF inv] i(1)]) (simp_all add: u)
  qed (use i w x in auto)
  then show ?thesis by (auto simp: good_def)
qed

lemma good_enqueue:
  assumes inv: "sched_inv N s q" and w: "duties s (Thread i) = Forking c"
    and ins: "insertProcess N (Some c) (tab s) = ret t"
  shows "good N (s\<lparr>tab := t, duties := (duties s)(Thread i := Idle)\<rparr>)"
proof -
  have c: "c \<notin> set q" "c < N" "state (procs (tab s) c) = RUNNABLE"
    using sched_invD(2,3,4) [OF inv, of "Thread i"] by (auto simp: w)
  have t: "tab_ok N t (insort_after (vr (tab s)) c q)" "\<And>j. state (procs t j) = state (procs (tab s) j)"
    using tab_insert [OF sched_invD(1) [OF inv] c(2,1,3)] ins by auto
  have "sched_inv N (s\<lparr>tab := t, duties := (duties s)(Thread i := Idle)\<rparr>) (insort_after (vr (tab s)) c q)"
    by (rule sched_inv_move [OF inv t(1), of "{}"]) (use c w t(2) in \<open>auto simp: active_def\<close>)
  then show ?thesis by (auto simp: good_def)
qed

lemma good_fork: "fork_step N s s' \<Longrightarrow> sched_inv N s q \<Longrightarrow> good N s'"
proof (induction rule: fork_step.induct)
  case (alloc s h i c cx page pt n) then show ?case using good_alloc by blast
next
  case (alloc_fails s h i c) then show ?case using good_freed by simp
next
  case (give_up s h i c)
  show ?case
    by (rule good_child [OF give_up.prems])
      (use give_up sched_invD(2) [OF give_up.prems, of "Thread i"] in \<open>simp_all add: active_def\<close>)
next
  case (unlock s h i c)
  then show ?case using good_move [of N s q "Thread i" "Built c"] sched_invD(2) [of N s q "Thread i"] by simp
next
  case (adopt s h i c)
  show ?case
    by (rule good_child [OF adopt.prems])
      (use adopt sched_invD(2) [OF adopt.prems, of "Thread i"] in simp_all)
next
  case (publish s h i c)
  show ?case
    by (rule good_child [OF publish.prems])
      (use publish sched_invD(2) [OF publish.prems, of "Thread i"] in simp_all)
next
  case (enqueue s h i c t) then show ?case using good_enqueue by blast
qed

subsection \<open>The machine\<close>

lemma good_compute:
  assumes inv: "sched_inv N s q" and u: "harmless u"
  shows "good N (s\<lparr>tab := upd_proc i u (tab s)\<rparr>)"
proof -
  have "sched_inv N (s\<lparr>tab := upd_proc i u (tab s)\<rparr>) q"
    by (rule sched_inv_stay [OF inv tab_harmless [OF sched_invD(1) [OF inv] u], of "{}"])
      (use u in \<open>auto simp: harmless_def\<close>)
  then show ?thesis by (auto simp: good_def)
qed

lemma good_step:
  assumes "good N s" "step N s s'"
  shows "good N s'"
proof -
  obtain q where inv: "sched_inv N s q" using assms(1) by (auto simp: good_def)
  from assms(2) show ?thesis
  proof cases
    case step_sched then show ?thesis using inv by (rule good_sched)
  next
    case step_yield then show ?thesis using inv by (rule good_yield)
  next
    case step_sleep then show ?thesis using inv by (rule good_sleep)
  next
    case step_exit then show ?thesis using inv by (rule good_exit)
  next
    case step_wakeup then show ?thesis using inv by (rule good_wakeup)
  next
    case step_fork then show ?thesis using inv by (rule good_fork)
  next
    case step_wait then show ?thesis using inv by (rule good_wait)
  next
    case (compute u i) then show ?thesis using good_compute [OF inv] by simp
  qed
qed


section \<open>Threads inside \<open>fork\<close>\<close>

text \<open>A process inside \<open>fork\<close> runs or is runnable: it neither sleeps nor exits there.\<close>

definition alive :: "sys \<Rightarrow> bool" where
  "alive s \<longleftrightarrow> (\<forall>i. duties s (Thread i) \<noteq> Idle \<longrightarrow> state (procs (tab s) i) \<in> {RUNNING, RUNNABLE})"

text \<open>The tree operations change no state, and queueing makes one process runnable.\<close>

lemma sched_states:
  assumes inv: "sched_inv N s q"
  shows "retrieveProcess N (tab s) = ret (r, t) \<Longrightarrow> state (procs t j) = state (procs (tab s) j)"
    and "duties s (Hart h) = Runs i \<or> i < N \<and> state (procs (tab s) i) = SLEEPING \<Longrightarrow>
      insertProcess N (Some i) (upd_proc i make_runnable (tab s)) = ret t \<Longrightarrow>
      state (procs t j) = (if j = i then RUNNABLE else state (procs (tab s) j))"
    and "duties s (Thread p) = Forking i \<Longrightarrow> insertProcess N (Some i) (tab s) = ret t \<Longrightarrow>
      state (procs t j) = state (procs (tab s) j)"
proof -
  note t = sched_invD(1) [OF inv]
  show "state (procs t j) = state (procs (tab s) j)" if "retrieveProcess N (tab s) = ret (r, t)"
    using that t tab_retrieve_empty [of N "tab s"] tab_retrieve [of N "tab s"] by (cases q) fastforce+
  show "state (procs t j) = (if j = i then RUNNABLE else state (procs (tab s) j))"
    if i: "duties s (Hart h) = Runs i \<or> i < N \<and> state (procs (tab s) i) = SLEEPING"
      and ins: "insertProcess N (Some i) (upd_proc i make_runnable (tab s)) = ret t"
  proof -
    have "i < N" "i \<notin> set q"
      using i sched_invD(3,4) [OF inv, of "Hart h"] tab_okD(4) [OF t, of i] by auto
    from tab_make_runnable(2,3) [OF t this ins] show ?thesis by simp
  qed
  show "state (procs t j) = state (procs (tab s) j)"
    if i: "duties s (Thread p) = Forking i" and ins: "insertProcess N (Some i) (tab s) = ret t"
  proof -
    have "i < N" "i \<notin> set q" "state (procs (tab s) i) = RUNNABLE"
      using i sched_invD(2,3,4) [OF inv, of "Thread p"] by auto
    from tab_insert [OF t this] ins show ?thesis by auto
  qed
qed

lemma alive_sched: "sched_step N s s' \<Longrightarrow> sched_inv N s q \<Longrightarrow> alive s \<Longrightarrow> alive s'"
  by (induction rule: sched_step.induct)
    (auto simp: alive_def sched_states(1) dest: sched_states(1))

lemma alive_fork: "fork_step N s s' \<Longrightarrow> sched_inv N s q \<Longrightarrow> alive s \<Longrightarrow> alive s'"
proof (induction rule: fork_step.induct)
  case (alloc s h i c cx page pt n)
  then show ?case using sched_invD(2) [of N s q "Hart h"] by (auto simp: alive_def)
next
  case (alloc_fails s h i c)
  then show ?case by (auto simp: alive_def)
next
  case (give_up s h i c)
  then show ?case using sched_invD(2) [of N s q "Thread i"] by (auto simp: alive_def)
next
  case (unlock s h i c)
  then show ?case by (auto simp: alive_def)
next
  case (adopt s h i c)
  then show ?case using sched_invD(2) [of N s q "Hart h"] by (auto simp: alive_def)
next
  case (publish s h i c)
  then show ?case by (auto simp: alive_def)
next
  case (enqueue s h i c t)
  then show ?case using sched_states(3) [of N s q i c t] by (auto simp: alive_def)
qed

lemma alive_step:
  assumes g: "good N s" and a: "alive s" and st: "step N s s'"
  shows "alive s'"
proof -
  obtain q where inv: "sched_inv N s q" using g by (auto simp: good_def)
  from st show ?thesis
  proof cases
    case step_sched then show ?thesis using inv a by (rule alive_sched)
  next
    case step_yield then show ?thesis
    proof cases
      case (preempt h i r m t)
      then have "state (procs t j) = (if j = i then RUNNABLE else state (procs (tab s) j))" for j
        using sched_states(2) [OF inv, of h i t j] by (auto simp: unlocked_def)
      with preempt(1) a show ?thesis by (auto simp: alive_def)
    qed
  next
    case step_sleep then show ?thesis using a by cases (auto simp: alive_def)
  next
    case step_exit then show ?thesis using a by cases (auto simp: alive_def)
  next
    case step_wakeup then show ?thesis
    proof cases
      case (wake i t)
      then have "state (procs t j) = (if j = i then RUNNABLE else state (procs (tab s) j))" for j
        using sched_states(2) [OF inv, of _ i t j] by auto
      with wake(1) a show ?thesis by (auto simp: alive_def)
    qed
  next
    case step_fork then show ?thesis using inv a by (rule alive_fork)
  next
    case step_wait then show ?thesis using a by cases (auto simp: alive_def)
  next
    case (compute u i) then show ?thesis using a by (auto simp: alive_def harmless_def)
  qed
qed

section \<open>The start is good\<close>

lemma init_procs_ok:
  "\<exists>r. init_procs E is k = ret (k\<lparr>rb := r\<rparr>) \<and> procTree r = procTree (rb k) \<and>
    (\<forall>i. links (procs r i) = links (procs (rb k) i) \<and> niceVal (procs r i) = niceVal (procs (rb k) i) \<and>
      state (procs r i) = (if i \<in> set is then UNUSED else state (procs (rb k) i)))"
proof (induction "is" arbitrary: k)
  case (Cons i "is")
  let ?k = "put (\<lambda>r. r\<lparr>state := UNUSED, kstack := KSTACK E i\<rparr>) i k"
  obtain r where "init_procs E is ?k = ret (?k\<lparr>rb := r\<rparr>)" "procTree r = procTree (rb ?k)"
    "\<forall>j. links (procs r j) = links (procs (rb ?k) j) \<and> niceVal (procs r j) = niceVal (procs (rb ?k) j) \<and>
      state (procs r j) = (if j \<in> set is then UNUSED else state (procs (rb ?k) j))"
    using Cons.IH [of ?k] by blast
  then show ?case by (intro exI [of _ r]) (auto simp: put_def links_def)
next
  case Nil
  then show ?case by (intro exI [of _ "rb k"]) simp
qed

lemma procinit_ok:
  assumes "zeroed E k" "NPROC E \<le> 1000000"
  shows "\<exists>r. procinit E k = ret (k\<lparr>rb := r\<rparr>) \<and> tab_ok (NPROC E) r [] \<and>
    (\<forall>i < NPROC E. state (procs r i) = UNUSED)"
proof -
  have p: "procs (rbinit (NPROC E) (rb k)) = procs (rb k)" by (simp add: rbinit_def wr_tree_def)
  obtain r where r: "procinit E k = ret (k\<lparr>rb := r\<rparr>)" "procTree r = procTree (rbinit (NPROC E) (rb k))"
    "\<forall>i. links (procs r i) = links (procs (rb k) i) \<and> niceVal (procs r i) = niceVal (procs (rb k) i) \<and>
      state (procs r i) = (if i < NPROC E then UNUSED else state (procs (rb k) i))"
    using init_procs_ok [of E "[0..<NPROC E]" "k\<lparr>rb := rbinit (NPROC E) (rb k)\<rparr>"]
    by (auto simp: procinit_def p)
  have "ready (NPROC E) r []"
    by (rule ready_cong [OF rbinit_ready [of _ "rb k"] r(2)]) simp
  then have "tab_ok (NPROC E) r []"
    using assms r(3) by (auto simp: tab_ok_def queued_def insertable_def zeroed_def links_def)
  with r show ?thesis by auto
qed

lemma tf_set_frame: "tf_set u p k = ret k' \<Longrightarrow> rb k' = rb k \<and> locks k' = locks k"
  by (auto simp: tf_set_def kbind_eq_ret split: if_splits)

text \<open>Queueing the first entry, once it is runnable.\<close>

lemma queue_first:
  assumes E: "spin_ok E" and t: "table_ok E k []" "0 < NPROC E"
    and k2: "procTree (rb k2) = procTree (rb k)" "\<forall>j. j \<noteq> 0 \<longrightarrow> procs (rb k2) j = procs (rb k) j"
      "left (procs (rb k2) 0) = None" "right (procs (rb k2) 0) = None" "niceVal (procs (rb k2) 0) = 0"
      "state (procs (rb k2) 0) = RUNNABLE" "locks k2 = [Proc_lock 0]"
  shows "\<exists>k'. kbind (insert_ready E (Some 0) k2) (release_p E (Some 0)) = ret k' \<and> table_ok E k' [0] \<and>
    (\<forall>j. state (procs (rb k') j) = (if j = 0 then RUNNABLE else state (procs (rb k) j)))"
proof -
  have "ready (NPROC E) (rb k2) []"
    by (rule ready_cong [OF table_ok_queue(1) [OF t(1)] k2(1)]) simp
  moreover have "insertable (NPROC E) (rb k2) j" if "j < NPROC E" for j
    using that table_ok_queue(6) [OF t(1) that] k2(2-5) by (cases "j = 0") (simp_all add: insertable_def)
  ultimately have t2: "table_ok E k2 []" using t by (simp add: table_ok_def queued_def)
  have l: "Tree_lock \<notin> set (locks k2)" using k2(7) by simp
  obtain r where r: "insert_ready E (Some 0) k2 = ret r" "stable k2 r" "table_ok E r [0]"
    "tree_frame {0} (rb k2) (rb r)"
    using insert_ready_ok [OF E l t2 t(2) _ k2(6)] by (auto simp: queue_in_def)
  have "Proc_lock 0 \<in> set (locks r)" using stable_views(1) [OF r(2)] k2(7) by simp
  from release_ok(1) [OF E this] r tree_frame_fields(4) [OF r(4)] k2(2,6) show ?thesis
    by (auto simp: release_p_def table_ok_rb [of "rel E (Proc_lock 0) r" r])
qed

text \<open>What \<open>userinit\<close> does if it returns: it queues the first entry, which is runnable.\<close>

lemma userinit_ok:
  assumes E: "spin_ok E" "namei_ok E" and k: "locks k = []" and t: "table_ok E k []"
    and un: "\<forall>i < NPROC E. state (procs (rb k) i) = UNUSED"
    and u: "userinit E k = ret k'"
  shows "0 < NPROC E \<and> table_ok E k' [0] \<and>
    (\<forall>i < NPROC E. state (procs (rb k') i) = (if i = 0 then RUNNABLE else UNUSED))"
proof -
  obtain p k1 where p: "allocproc E k = ret (p, k1)" using u by (auto simp: userinit_def kbind_eq_ret)
  obtain i where i: "p = Some i"
    using u p by (cases p) (auto simp: userinit_def kbind_eq_ret pget_def rd_def Let_def)
  have l: "proc_free k" "Pid_lock \<notin> set (locks k)" using k by (simp_all add: proc_free_def)
  obtain page pt where f: "first_unused E k = Some i" "mem_stable (acq E (Proc_lock i) k) k1"
    "rb k1 = rb (put (fresh E page pt (nextpid k)) i k)"
    using allocproc_ok [OF E(1) l] p i by (auto split: option.splits)
  have "i < NPROC E" "\<forall>j < i. state (procs (rb k) j) \<noteq> UNUSED"
    using f(1) by (auto simp: first_unused_def find_Some_iff)
  then have z: "i = 0" "0 < NPROC E" using un by (cases "i = 0"; force)+
  have lk: "Proc_lock 0 \<notin> set (locks k)" using k by simp
  have l1: "locks k1 = [Proc_lock 0]"
    using mem_stable_views(1) [OF f(2)] acquire_ok(2) [OF E(1) lk] k by (simp add: z)
  obtain ka kb ip kc where c:
    "tf_set (epc_update (\<lambda>_. 0)) p (put (sz_update (\<lambda>_. PGSIZE E)) 0
       (mdo (uvmfirst E (pagetable (procs (rb k1) 0)) initcode) (k1\<lparr>initproc := p\<rparr>))) = ret ka"
    "tf_set (tf_sp_update (\<lambda>_. PGSIZE E)) p ka = ret kb"
    "namei E ''/'' (put (name_update (\<lambda>_. safestrcpy E ''initcode'' 16)) 0 kb) = ret (ip, kc)"
    "kbind (insert_ready E (Some 0) (put (\<lambda>r. r\<lparr>cwd := ip, state := RUNNABLE\<rparr>) 0 kc))
       (release_p E (Some 0)) = ret k'"
    using u p i z(1) by (auto simp: userinit_def kbind_eq_ret Let_def pget_def rd_def mdo_def)
  define k2 where "k2 = put (\<lambda>r. r\<lparr>cwd := ip, state := RUNNABLE\<rparr>) 0 kc"
  have n: "rb kc = rb (put (name_update (\<lambda>_. safestrcpy E ''initcode'' 16)) 0 kb)" "locks kc = locks kb"
    using E(2) c(3) by (simp_all add: namei_ok_def)
  have "procTree (rb k2) = procTree (rb k)" "\<forall>j. j \<noteq> 0 \<longrightarrow> procs (rb k2) j = procs (rb k) j"
    "left (procs (rb k2) 0) = None" "right (procs (rb k2) 0) = None" "niceVal (procs (rb k2) 0) = 0"
    "state (procs (rb k2) 0) = RUNNABLE" "locks k2 = [Proc_lock 0]"
    using tf_set_frame [OF c(1)] tf_set_frame [OF c(2)] n f(3) l1
    by (simp_all add: k2_def z(1) put_def mdo_def fresh_def)
  from queue_first [OF E(1) t z(2) this] c(4) z(2) un show ?thesis by (auto simp: k2_def)
qed

lemma boot_inv:
  assumes "spin_ok E" "namei_ok E" "NPROC E \<le> 1000000" "boot E s"
  shows "sched_inv (NPROC E) s [0]" "duties s = (\<lambda>_. Idle)" "state (procs (tab s) 0) = RUNNABLE"
    "\<forall>i < NPROC E. i \<noteq> 0 \<longrightarrow> state (procs (tab s) i) = UNUSED"
proof -
  obtain k k1 k2 m t where b: "zeroed E k" "procinit E k = ret k1"
    "userinit E (k1\<lparr>mach := m, tframes := t\<rparr>) = ret k2" "s = \<lparr>tab = rb k2, duties = \<lambda>_. Idle\<rparr>"
    using assms(4) by (auto simp: boot_def)
  obtain r where r: "k1 = k\<lparr>rb := r\<rparr>" "tab_ok (NPROC E) r []" "\<forall>i < NPROC E. state (procs r i) = UNUSED"
    using procinit_ok [OF b(1) assms(3)] b(2) by auto
  have u: "0 < NPROC E \<and> table_ok E k2 [0] \<and>
      (\<forall>i < NPROC E. state (procs (rb k2) i) = (if i = 0 then RUNNABLE else UNUSED))"
    by (rule userinit_ok [OF assms(1,2) _ _ _ b(3)])
      (use r b(1) in \<open>auto simp: tab_ok_table zeroed_def locks_def\<close>)
  then show "sched_inv (NPROC E) s [0]"
    unfolding sched_inv_def b(4) by (auto simp: tab_ok_table active_def)
  show "duties s = (\<lambda>_. Idle)" "state (procs (tab s) 0) = RUNNABLE"
    "\<forall>i < NPROC E. i \<noteq> 0 \<longrightarrow> state (procs (tab s) i) = UNUSED"
    using u by (auto simp: b(4))
qed

text \<open>The starts of the machines this is about.\<close>

definition started :: "'m ext \<Rightarrow> sys \<Rightarrow> bool" where
  "started E s \<longleftrightarrow> spin_ok E \<and> namei_ok E \<and> NPROC E \<le> 1000000 \<and> boot E s"

lemma good_started: "started E s \<Longrightarrow> good (NPROC E) s \<and> alive s"
  using boot_inv [of E s] by (auto simp: started_def good_def alive_def)

interpretation ss: invariant_system "started E" "step (NPROC E)" "\<lambda>s. good (NPROC E) s \<and> alive s"
  for E :: "'m ext"
  by unfold_locales (auto dest: good_started intro: good_step alive_step)

lemmas reachable_good = ss.reachable_inv

section \<open>Faults\<close>

text \<open>
  A tree operation that is due in a state does not return: it follows a null pointer, divides
  by zero, or loops.
\<close>

definition returns :: "'a kres \<Rightarrow> bool" where
  "returns m \<longleftrightarrow> (case m of Some (Inr x) \<Rightarrow> True | _ \<Rightarrow> False)"

lemma returns_ret [simp]: "returns (ret x)" "\<not> returns (err e)" "\<not> returns hang"
  by (simp_all add: returns_def ret_def err_def)

lemma returns_iff: "returns m \<longleftrightarrow> (\<exists>x. m = ret x)"
  by (auto simp: returns_def ret_def split: option.splits sum.splits)

definition faulty :: "nat \<Rightarrow> sys \<Rightarrow> bool" where
  "faulty N s \<longleftrightarrow> \<not> returns (retrieveProcess N (tab s)) \<or>
     (\<exists>h i. duties s (Hart h) = Runs i \<and> \<not> returns (insertProcess N (Some i) (upd_proc i make_runnable (tab s)))) \<or>
     (\<exists>h i m r. duties s (Hart h) = Runs i \<and> procs r i = procs (tab s) i \<and>
        \<not> returns (checkPreemption (Some i) m r)) \<or>
     (\<exists>i < N. state (procs (tab s) i) = SLEEPING \<and>
        \<not> returns (insertProcess N (Some i) (upd_proc i make_runnable (tab s)))) \<or>
     (\<exists>i c. duties s (Thread i) = Forking c \<and> \<not> returns (insertProcess N (Some c) (tab s)))"

lemma tab_make_runnable_returns:
  assumes t: "tab_ok N r q" and i: "i < N" "i \<notin> set q"
  shows "returns (insertProcess N (Some i) (upd_proc i make_runnable r))"
proof -
  have "tab_ok N (upd_proc i make_runnable r) q"
    by (rule tab_put_keep [OF t i(2)]) simp_all
  from tab_insert [OF this i] show ?thesis by auto
qed

lemma good_not_faulty: "good N s \<Longrightarrow> \<not> faulty N s"
proof -
  assume "good N s"
  then obtain q where inv: "sched_inv N s q" by (auto simp: good_def)
  note t = sched_invD(1) [OF inv]
  have "returns (retrieveProcess N (tab s))"
  proof (cases q)
    case Nil
    then show ?thesis using tab_retrieve_empty [of N "tab s"] t by simp
  next
    case (Cons p q')
    then show ?thesis using tab_retrieve [of N "tab s" p q'] t by auto
  qed
  moreover have "returns (insertProcess N (Some i) (upd_proc i make_runnable (tab s)))"
    if "duties s (Hart h) = Runs i" for h i
    using sched_invD(3,4) [OF inv, of "Hart h"] that by (intro tab_make_runnable_returns [OF t]) auto
  moreover have "returns (checkPreemption (Some i) m r)" for i m r
    by (simp add: checkPreemption_value Let_def)
  moreover have "returns (insertProcess N (Some i) (upd_proc i make_runnable (tab s)))"
    if "i < N" "state (procs (tab s) i) = SLEEPING" for i
    using that tab_okD(4) [OF t, of i] by (intro tab_make_runnable_returns [OF t]) auto
  moreover have "returns (insertProcess N (Some c) (tab s))" if "duties s (Thread i) = Forking c" for i c
    using tab_insert [OF t, of c] sched_invD(2,3,4) [OF inv, of "Thread i"] that by auto
  ultimately show ?thesis unfolding faulty_def by blast
qed

section \<open>The code takes the steps of the system\<close>

text \<open>The machine whose table is that of the kernel state \<open>k\<close>, with the duties \<open>ds\<close>.\<close>

definition sys_of :: "'m kernel \<Rightarrow> (owner \<Rightarrow> duty) \<Rightarrow> sys" where
  "sys_of k ds = \<lparr>tab = rb k, duties = ds\<rparr>"

lemma put_upd_proc: "rb (put u i k) = upd_proc i u (rb k)"
  by (simp add: put_def upd_proc_def)

text \<open>\<open>yield\<close> reaches its switch by one step of the system, or leaves the table alone.\<close>

lemma yield_takes_step:
  assumes E: "spin_ok E" "intr_ok E" and r: "in_kernel E i k" and t: "table_ok E k q"
    and ds: "ds (Hart (hart k)) = Runs i" "locked (ds (Thread i)) = {}" "lock_free (sys_of k ds) i"
    and c: "checkPreemption (Some i) (minvRuntime (procTree (rb k))) (rb k) = ret True"
  shows "\<exists>k1. yield E k = resume_with E k1 (release_p E (Some i)) \<and> hart k1 = hart k \<and>
    yield_step (NPROC E) (sys_of k ds) (sys_of k1 (ds(Hart (hart k) := Parked i)))"
proof -
  have l: "Proc_lock i \<notin> set (locks k)" "Tree_lock \<notin> set (locks k)" and p: "myproc k = Some i"
    and i: "i < NPROC E" "i \<notin> set q"
    using r in_kernel_unqueued [OF r t] by (simp_all add: in_kernel_def)
  note a = acquire_ok [OF E(1) l(1)]
  define k0 where "k0 = acq E (Proc_lock i) k"
  have t0: "table_ok E (put make_runnable i k0) q"
    by (rule table_ok_put) (use t i table_ok_queue(6) [OF t i] in \<open>simp_all add: k0_def insertable_def\<close>)
  have l0: "Tree_lock \<notin> set (locks (put make_runnable i k0))" using a(2) l(2) by (simp add: k0_def)
  have st: "state (procs (rb (put make_runnable i k0)) i) = RUNNABLE" by simp
  obtain k1 where k1: "insert_ready E (Some i) (put make_runnable i k0) = ret k1"
    "stable (put make_runnable i k0) k1" "tree_frame (insert i (set q)) (rb (put make_runnable i k0)) (rb k1)"
    using insert_ready_ok [OF E(1) l0 t0 i st] by blast
  have ins: "insertProcess (NPROC E) (Some i) (upd_proc i make_runnable (rb k)) = ret (rb k1)"
    using k1(1) acquire_ok(1) [OF E(1) l0]
    by (auto simp: insert_ready_def kbind_eq_ret put_upd_proc k0_def release_def)
  have s: "state (procs (rb k1) i) \<noteq> RUNNING" "locks k1 = [Proc_lock i]" "myproc k1 = Some i"
    "noff (mycpu k1) = 1" "hart k1 = hart k"
    using tree_frame_fields(4) [OF k1(3), of i] stable_views [OF k1(2)] a r
    by (simp_all add: k0_def in_kernel_def)
  have "yield E k = kbind (kbind (kbind (pset make_runnable (Some i) k0) (insert_ready E (Some i)))
      (sched E)) (release_p E (Some i))"
    using a(1) p c by (simp add: yield_def Let_def acquire_p_def k0_def kbind_assoc)
  also have "\<dots> = resume_with E k1 (release_p E (Some i))"
    using k1(1) sched_resume [OF E s(3) _ s(4) s(1), of "release_p E (Some i)"] s(2) by simp
  finally have "yield E k = resume_with E k1 (release_p E (Some i))" .
  moreover have "yield_step (NPROC E) (sys_of k ds) (sys_of k1 (ds(Hart (hart k) := Parked i)))"
    using preempt [of "sys_of k ds" "hart k" i "rb k" "minvRuntime (procTree (rb k))" "NPROC E" "rb k1"] ds c ins
    by (simp add: sys_of_def unlocked_def)
  ultimately show ?thesis using s(5) by blast
qed

lemma sleep_takes_step:
  assumes E: "spin_ok E" "intr_ok E" and p: "myproc k = Some i" "i < NPROC E"
    and st: "state (procs (rb k) i) = RUNNING" and t: "table_ok E k q"
    and l: "locks k = [lk]" "lk \<noteq> Proc_lock i" "noff (mycpu k) = 1"
    and ds: "ds (Hart (hart k)) = Runs i" "ds (Thread i) = Idle" "lock_free (sys_of k ds) i"
  shows "\<exists>k1. sleep E ch lk k = resume_with E k1 (\<lambda>k.
      kbind (pset (chan_update (\<lambda>_. None)) (Some i) k) (\<lambda>k.
      kbind (release_p E (Some i) k) (acquire E lk))) \<and>
    sleep_step (sys_of k ds) (sys_of k1 (ds(Hart (hart k) := Parked i)))"
proof -
  obtain k1 where k1: "sleep E ch lk k = resume_with E k1 (\<lambda>k.
      kbind (pset (chan_update (\<lambda>_. None)) (Some i) k) (\<lambda>k.
      kbind (release_p E (Some i) k) (acquire E lk)))"
    "procs (rb k1) = (procs (rb k))(i := (procs (rb k) i)\<lparr>chan := ch, state := SLEEPING\<rparr>)"
    "procTree (rb k1) = procTree (rb k)"
    using sleep_switches [OF E p st t l] by blast
  have "rb k1 = upd_proc i (\<lambda>r. r\<lparr>chan := ch, state := SLEEPING\<rparr>) (rb k)"
    by (rule rbs.equality) (simp_all add: k1(2,3))
  then have "sleep_step (sys_of k ds) (sys_of k1 (ds(Hart (hart k) := Parked i)))"
    using block [of "sys_of k ds" "hart k" i ch] ds by (simp add: sys_of_def)
  with k1(1) show ?thesis by blast
qed

end
