(* ===== verification/Sched_Properties.thy ===== *)
theory Sched_Properties
  imports Sched_System Samples
begin

text \<open>
  The properties of the whole scheduler, on every state that any number of harts can reach by
  any interleaving of their critical sections, preemptions inside \<open>fork\<close> included: no process
  runs on two harts, no runnable process is lost, no operation on the ready tree faults or
  hangs, and the next process taken has the least virtual runtime.
\<close>

abbreviation reach :: "'m ext \<Rightarrow> sys \<Rightarrow> bool" where
  "reach E s \<equiv> reachable (started E) (step (NPROC E)) s"

lemma reach_inv:
  assumes "reach E s"
  obtains q where "sched_inv (NPROC E) s q" "alive s"
  using reachable_good [OF assms] by (auto simp: good_def)

section \<open>Reachable states for the witnesses\<close>

text \<open>The machine of the samples boots: its locks, allocator and file system accept every request.\<close>

lemma acq_sample: "l \<notin> set (held (calls k) []) \<Longrightarrow> acquire sample_ext l k =
    ret (set_mycpu (\<lambda>c. c\<lparr>noff := noff c + 1, intena := 0\<rparr>) (k\<lparr>calls := calls k @ [Acquire l]\<rparr>))"
  by (simp add: acquire_def sample_ext_def set_mycpu_def mycpu_def cpuid_def)

lemma rel_sample: "l \<in> set (held (calls k) []) \<Longrightarrow> release sample_ext l k =
    ret (set_mycpu (\<lambda>c. c\<lparr>noff := noff c - 1, intena := 0\<rparr>) (k\<lparr>calls := calls k @ [Release l]\<rparr>))"
  by (simp add: release_def sample_ext_def set_mycpu_def mycpu_def cpuid_def)

lemma sample_calls:
  "kalloc sample_ext m = ((8192, sample_tf), m)" "uvmcreate sample_ext m = (12288, m)"
  "mappages sample_ext pt a n b f m = (0, m)" "namei sample_ext p k = ret (1, k)"
  by (simp_all add: sample_ext_def)

definition boot_kernel :: "nat kernel" where
  "boot_kernel = sample_kernel\<lparr>rb := \<lparr>procs = \<lambda>i. blank_proc\<lparr>state := UNUSED\<rparr>,
     procTree = \<lparr>count = 0, treeWeight = 0, root = None, minvRuntime = None, period = 0\<rparr>\<rparr>,
     nextpid := 1, initproc := None\<rparr>"

lemma boot_zeroed: "zeroed sample_env boot_kernel"
  by (simp add: zeroed_def boot_kernel_def sample_at_def blank_proc_def)

lemma boot_userinit:
  assumes k: "locks k = []" "state (procs (rb k) 0) = UNUSED" "table_ok sample_env k []"
  shows "\<exists>k'. userinit sample_env k = ret k'"
proof -
  have q: "\<exists>k'. kbind (insert_ready sample_env (Some 0) k2) (release_p sample_env (Some 0)) = ret k'"
    if "procTree (rb k2) = procTree (rb k) \<and> (\<forall>j. j \<noteq> 0 \<longrightarrow> procs (rb k2) j = procs (rb k) j) \<and>
      left (procs (rb k2) 0) = None \<and> right (procs (rb k2) 0) = None \<and>
      niceVal (procs (rb k2) 0) = 0 \<and> state (procs (rb k2) 0) = RUNNABLE \<and> locks k2 = [Proc_lock 0]" for k2
    using queue_first [OF sample_spin k(3), of k2] that by auto
  show ?thesis
    using k(1,2) unfolding userinit_def allocproc_def
    by (simp add: upt_rec [of _ 5] upt_conv_Cons acq_sample locks_def)
      (simp add: alloc_found_def allocpid_def acq_sample rel_sample Let_def kalloc_page_def sample_calls
        proc_pagetable_def mcall_def mdo_def tf_set_def locks_def q)
qed

lemma boot_exists: "\<exists>s. started sample_env s"
proof -
  obtain r where r: "procinit sample_env boot_kernel = ret (boot_kernel\<lparr>rb := r\<rparr>)" "tab_ok 5 r []"
    "\<forall>i < 5. state (procs r i) = UNUSED"
    using procinit_ok [OF boot_zeroed] by auto
  let ?k = "boot_kernel\<lparr>rb := r\<rparr>"
  have "locks ?k = []" by (simp add: boot_kernel_def)
  then obtain k' where "userinit sample_env ?k = ret k'"
    using boot_userinit [of ?k] r(2,3) by (auto simp: tab_ok_table)
  then have "userinit sample_env (?k\<lparr>mach := mach ?k, tframes := tframes ?k\<rparr>) = ret k'" by simp
  then have "boot sample_env \<lparr>tab = rb k', duties = \<lambda>_. Idle\<rparr>"
    unfolding boot_def using boot_zeroed r(1) by blast
  moreover have "namei_ok sample_env" by (simp add: namei_ok_def sample_calls)
  ultimately show ?thesis using sample_spin by (auto simp: started_def)
qed

lemma reach_boot: "\<exists>s. reach sample_env s \<and> sched_inv 5 s [0] \<and> (\<forall>w. duties s w = Idle) \<and>
    (\<forall>i < 5. i \<noteq> 0 \<longrightarrow> state (procs (tab s) i) = UNUSED)"
proof -
  obtain s where s: "started sample_env s" using boot_exists by blast
  have r: "reach sample_env s" using s by (rule reachable.start)
  show ?thesis using s boot_inv [of sample_env s] r by (auto simp: started_def)
qed

text \<open>Hart 2 takes and dispatches the first process.\<close>

lemma reach_running: "\<exists>s. reach sample_env s \<and> duties s = (\<lambda>_. Idle)(Hart 2 := Runs 0) \<and>
    state (procs (tab s) 1) = UNUSED"
proof -
  obtain s where s: "reach sample_env s" "sched_inv 5 s [0]" "\<forall>w. duties s w = Idle"
    "\<forall>i < 5. i \<noteq> 0 \<longrightarrow> state (procs (tab s) i) = UNUSED"
    using reach_boot by blast
  obtain t where t: "retrieveProcess 5 (tab s) = ret (Some 0, t)"
    "\<forall>i. state (procs t i) = state (procs (tab s) i)"
    using tab_retrieve sched_invD(1) [OF s(2)] by blast
  define s1 where "s1 = s\<lparr>tab := t, duties := (duties s)(Hart 2 := Claimed 0)\<rparr>"
  have s1: "reach sample_env s1"
    unfolding s1_def by (rule reachable.more [OF s(1) step_sched [OF pick]]) (use s(3) t in auto)
  have "state (procs (tab s1) 0) = RUNNABLE"
    using tab_okD(4) [OF sched_invD(1) [OF s(2)], of 0] t(2) by (simp add: s1_def)
  moreover have "lock_free s1 0" using s(3) by (auto simp: s1_def lock_free_def)
  moreover define s2 where "s2 = s1\<lparr>tab := upd_proc 0 (state_update (\<lambda>_. RUNNING)) (tab s1),
      duties := (duties s1)(Hart 2 := Runs 0)\<rparr>"
  ultimately have "reach sample_env s2"
    unfolding s2_def by (intro reachable.more [OF s1 step_sched [OF dispatch]]) (auto simp: s1_def)
  moreover have "duties s2 = (\<lambda>_. Idle)(Hart 2 := Runs 0)"
    by (rule ext) (use s(3) in \<open>simp add: s1_def s2_def\<close>)
  moreover have "state (procs (tab s2) 1) = UNUSED" using s(4) t(2) by (simp add: s1_def s2_def)
  ultimately show ?thesis by blast
qed

text \<open>It forks: the child, entry 1, is runnable and not queued yet.\<close>

lemma reach_forking: "\<exists>s. reach sample_env s \<and> state (procs (tab s) 1) = RUNNABLE \<and>
    duties s = (\<lambda>_. Idle)(Hart 2 := Runs 0, Thread 0 := Forking 1)"
proof -
  obtain s where s: "reach sample_env s" "duties s = (\<lambda>_. Idle)(Hart 2 := Runs 0)"
    "state (procs (tab s) 1) = UNUSED"
    using reach_running by blast
  define s1 where "s1 = s\<lparr>tab := upd_proc 1 (allocated zero_context 8192 12288 2) (tab s),
      duties := (duties s)(Thread 0 := Building 1)\<rparr>"
  define s2 where "s2 = s1\<lparr>duties := (duties s1)(Thread 0 := Built 1)\<rparr>"
  define s3 where "s3 = s2\<lparr>tab := upd_proc 1 (parent_update (\<lambda>_. Some 0)) (tab s2),
      duties := (duties s2)(Thread 0 := Adopted 1)\<rparr>"
  define s4 where "s4 = s3\<lparr>tab := upd_proc 1 (state_update (\<lambda>_. RUNNABLE)) (tab s3),
      duties := (duties s3)(Thread 0 := Forking 1)\<rparr>"
  note d = s1_def s2_def s3_def s4_def
  have "fork_step 5 s s1"
    unfolding s1_def by (rule alloc [of _ 2]) (use s(2,3) in \<open>auto simp: lock_free_def\<close>)
  then have r1: "reach sample_env s1" by (intro reachable.more [OF s(1)] step_fork) simp
  have "fork_step 5 s1 s2"
    unfolding s2_def by (rule unlock [of _ 2]) (use s(2) in \<open>simp_all add: d\<close>)
  then have r2: "reach sample_env s2" by (intro reachable.more [OF r1] step_fork) simp
  have "fork_step 5 s2 s3"
    unfolding s3_def by (rule adopt [of _ 2]) (use s(2) in \<open>simp_all add: d\<close>)
  then have r3: "reach sample_env s3" by (intro reachable.more [OF r2] step_fork) simp
  have "fork_step 5 s3 s4"
    unfolding s4_def by (rule publish [of _ 2]) (use s(2) in \<open>auto simp: d lock_free_def\<close>)
  then have "reach sample_env s4" by (intro reachable.more [OF r3] step_fork) simp
  moreover have "state (procs (tab s4) 1) = RUNNABLE" by (simp add: d)
  moreover have "duties s4 = (\<lambda>_. Idle)(Hart 2 := Runs 0, Thread 0 := Forking 1)"
    by (rule ext) (use s(2) in \<open>simp add: d\<close>)
  ultimately show ?thesis by blast
qed

text \<open>
  The parent is preempted between the last two sections of \<open>fork\<close>: no hart runs anything, and the
  child is runnable but in no tree.
\<close>

lemma reach_preempted: "\<exists>s. reach sample_env s \<and> state (procs (tab s) 0) = RUNNABLE \<and>
    state (procs (tab s) 1) = RUNNABLE \<and> duties s = (\<lambda>_. Idle)(Thread 0 := Forking 1)"
proof -
  obtain s where s: "reach sample_env s" "state (procs (tab s) 1) = RUNNABLE"
    "duties s = (\<lambda>_. Idle)(Hart 2 := Runs 0, Thread 0 := Forking 1)"
    using reach_forking by blast
  define u :: "proc \<Rightarrow> proc" where "u = (\<lambda>p. p\<lparr>currentRuntime := 5, maxExecutionTime := 2\<rparr>)"
  define s1 where "s1 = s\<lparr>tab := upd_proc 0 u (tab s)\<rparr>"
  have "harmless u" by (simp add: harmless_def u_def links_def)
  then have s1: "reach sample_env s1" unfolding s1_def by (rule reachable.more [OF s(1) compute])
  have d: "duties s1 = (\<lambda>_. Idle)(Hart 2 := Runs 0, Thread 0 := Forking 1)" by (simp add: s1_def s(3))
  obtain q where q: "sched_inv 5 s1 q" using reach_inv [OF s1] by auto
  have i: "0 \<notin> set q" using sched_invD(4) [OF q, of "Hart 2"] by (simp add: d)
  obtain t where t: "insertProcess 5 (Some 0) (upd_proc 0 make_runnable (tab s1)) = ret t"
    using tab_make_runnable_returns [OF sched_invD(1) [OF q] _ i] unfolding returns_iff by auto
  have st: "state (procs t j) = (if j = 0 then RUNNABLE else state (procs (tab s1) j))" for j
    using sched_states(2) [OF q _ t, of 2 j] d by simp
  define s2 where "s2 = s1\<lparr>tab := t, duties := (duties s1)(Hart 2 := Parked 0)\<rparr>"
  have c: "checkPreemption (Some 0) None (tab s1) = ret True"
    by (simp add: checkPreemption_def min_granularity_def s1_def u_def)
  have s2: "reach sample_env s2"
    unfolding s2_def
    by (rule reachable.more [OF s1 step_yield [OF preempt [OF _ _ refl c]]])
      (use t d in \<open>auto simp: unlocked_def lock_free_def\<close>)
  define s3 where "s3 = s2\<lparr>duties := (duties s2)(Hart 2 := Idle)\<rparr>"
  have "reach sample_env s3"
    unfolding s3_def by (rule reachable.more [OF s2 step_sched [OF unpark [of _ _ 0]]]) (simp add: s2_def)
  moreover have "duties s3 = (\<lambda>_. Idle)(Thread 0 := Forking 1)"
    by (rule ext) (simp add: s3_def s2_def d)
  moreover have "state (procs (tab s3) 0) = RUNNABLE" "state (procs (tab s3) 1) = RUNNABLE"
    using st s(2) by (simp_all add: s3_def s2_def s1_def)
  ultimately show ?thesis by blast
qed

section \<open>The properties\<close>

lemma current_owned: "current x = Some i \<Longrightarrow> i \<in> owned x"
  by (cases x) auto

lemma current_running: "role_ok r x \<Longrightarrow> current x = Some i \<Longrightarrow> state (procs r i) = RUNNING"
  by (cases x) auto

lemma owned_cases:
  assumes "fits w x" "role_ok r x" "i \<in> owned x"
  shows "state (procs r i) = RUNNING \<Longrightarrow> \<exists>h. w = Hart h \<and> x = Runs i"
    and "state (procs r i) = RUNNABLE \<Longrightarrow>
      (\<exists>h. w = Hart h \<and> x = Claimed i) \<or> (\<exists>p. w = Thread p \<and> x = Forking i)"
  using assms by (cases w; cases x; auto)+

text \<open>
  C20. Mutual exclusion: in every reachable state a process is \<open>RUNNING\<close> exactly if some hart
  runs it, and no two harts run the same process.
\<close>

theorem no_process_on_two_harts:
  assumes "reach E s"
  shows "(\<forall>h h'. current (duties s (Hart h)) = Some i \<longrightarrow> current (duties s (Hart h')) = Some i \<longrightarrow> h = h') \<and>
    (i < NPROC E \<and> state (procs (tab s) i) = RUNNING \<longleftrightarrow> (\<exists>h. current (duties s (Hart h)) = Some i))"
proof -
  obtain q where inv: "sched_inv (NPROC E) s q" using reach_inv [OF assms] .
  have one: "h = h'"
    if c: "current (duties s (Hart h)) = Some i" "current (duties s (Hart h')) = Some i" for h h'
  proof (rule ccontr)
    assume "h \<noteq> h'"
    then have "owned (duties s (Hart h)) \<inter> owned (duties s (Hart h')) = {}" using sched_invD(5) [OF inv] by simp
    with current_owned [OF c(1)] current_owned [OF c(2)] show False by blast
  qed
  have runs: "\<exists>h. current (duties s (Hart h)) = Some i"
    if i: "i < NPROC E" "state (procs (tab s) i) = RUNNING"
  proof -
    have "i \<notin> set q" using tab_okD(4) [OF sched_invD(1) [OF inv], of i] i(2) by auto
    moreover have "state (procs (tab s) i) \<in> active" using i(2) by (simp add: active_def)
    ultimately obtain w where "i \<in> owned (duties s w)" using sched_invD(6) [OF inv i(1)] by auto
    from owned_cases(1) [OF sched_invD(7) [OF inv] sched_invD(2) [OF inv] this i(2)]
    obtain h where "duties s (Hart h) = Runs i" by auto
    then show ?thesis by (intro exI [of _ h]) simp
  qed
  have run: "i < NPROC E \<and> state (procs (tab s) i) = RUNNING" if "current (duties s (Hart h)) = Some i" for h
    using current_running [OF sched_invD(2) [OF inv] that] current_owned [OF that]
      sched_invD(3) [OF inv, of "Hart h"] by blast
  from one runs run show ?thesis by blast
qed

theorem no_process_on_two_harts_witness:
  "\<exists>s. reach sample_env s \<and> current (duties s (Hart 2)) = Some 0 \<and> state (procs (tab s) 0) = RUNNING"
proof -
  obtain s where s: "reach sample_env s" "duties s = (\<lambda>_. Idle)(Hart 2 := Runs 0)" using reach_running by blast
  have "current (duties s (Hart 2)) = Some 0" using s(2) by simp
  with no_process_on_two_harts [OF s(1), of 0] s(1) show ?thesis by blast
qed

text \<open>
  C21. Whatever the interleaving, every tree operation that is due returns: no null pointer is
  followed, nothing is divided by zero and no loop runs for ever, because no reachable process
  has a positive nice value.
\<close>

theorem tree_never_faults:
  assumes "reach E s"
  shows "\<not> faulty (NPROC E) s \<and> (\<forall>i. \<not> (i < NPROC E \<and> 0 < niceVal (procs (tab s) i)))"
proof -
  obtain q where inv: "sched_inv (NPROC E) s q" using reach_inv [OF assms] .
  have "niceVal (procs (tab s) i) \<le> 0" if "i < NPROC E" for i
    using tab_okD(2) [OF sched_invD(1) [OF inv]] tab_okD(6) [OF sched_invD(1) [OF inv] that]
    by (cases "i \<in> set q") (auto simp: queued_def insertable_def)
  moreover have "\<not> faulty (NPROC E) s" using inv by (intro good_not_faulty) (auto simp: good_def)
  ultimately show ?thesis using linorder_not_le by blast
qed

theorem tree_never_faults_witness:
  "\<exists>s. reach sample_env s \<and> duties s (Thread 0) = Forking 1 \<and> \<not> faulty 5 s"
proof -
  obtain s where s: "reach sample_env s" "duties s = (\<lambda>_. Idle)(Thread 0 := Forking 1)"
    using reach_preempted by blast
  with tree_never_faults [OF s(1)] show ?thesis by (intro exI [of _ s]) simp
qed

text \<open>
  C22. No runnable process is lost: in every reachable state the links form a red-black tree in
  the order of virtual runtime, and a process is runnable exactly if it is in this tree, or a
  hart has just taken it from there, or it is a child that \<open>fork\<close> has still to put there. The
  parent of such a child may be preempted in the middle of \<open>fork\<close>, on no hart itself, but it is
  running or runnable and so comes back to queue the child. Nobody is responsible for a process
  of the tree.
\<close>

theorem runnable_in_tree:
  assumes "reach E s"
  shows "\<exists>t. rep (tab s) t \<and> rb_ok t \<and> distinct (ids t) \<and> sorted (map (vr (tab s)) (ids t)) \<and>
    (\<forall>i. (i < NPROC E \<and> state (procs (tab s) i) = RUNNABLE) =
      (i \<in> set (ids t) \<or> (\<exists>h. duties s (Hart h) = Claimed i) \<or> (\<exists>p. duties s (Thread p) = Forking i))) \<and>
    (\<forall>i p. duties s (Thread p) = Forking i \<longrightarrow> state (procs (tab s) p) \<in> {RUNNING, RUNNABLE}) \<and>
    (\<forall>w. owned (duties s w) \<inter> set (ids t) = {})"
proof -
  obtain q where inv: "sched_inv (NPROC E) s q" and al: "alive s" using reach_inv [OF assms] .
  note tb = sched_invD(1) [OF inv]
  obtain t where t: "rep (tab s) t" "rb_ok t" "ids t = q" "sorted (map (vr (tab s)) q)"
    using tab_okD(1) [OF tb] by (auto simp: ready_def)
  have "i \<in> set q \<or> (\<exists>h. duties s (Hart h) = Claimed i) \<or> (\<exists>p. duties s (Thread p) = Forking i)"
    if i: "i < NPROC E" "state (procs (tab s) i) = RUNNABLE" for i
  proof (cases "i \<in> set q")
    case False
    moreover have "state (procs (tab s) i) \<in> active" using i(2) by (simp add: active_def)
    ultimately obtain w where "i \<in> owned (duties s w)" using sched_invD(6) [OF inv i(1)] by auto
    from owned_cases(2) [OF sched_invD(7) [OF inv] sched_invD(2) [OF inv] this i(2)] show ?thesis by blast
  qed simp
  moreover have "i < NPROC E \<and> state (procs (tab s) i) = RUNNABLE"
    if "i \<in> set q \<or> (\<exists>h. duties s (Hart h) = Claimed i) \<or> (\<exists>p. duties s (Thread p) = Forking i)" for i
    using that
  proof (elim disjE exE)
    assume "i \<in> set q"
    then show ?thesis using tab_okD(4,5) [OF tb, of i] by simp
  next
    fix h assume "duties s (Hart h) = Claimed i"
    then show ?thesis using sched_invD(2,3) [OF inv, of "Hart h"] by simp
  next
    fix p assume "duties s (Thread p) = Forking i"
    then show ?thesis using sched_invD(2,3) [OF inv, of "Thread p"] by simp
  qed
  ultimately have eq: "(i < NPROC E \<and> state (procs (tab s) i) = RUNNABLE) =
      (i \<in> set (ids t) \<or> (\<exists>h. duties s (Hart h) = Claimed i) \<or> (\<exists>p. duties s (Thread p) = Forking i))" for i
    unfolding t(3) by blast
  have fk: "\<forall>i p. duties s (Thread p) = Forking i \<longrightarrow> state (procs (tab s) p) \<in> {RUNNING, RUNNABLE}"
    using al unfolding alive_def by simp
  have "\<forall>w. owned (duties s w) \<inter> set (ids t) = {}" "distinct (ids t)" "sorted (map (vr (tab s)) (ids t))"
    using sched_invD(4) [OF inv] tab_okD(3) [OF tb] t(3,4) by simp_all
  with t(1,2) eq fk show ?thesis by blast
qed

theorem runnable_in_tree_witness:
  "\<exists>s t. reach sample_env s \<and> rep (tab s) t \<and> rb_ok t \<and> 0 \<in> set (ids t) \<and>
    state (procs (tab s) 1) = RUNNABLE \<and> 1 \<notin> set (ids t) \<and> (\<forall>h. duties s (Hart h) = Idle)"
proof -
  obtain s where s: "reach sample_env s" "state (procs (tab s) 0) = RUNNABLE"
    "state (procs (tab s) 1) = RUNNABLE" "duties s = (\<lambda>_. Idle)(Thread 0 := Forking 1)"
    using reach_preempted by blast
  obtain t where t: "rep (tab s) t" "rb_ok t"
    "\<And>i. (i < 5 \<and> state (procs (tab s) i) = RUNNABLE) =
      (i \<in> set (ids t) \<or> (\<exists>h. duties s (Hart h) = Claimed i) \<or> (\<exists>p. duties s (Thread p) = Forking i))"
    "\<And>w. owned (duties s w) \<inter> set (ids t) = {}"
    using runnable_in_tree [OF s(1)] unfolding sample_env_consts by blast
  have "0 \<in> set (ids t)" using t(3) [of 0] s(2,4) by (auto split: if_splits)
  moreover have "1 \<notin> set (ids t)" using t(4) [of "Thread 0"] s(4) by simp
  moreover have "\<forall>h. duties s (Hart h) = Idle" using s(4) by simp
  ultimately show ?thesis using s(1,3) t(1,2) by blast
qed

text \<open>A runnable process that no hart has taken and no \<open>fork\<close> has still to queue.\<close>

definition waiting :: "nat \<Rightarrow> sys \<Rightarrow> nat \<Rightarrow> bool" where
  "waiting N s i \<longleftrightarrow> i < N \<and> state (procs (tab s) i) = RUNNABLE \<and>
     (\<forall>h. duties s (Hart h) \<noteq> Claimed i) \<and> (\<forall>p. duties s (Thread p) \<noteq> Forking i)"

lemma waiting_queued: "sched_inv N s q \<Longrightarrow> waiting N s i \<longleftrightarrow> i \<in> set q"
proof
  assume inv: "sched_inv N s q" and i: "waiting N s i"
  show "i \<in> set q"
  proof (rule ccontr)
    assume "i \<notin> set q"
    moreover have "state (procs (tab s) i) \<in> active" using i by (simp add: waiting_def active_def)
    ultimately obtain w where "i \<in> owned (duties s w)"
      using sched_invD(6) [OF inv, of i] i by (auto simp: waiting_def)
    from owned_cases(2) [OF sched_invD(7) [OF inv] sched_invD(2) [OF inv] this] i show False
      by (auto simp: waiting_def)
  qed
next
  assume inv: "sched_inv N s q" and i: "i \<in> set q"
  show "waiting N s i"
    unfolding waiting_def
    using tab_okD(4,5) [OF sched_invD(1) [OF inv] i] sched_invD(4) [OF inv] i
    by (metis disjoint_iff insertI1 owned.simps(3) owned.simps(8))
qed

text \<open>
  C23. Fair choice: in every reachable state \<open>retrieveProcess\<close> returns nothing only if no process
  waits, and otherwise a waiting process whose virtual runtime is not above that of any other
  waiting process. Waiting are the runnable processes but those that a hart has just taken, and
  the children that a \<open>fork\<close>, whether its caller runs or is preempted, has still to queue.
\<close>

theorem picks_least_runtime:
  assumes "reach E s"
  shows "\<exists>r t. retrieveProcess (NPROC E) (tab s) = ret (r, t) \<and>
    (case r of
       None \<Rightarrow> \<not> (\<exists>i. waiting (NPROC E) s i)
     | Some p \<Rightarrow> waiting (NPROC E) s p \<and>
         (\<forall>i. waiting (NPROC E) s i \<longrightarrow> vr (tab s) p \<le> vr (tab s) i))"
proof -
  obtain q where inv: "sched_inv (NPROC E) s q" using reach_inv [OF assms] .
  note tb = sched_invD(1) [OF inv]
  note w = waiting_queued [OF inv]
  show ?thesis
  proof (cases q)
    case Nil
    then have "retrieveProcess (NPROC E) (tab s) = ret (None, tab s)" using tab_retrieve_empty tb by simp
    then show ?thesis using w Nil by (intro exI [of _ None] exI [of _ "tab s"]) simp
  next
    case (Cons p q')
    then obtain t where t: "retrieveProcess (NPROC E) (tab s) = ret (Some p, t)" using tab_retrieve tb by blast
    moreover have "sorted (map (vr (tab s)) (p # q'))" using tab_okD(1) [OF tb] Cons by (simp add: ready_def)
    then have "\<forall>i \<in> set q. vr (tab s) p \<le> vr (tab s) i" using Cons by auto
    ultimately show ?thesis using w Cons by (intro exI [of _ "Some p"] exI [of _ t]) simp
  qed
qed

theorem picks_least_runtime_witness:
  "\<exists>s p t. reach sample_env s \<and> retrieveProcess 5 (tab s) = ret (Some p, t) \<and> vr (tab s) p \<le> vr (tab s) 0"
proof -
  obtain s where s: "reach sample_env s" "state (procs (tab s) 0) = RUNNABLE"
    "duties s = (\<lambda>_. Idle)(Thread 0 := Forking 1)"
    using reach_preempted by blast
  have w: "waiting 5 s 0" using s(2,3) by (auto simp: waiting_def)
  obtain r t where r: "retrieveProcess 5 (tab s) = ret (r, t)" "case r of
       None \<Rightarrow> \<not> (\<exists>i. waiting 5 s i)
     | Some p \<Rightarrow> waiting 5 s p \<and> (\<forall>i. waiting 5 s i \<longrightarrow> vr (tab s) p \<le> vr (tab s) i)"
    using picks_least_runtime [OF s(1)] unfolding sample_env_consts by blast
  show ?thesis
  proof (cases r)
    case None
    then show ?thesis using r(2) w by auto
  next
    case (Some p)
    then have "vr (tab s) p \<le> vr (tab s) 0" using r(2) w by simp
    then show ?thesis using s(1) r(1) Some by blast
  qed
qed

text \<open>
  C24. The code takes the steps of the system: a preempting \<open>yield\<close> gets from its start to its
  switch by exactly one step of \<open>yield\<close>, the process being parked on its hart, and its duty as a
  thread, be it in the middle of \<open>fork\<close>, stays as it is.
\<close>

theorem yield_refines_step:
  assumes "spin_ok E" and "intr_ok E" and "in_kernel E i k" and "table_ok E k q"
    and "ds (Hart (hart k)) = Runs i" and "locked (ds (Thread i)) = {}" and "lock_free (sys_of k ds) i"
    and "checkPreemption (Some i) (minvRuntime (procTree (rb k))) (rb k) = ret True"
  shows "\<exists>k1. yield E k = resume_with E k1 (release_p E (Some i)) \<and> hart k1 = hart k \<and>
    yield_step (NPROC E) (sys_of k ds) (sys_of k1 (ds(Hart (hart k) := Parked i)))"
  by (rule yield_takes_step) (rule assms)+

theorem yield_refines_step_witness:
  "\<exists>ds k1. ds (Thread 1) = Forking 4 \<and>
    yield sample_env sample_kernel = resume_with sample_env k1 (release_p sample_env (Some 1)) \<and>
    yield_step 5 (sys_of sample_kernel ds) (sys_of k1 (ds(Hart 0 := Parked 1)))"
proof -
  have c: "checkPreemption (Some 1) (minvRuntime (procTree (rb sample_kernel))) (rb sample_kernel) = ret True"
    by (simp add: checkPreemption_def sample_procs_def blank_proc_def min_granularity_def)
  define ds where "ds = (\<lambda>_. Idle)(Hart 0 := Runs 1, Thread 1 := Forking 4)"
  have h: "ds (Hart (hart sample_kernel)) = Runs 1" "locked (ds (Thread 1)) = {}"
    "lock_free (sys_of sample_kernel ds) 1" "ds (Thread 1) = Forking 4"
    by (auto simp: ds_def lock_free_def sys_of_def)
  from yield_refines_step [where ds = ds, OF sample_spin sample_intr sample_running sample_table h(1-3) c] h(4)
  show ?thesis by auto
qed

end
