(* ===== verification/Syscalls.thy ===== *)
theory Syscalls
  imports Proc_Table
begin

text \<open>
  System calls: the fetching of arguments and the dispatch of \<open>syscall.c\<close>, and the handlers of
  \<open>sysproc.c\<close>. The handlers of the file system, which are not in the repository, are the fields
  of a record. Integers cross the boundary as the code converts them: an \<open>int\<close> argument is the
  low half of the register, read as signed, and an \<open>int\<close> result is sign-extended to 64 bits.
\<close>

record 'm files =
  sys_pipe :: "'m kernel \<Rightarrow> (u64 \<times> 'm kernel) kres"
  sys_read :: "'m kernel \<Rightarrow> (u64 \<times> 'm kernel) kres"
  sys_exec :: "'m kernel \<Rightarrow> (u64 \<times> 'm kernel) kres"
  sys_fstat :: "'m kernel \<Rightarrow> (u64 \<times> 'm kernel) kres"
  sys_chdir :: "'m kernel \<Rightarrow> (u64 \<times> 'm kernel) kres"
  sys_dup :: "'m kernel \<Rightarrow> (u64 \<times> 'm kernel) kres"
  sys_open :: "'m kernel \<Rightarrow> (u64 \<times> 'm kernel) kres"
  sys_write :: "'m kernel \<Rightarrow> (u64 \<times> 'm kernel) kres"
  sys_mknod :: "'m kernel \<Rightarrow> (u64 \<times> 'm kernel) kres"
  sys_unlink :: "'m kernel \<Rightarrow> (u64 \<times> 'm kernel) kres"
  sys_link :: "'m kernel \<Rightarrow> (u64 \<times> 'm kernel) kres"
  sys_mkdir :: "'m kernel \<Rightarrow> (u64 \<times> 'm kernel) kres"
  sys_close :: "'m kernel \<Rightarrow> (u64 \<times> 'm kernel) kres"
  copyinstr :: "u64 \<Rightarrow> u64 \<Rightarrow> int \<Rightarrow> 'm \<Rightarrow> (int \<times> string) \<times> 'm"

section \<open>Arguments\<close>

text \<open>A 64-bit value in memory, least significant byte first.\<close>

definition word_of_bytes :: "8 word list \<Rightarrow> u64" where
  "word_of_bytes bs = of_nat (foldr (\<lambda>b n. unat b + 256 * n) bs 0)"

text \<open>\<open>fetchaddr\<close>: the result, and what is stored through \<open>ip\<close> if the call succeeds.\<close>

definition fetchaddr :: "'m ext \<Rightarrow> u64 \<Rightarrow> 'm kernel \<Rightarrow> ((int \<times> u64 option) \<times> 'm kernel) kres" where
  "fetchaddr E addr k =
     (let p = myproc k in
      kbind (pget sz p k) (\<lambda>nbytes.
      if addr \<ge> nbytes \<or> addr + 8 > nbytes then ret ((- 1, None), k)
      else kbind (pget pagetable p k) (\<lambda>pt.
        let ((r, bs), k) = mcall (copyin E pt addr 8) k in
        if r \<noteq> 0 then ret ((- 1, None), k)
        else ret ((0, Some (word_of_bytes bs)), k))))"

definition fetchstr :: "'m files \<Rightarrow> u64 \<Rightarrow> int \<Rightarrow> 'm kernel \<Rightarrow> ((int \<times> string) \<times> 'm kernel) kres" where
  "fetchstr F addr maxlen k =
     (let p = myproc k in
      kbind (pget pagetable p k) (\<lambda>pt.
      let ((r, str), k) = mcall (copyinstr F pt addr maxlen) k in
      if r < 0 then ret ((- 1, str), k)
      else ret ((int (length str), str), k)))"

definition argraw :: "int \<Rightarrow> 'm kernel \<Rightarrow> u64 kres" where
  "argraw n k =
     (let p = myproc k in
      if n = 0 then tf_get tf_a0 p k
      else if n = 1 then tf_get tf_a1 p k
      else if n = 2 then tf_get tf_a2 p k
      else if n = 3 then tf_get tf_a3 p k
      else if n = 4 then tf_get tf_a4 p k
      else if n = 5 then tf_get tf_a5 p k
      else err (Panic ''argraw''))"

definition argint :: "int \<Rightarrow> 'm kernel \<Rightarrow> int kres" where
  "argint n k = kbind (argraw n k) (\<lambda>x. ret (sint (ucast x :: u32)))"

definition argaddr :: "int \<Rightarrow> 'm kernel \<Rightarrow> u64 kres" where
  "argaddr n k = argraw n k"

definition argstr :: "'m files \<Rightarrow> int \<Rightarrow> int \<Rightarrow> 'm kernel \<Rightarrow> ((int \<times> string) \<times> 'm kernel) kres" where
  "argstr F n maxlen k = kbind (argaddr n k) (\<lambda>addr. fetchstr F addr maxlen k)"

section \<open>Handlers\<close>

definition sys_exit :: "'m ext \<Rightarrow> 'm kernel \<Rightarrow> (u64 \<times> 'm kernel) kres" where
  "sys_exit E k = kbind (argint 0 k) (\<lambda>n. kbind (exit E n k) (\<lambda>k. ret (0, k)))"

definition sys_getpid :: "'m kernel \<Rightarrow> (u64 \<times> 'm kernel) kres" where
  "sys_getpid k = kbind (pget pid (myproc k) k) (\<lambda>n. ret (word_of_int n, k))"

definition sys_setnice :: "'m kernel \<Rightarrow> (u64 \<times> 'm kernel) kres" where
  "sys_setnice k = ret (0, k)"

definition sys_fork :: "'m ext \<Rightarrow> 'm kernel \<Rightarrow> (u64 \<times> 'm kernel) kres" where
  "sys_fork E k = kbind (fork E k) (\<lambda>(r, k). ret (word_of_int r, k))"

definition sys_wait :: "'m ext \<Rightarrow> 'm kernel \<Rightarrow> (u64 \<times> 'm kernel) kres" where
  "sys_wait E k = kbind (argaddr 0 k) (\<lambda>p. kbind (wait E p k) (\<lambda>(r, k). ret (word_of_int r, k)))"

definition sys_sbrk :: "'m ext \<Rightarrow> 'm kernel \<Rightarrow> (u64 \<times> 'm kernel) kres" where
  "sys_sbrk E k =
     kbind (argint 0 k) (\<lambda>n.
     kbind (pget sz (myproc k) k) (\<lambda>addr.
     kbind (growproc E n k) (\<lambda>(r, k).
     if r < 0 then ret (- 1, k) else ret (addr, k))))"

partial_function (option) sleep_loop ::
    "'m ext \<Rightarrow> u32 \<Rightarrow> int \<Rightarrow> 'm kernel \<Rightarrow> (u64 \<times> 'm kernel) kres" where
  "sleep_loop E ticks0 n k =
     (if ticks k - ticks0 < word_of_int n then
        kbind (is_killed E (myproc k) k) (\<lambda>(d, k).
        if d \<noteq> 0 then kbind (release E Ticks_lock k) (\<lambda>k. ret (- 1, k))
        else kbind (sleep E (Some Ch_ticks) Ticks_lock k) (\<lambda>k. sleep_loop E ticks0 n k))
      else kbind (release E Ticks_lock k) (\<lambda>k. ret (0, k)))"

definition sys_sleep :: "'m ext \<Rightarrow> 'm kernel \<Rightarrow> (u64 \<times> 'm kernel) kres" where
  "sys_sleep E k =
     kbind (argint 0 k) (\<lambda>n.
     let n = (if n < 0 then 0 else n) in
     kbind (acquire E Ticks_lock k) (\<lambda>k. sleep_loop E (ticks k) n k))"

definition sys_kill :: "'m ext \<Rightarrow> 'm kernel \<Rightarrow> (u64 \<times> 'm kernel) kres" where
  "sys_kill E k = kbind (argint 0 k) (\<lambda>n. kbind (kill E n k) (\<lambda>(r, k). ret (word_of_int r, k)))"

definition sys_uptime :: "'m ext \<Rightarrow> 'm kernel \<Rightarrow> (u64 \<times> 'm kernel) kres" where
  "sys_uptime E k =
     kbind (acquire E Ticks_lock k) (\<lambda>k.
     let xticks = ticks k in
     kbind (release E Ticks_lock k) (\<lambda>k. ret (ucast xticks, k)))"

text \<open>\<open>sys_setNice\<close>, which would set the nice value, is in no entry of the dispatch table.\<close>

definition sys_setNice :: "'m kernel \<Rightarrow> (u64 \<times> 'm kernel) kres" where
  "sys_setNice k =
     kbind (argint 0 k) (\<lambda>nice.
     if nice < 0 \<or> nice > 39 then ret (- 1, k)
     else kbind (pset (niceVal_update (\<lambda>_. nice)) (myproc k) k) (\<lambda>k. ret (0, k)))"

section \<open>Dispatch\<close>

text \<open>The array \<open>syscalls\<close> with the numbers of \<open>syscall.h\<close>; entry 0 is null.\<close>

definition syscalls :: "'m ext \<Rightarrow> 'm files \<Rightarrow> ('m kernel \<Rightarrow> (u64 \<times> 'm kernel) kres) option list" where
  "syscalls E F = [None, Some (sys_fork E), Some (sys_exit E), Some (sys_wait E), Some (sys_pipe F),
     Some (sys_read F), Some (sys_kill E), Some (sys_exec F), Some (sys_fstat F), Some (sys_chdir F),
     Some (sys_dup F), Some sys_getpid, Some (sys_sbrk E), Some (sys_sleep E), Some (sys_uptime E),
     Some (sys_open F), Some (sys_write F), Some (sys_mknod F), Some (sys_unlink F),
     Some (sys_link F), Some (sys_mkdir F), Some (sys_close F), Some sys_setnice]"

definition syscall :: "'m ext \<Rightarrow> 'm files \<Rightarrow> 'm kernel \<Rightarrow> 'm kernel kres" where
  "syscall E F k =
     (let p = myproc k in
      kbind (tf_get tf_a7 p k) (\<lambda>a7.
      let num = sint (ucast a7 :: u32) in
      if num > 0 \<and> num < int (length (syscalls E F)) \<and> syscalls E F ! nat num \<noteq> None then
        kbind (the (syscalls E F ! nat num) k) (\<lambda>(r, k). tf_set (tf_a0_update (\<lambda>_. r)) p k)
      else
        kbind (pget pid p k) (\<lambda>n.
        kbind (pget name p k) (\<lambda>nm.
        tf_set (tf_a0_update (\<lambda>_. - 1)) p
          (mdo (printf E (''%d %s: unknown sys call %d'' @ [CHR 0x0A]) [Arg_int n, Arg_str nm, Arg_int num]) k)))))"

end
