(* ===== verification/Syscall_Properties.thy ===== *)
theory Syscall_Properties
  imports Syscalls Samples
begin

text \<open>
  The properties of the system call layer: what \<open>fetchaddr\<close> accepts, how 32-bit values cross
  the 64-bit registers, what the dispatcher does with every number, and what \<open>sbrk\<close>, \<open>sleep\<close>
  and the two nice calls do.
\<close>

section \<open>Arguments and results\<close>

text \<open>
  C25. \<open>fetchaddr\<close> reads user memory exactly if the eight bytes lie below the size of the
  process, as unbounded integers: the second comparison alone would accept an address near
  \<open>2 ^ 64\<close> whose sum wraps around, the two together never do.
\<close>

theorem fetchaddr_bounds:
  assumes "myproc k = Some p" and "unat (sz (procs (rb k) p)) < 2 ^ 64 - 8"
  shows "(unat addr + 8 \<le> unat (sz (procs (rb k) p)) \<longrightarrow>
      fetchaddr E addr k = kbind (ret (mcall (copyin E (pagetable (procs (rb k) p)) addr 8) k))
        (\<lambda>((r, bs), k). ret (if r \<noteq> 0 then (- 1, None) else (0, Some (word_of_bytes bs)), k))) \<and>
    (unat addr + 8 > unat (sz (procs (rb k) p)) \<longrightarrow> fetchaddr E addr k = ret ((- 1, None), k))"
proof -
  have "addr < sz (procs (rb k) p) \<and> addr + 8 \<le> sz (procs (rb k) p) \<longleftrightarrow>
      unat addr + 8 \<le> unat (sz (procs (rb k) p))"
  proof (cases "addr < sz (procs (rb k) p)")
    case True
    then have "unat addr < unat (sz (procs (rb k) p))" by (simp add: word_less_nat_alt)
    then have "unat (addr + 8) = unat addr + 8"
      using assms(2) by (simp add: unat_word_ariths)
    then show ?thesis using True by (simp add: word_le_nat_alt)
  next
    case False
    then have "unat (sz (procs (rb k) p)) \<le> unat addr" by (simp add: word_less_nat_alt not_less)
    then show ?thesis using False by simp
  qed
  moreover have "addr \<ge> sz (procs (rb k) p) \<or> addr + 8 > sz (procs (rb k) p) \<longleftrightarrow>
      \<not> (addr < sz (procs (rb k) p) \<and> addr + 8 \<le> sz (procs (rb k) p))"
    by (simp add: not_less not_le)
  ultimately have range: "addr \<ge> sz (procs (rb k) p) \<or> addr + 8 > sz (procs (rb k) p) \<longleftrightarrow>
      unat addr + 8 > unat (sz (procs (rb k) p))"
    by (simp only: not_le)
  obtain r bs m where c: "copyin E (pagetable (procs (rb k) p)) addr 8 (mach k) = ((r, bs), m)"
    by (metis surj_pair)
  show ?thesis
  proof (intro conjI impI)
    assume "unat addr + 8 \<le> unat (sz (procs (rb k) p))"
    then have "\<not> (addr \<ge> sz (procs (rb k) p) \<or> addr + 8 > sz (procs (rb k) p))" unfolding range by simp
    then show "fetchaddr E addr k = kbind (ret (mcall (copyin E (pagetable (procs (rb k) p)) addr 8) k))
        (\<lambda>((r, bs), k). ret (if r \<noteq> 0 then (- 1, None) else (0, Some (word_of_bytes bs)), k))"
      using assms(1) by (simp add: fetchaddr_def Let_def mcall_def c)
  next
    assume "unat addr + 8 > unat (sz (procs (rb k) p))"
    then have "addr \<ge> sz (procs (rb k) p) \<or> addr + 8 > sz (procs (rb k) p)" unfolding range .
    then show "fetchaddr E addr k = ret ((- 1, None), k)"
      using assms(1) by (simp add: fetchaddr_def Let_def)
  qed
qed

theorem fetchaddr_bounds_witness:
  "fetchaddr sample_env (- 4) sample_kernel = ret ((- 1, None), sample_kernel)"
proof -
  have m: "myproc sample_kernel = Some 1" by simp
  have z: "sz (procs (rb sample_kernel) 1) = 0" by (simp add: sample_procs_def blank_proc_def)
  have "unat (sz (procs (rb sample_kernel) 1)) < 2 ^ 64 - 8" unfolding z by simp
  from fetchaddr_bounds [OF m this, of "- 4" sample_env] show ?thesis unfolding z by simp
qed

text \<open>
  An \<open>int\<close> survives the crossing of a register: what a caller stores in argument register
  \<open>n\<close> as a sign-extended 32-bit value is what \<open>argint\<close> delivers, for all six registers, and any
  other argument number panics.
\<close>

definition arg_register :: "nat \<Rightarrow> trapframe \<Rightarrow> u64" where
  "arg_register n t = [tf_a0 t, tf_a1 t, tf_a2 t, tf_a3 t, tf_a4 t, tf_a5 t] ! n"

lemma signed_roundtrip:
  assumes "- (2 ^ 31) \<le> x" "x < 2 ^ 31"
  shows "sint (ucast (word_of_int x :: u64) :: u32) = x"
proof -
  have u: "(ucast (word_of_int x :: u64) :: u32) = word_of_int x"
    by (simp add: unsigned_of_int word_of_int_eq_iff)
  show ?thesis unfolding u using assms
    by (simp only: signed_of_int) (simp add: signed_take_bit_int_eq_self)
qed

lemma argint_roundtrip:
  assumes "myproc k = Some p" and "proc.trapframe (procs (rb k) p) = a" and "a \<noteq> 0"
  shows "(n < 6 \<longrightarrow> - (2 ^ 31) \<le> x \<longrightarrow> x < 2 ^ 31 \<longrightarrow> arg_register n (tframes k a) = word_of_int x \<longrightarrow>
      argint (int n) k = ret x) \<and>
    (6 \<le> n \<longrightarrow> argint (int n) k = err (Panic ''argraw''))"
proof (cases "n < 6")
  case True
  then have "n \<in> {0, 1, 2, 3, 4, 5}" by auto
  then have "argraw (int n) k = ret (arg_register n (tframes k a))"
    using assms by (auto simp: argraw_def arg_register_def tf_get_def Let_def)
  then show ?thesis using True signed_roundtrip [of x] by (simp add: argint_def)
next
  case False
  then show ?thesis by (simp add: argint_def argraw_def Let_def)
qed

section \<open>Dispatch\<close>

text \<open>
  The dispatcher looks only at the low 32 bits of \<open>a7\<close>, as a signed number: for 1 to 22 it
  runs that handler and stores its result in \<open>a0\<close>; for any other number, negative ones
  included, it runs nothing and stores -1.
\<close>

lemma syscall_dispatch:
  assumes "myproc k = Some p" and "proc.trapframe (procs (rb k) p) = a" and "a \<noteq> 0"
  defines "num \<equiv> sint (ucast (tf_a7 (tframes k a)) :: u32)"
  shows "if 1 \<le> num \<and> num \<le> 22
    then \<exists>f. syscalls E F ! nat num = Some f \<and>
      syscall E F k = kbind (f k) (\<lambda>(r, k). tf_set (tf_a0_update (\<lambda>_. r)) (Some p) k)
    else \<exists>k'. syscall E F k = ret k' \<and> rb k' = rb k \<and> calls k' = calls k \<and>
      tframes k' = (tframes k)(a := (tframes k a)\<lparr>tf_a0 := - 1\<rparr>)"
proof (cases "1 \<le> num \<and> num \<le> 22")
  case True
  then obtain j where j: "nat num = Suc j" "j < 22" by (cases "nat num") auto
  have "list_all (\<lambda>x. x \<noteq> None) (tl (syscalls E F))" "length (tl (syscalls E F)) = 22"
    by (simp_all add: syscalls_def)
  then have "tl (syscalls E F) ! j \<noteq> None" using j(2) unfolding list_all_length by simp
  moreover have "syscalls E F ! nat num = tl (syscalls E F) ! j" unfolding j(1) by (simp add: syscalls_def)
  ultimately have "\<exists>f. syscalls E F ! nat num = Some f" by simp
  then obtain f where f: "syscalls E F ! nat num = Some f" ..
  have "syscall E F k = kbind (f k) (\<lambda>(r, k). tf_set (tf_a0_update (\<lambda>_. r)) (Some p) k)"
    using True f assms(1-3) by (simp add: syscall_def Let_def tf_get_def num_def syscalls_def)
  with True f show ?thesis by auto
next
  case False
  then have "\<not> (num > 0 \<and> num < int (length (syscalls E F)))" by (auto simp: syscalls_def)
  then show ?thesis
    using False assms(1-3) by (auto simp: syscall_def Let_def tf_get_def tf_set_def num_def mdo_def)
qed

definition sample_files :: "nat files" where
  "sample_files = \<lparr>sys_pipe = (\<lambda>k. ret (0, k)), sys_read = (\<lambda>k. ret (0, k)),
     sys_exec = (\<lambda>k. ret (0, k)), sys_fstat = (\<lambda>k. ret (0, k)), sys_chdir = (\<lambda>k. ret (0, k)),
     sys_dup = (\<lambda>k. ret (0, k)), sys_open = (\<lambda>k. ret (0, k)), sys_write = (\<lambda>k. ret (0, k)),
     sys_mknod = (\<lambda>k. ret (0, k)), sys_unlink = (\<lambda>k. ret (0, k)), sys_link = (\<lambda>k. ret (0, k)),
     sys_mkdir = (\<lambda>k. ret (0, k)), sys_close = (\<lambda>k. ret (0, k)),
     copyinstr = (\<lambda>_ _ _ m. ((0, []), m))\<rparr>"

lemma sample_frame:
  "proc.trapframe (procs (rb (sample_at m)) 1) = 4096" "tframes (sample_at m) 4096 = sample_tf"
  by (simp_all add: sample_procs_def) (simp add: sample_at_def)

section \<open>Sleeping\<close>

text \<open>Going back to the test of \<open>sys_sleep\<close> after the process was switched in again.\<close>

definition sleep_again :: "'m ext \<Rightarrow> u32 \<Rightarrow> int \<Rightarrow> nat \<Rightarrow> 'm kernel \<Rightarrow> (u64 \<times> 'm kernel) kres" where
  "sleep_again E ticks0 n p k = kbind (kbind (pset (chan_update (\<lambda>_. None)) (Some p) k) (\<lambda>k.
     kbind (release_p E (Some p) k) (acquire E Ticks_lock))) (sleep_loop E ticks0 n)"

lemma first_round:
  assumes "spin_ok E" and "intr_ok E" and "in_kernel E p k" and "table_ok E k q"
    and "argint 0 k = ret n" and "n < 2 ^ 31"
  shows "if n \<le> 0 then \<exists>k'. sys_sleep E k = ret (0, k') \<and> stable k k' \<and> rb k' = rb k
    else if killed (procs (rb k) p) \<noteq> 0
    then \<exists>k'. sys_sleep E k = ret (- 1, k') \<and> stable k k' \<and> rb k' = rb k
    else \<exists>k1. sys_sleep E k = kbind (swtch E (Ctx_proc p) (Ctx_cpu (cpuid k1)) k1)
        (\<lambda>k'. sleep_again E (ticks k) n p (set_mycpu (intena_update (\<lambda>_. intena (mycpu k1))) k')) \<and>
      locks k1 = [Proc_lock p] \<and> table_ok E k1 q \<and> procs (rb k1) =
        (procs (rb k))(p := (procs (rb k) p)\<lparr>chan := Some Ch_ticks, state := SLEEPING\<rparr>)"
proof -
  have l: "locks k = []" and me: "myproc k = Some p" and i: "p < NPROC E" and n: "noff (mycpu k) = 0"
    and run: "state (procs (rb k) p) = RUNNING" using assms(3) by (simp_all add: in_kernel_def)
  have lt: "Ticks_lock \<notin> set (locks k)" using l by simp
  define k0 where "k0 = acq E Ticks_lock k"
  note a = acquire_ok [OF assms(1) lt, folded k0_def]
  have rb0: "rb k0 = rb k" "ticks k0 = ticks k" by (simp_all add: k0_def)
  define n' where "n' = (if n < 0 then 0 else n)"
  have w: "sys_sleep E k = sleep_loop E (ticks k) n' k0"
    using a(1) assms(5) rb0 by (simp add: sys_sleep_def n'_def)
  have pos: "ticks k0 - ticks k < word_of_int n' \<longleftrightarrow> 0 < n"
  proof -
    have "uint (word_of_int n' :: u32) = n'"
      using assms(6) by (simp add: n'_def unsigned_of_int take_bit_int_eq_self)
    then show ?thesis by (auto simp: rb0 word_less_def n'_def)
  qed
  have stop: "\<exists>k'. kbind (release E Ticks_lock kx) (\<lambda>k. ret (r :: u64, k)) = ret (r, k') \<and>
      stable k k' \<and> rb k' = rb k"
    if "stable k0 kx" "rb kx = rb k" for kx r
    using stable_section [OF assms(1) lt that(1) [unfolded k0_def]] that(2) by auto
  have lp: "Proc_lock p \<notin> set (locks k0)" using a l by simp
  obtain k2 where k2: "is_killed E (Some p) k0 = ret (killed (procs (rb k) p), k2)" "stable k0 k2" "rb k2 = rb k"
    using is_killed_ok [OF assms(1) lp] rb0 by auto
  note v = stable_views [OF k2(2)]
  have m0: "myproc k0 = Some p" using a me by simp
  show ?thesis
  proof (cases "n \<le> 0")
    case True
    have "sys_sleep E k = kbind (release E Ticks_lock k0) (\<lambda>k. ret (0, k))"
      unfolding w by (subst sleep_loop.simps) (use True pos in simp)
    then show ?thesis using stop [of k0 0] rb0 True by simp
  next
    case False
    show ?thesis
    proof (cases "killed (procs (rb k) p) = 0")
      case dead: False
      have "sys_sleep E k = kbind (release E Ticks_lock k2) (\<lambda>k. ret (- 1, k))"
        unfolding w by (subst sleep_loop.simps) (use False dead pos k2(1) m0 in simp)
      then show ?thesis using stop [OF k2(2,3), of "- 1"] False dead by simp
    next
      case True
      have n': "n' = n" using False by (simp add: n'_def)
      have s: "myproc k2 = Some p" "locks k2 = [Ticks_lock]" "noff (mycpu k2) = 1"
        using v a l me n by simp_all
      have t2: "table_ok E k2 q" using assms(4) by (simp add: table_ok_def k2(3))
      have run2: "state (procs (rb k2) p) = RUNNING" by (simp add: k2(3) run)
      obtain k3 where k3: "sleep E (Some Ch_ticks) Ticks_lock k2 = resume_with E k3 (\<lambda>k.
          kbind (pset (chan_update (\<lambda>_. None)) (Some p) k) (\<lambda>k.
          kbind (release_p E (Some p) k) (acquire E Ticks_lock)))"
        "myproc k3 = Some p" "locks k3 = [Proc_lock p]" "table_ok E k3 q"
        "procs (rb k3) = (procs (rb k))(p := (procs (rb k) p)\<lparr>chan := Some Ch_ticks, state := SLEEPING\<rparr>)"
        using sleep_switches [OF assms(1,2) s(1) i run2 t2 s(2) _ s(3), of "Some Ch_ticks"]
        unfolding k2(3) by auto
      have "sys_sleep E k = kbind (sleep E (Some Ch_ticks) Ticks_lock k2) (sleep_loop E (ticks k) n)"
        unfolding w n' by (subst sleep_loop.simps) (use False True pos k2(1) m0 n' in simp)
      also have "\<dots> = kbind (swtch E (Ctx_proc p) (Ctx_cpu (cpuid k3)) k3)
          (\<lambda>k'. sleep_again E (ticks k) n p (set_mycpu (intena_update (\<lambda>_. intena (mycpu k3))) k'))"
        unfolding k3(1) resume_with_kbind [OF k3(2)] sleep_again_def ..
      finally show ?thesis using False True k3(3-5) by auto
    qed
  qed
qed

text \<open>
  C27. The first round of \<open>sleep(n)\<close>: with \<open>n\<close> zero or negative it returns 0 at once; with
  \<open>n\<close> positive a killed process gets -1, and any other is put to sleep on \<open>ticks\<close>, holding its
  own lock only, and tests again when it runs next. The elapsed ticks are a 32-bit unsigned
  difference, so a wrap of the tick counter does not disturb the test.
\<close>

theorem sys_sleep_correct:
  assumes "spin_ok E" and "intr_ok E" and "in_kernel E p k" and "table_ok E k q"
    and "argint 0 k = ret n" and "n < 2 ^ 31"
  shows "if n \<le> 0 then \<exists>k'. sys_sleep E k = ret (0, k') \<and> stable k k' \<and> rb k' = rb k
    else if killed (procs (rb k) p) \<noteq> 0
    then \<exists>k'. sys_sleep E k = ret (- 1, k') \<and> stable k k' \<and> rb k' = rb k
    else \<exists>k1. sys_sleep E k = kbind (swtch E (Ctx_proc p) (Ctx_cpu (cpuid k1)) k1)
        (\<lambda>k'. sleep_again E (ticks k) n p (set_mycpu (intena_update (\<lambda>_. intena (mycpu k1))) k')) \<and>
      locks k1 = [Proc_lock p] \<and> table_ok E k1 q \<and> procs (rb k1) =
        (procs (rb k))(p := (procs (rb k) p)\<lparr>chan := Some Ch_ticks, state := SLEEPING\<rparr>)"
  by (rule first_round [OF assms])

theorem sys_sleep_correct_witness:
  "\<exists>k1. sys_sleep sample_env sample_kernel = kbind (swtch sample_env (Ctx_proc 1) (Ctx_cpu (cpuid k1)) k1)
      (\<lambda>k'. sleep_again sample_env 0 7 1 (set_mycpu (intena_update (\<lambda>_. intena (mycpu k1))) k')) \<and>
    locks k1 = [Proc_lock 1]"
proof -
  have "argint 0 sample_kernel = ret 7"
    by (simp add: argint_def argraw_def Let_def tf_get_def sample_procs_def)
       (simp add: sample_at_def sample_tf_def)
  moreover have "killed (procs (rb sample_kernel) 1) = 0" by (simp add: sample_procs_def blank_proc_def)
  ultimately show ?thesis
    using sys_sleep_correct [OF sample_spin sample_intr sample_running sample_table, of 7] by auto
qed

text \<open>
  C28. \<open>sleep(n)\<close> never returns early with success: whatever the other processes do in between,
  if it returns at all then with -1, or with 0 after at least \<open>n\<close> ticks.
\<close>

lemma release_ticks: "release E l k = ret k' \<Longrightarrow> ticks k' = ticks k"
  by (auto simp: release_def kbind_eq_ret)

lemma sleep_loop_late:
  assumes "sleep_loop E ticks0 n k = Some y"
  shows "\<forall>r k'. y = Inr (r, k') \<longrightarrow> r = - 1 \<or> r = 0 \<and> word_of_int n \<le> ticks k' - ticks0"
proof (rule sleep_loop.raw_induct [where P = "\<lambda>E ticks0 n k y. \<forall>r k'. y = Inr (r, k') \<longrightarrow>
    r = - 1 \<or> r = 0 \<and> word_of_int n \<le> ticks k' - ticks0", OF _ assms], intro allI impI)
  fix loop :: "'m ext \<Rightarrow> u32 \<Rightarrow> int \<Rightarrow> 'm kernel \<Rightarrow> (u64 \<times> 'm kernel) kres"
    and E :: "'m ext" and ticks0 :: u32 and n k y r k'
  assume IH: "\<And>E ticks0 n k y. loop E ticks0 n k = Some y \<Longrightarrow>
      \<forall>r k'. y = Inr (r, k') \<longrightarrow> r = - 1 \<or> r = 0 \<and> word_of_int n \<le> ticks k' - ticks0"
    and body: "(if ticks k - ticks0 < word_of_int n then
        kbind (is_killed E (myproc k) k) (\<lambda>(d, k).
        if d \<noteq> 0 then kbind (release E Ticks_lock k) (\<lambda>k. ret (- 1, k))
        else kbind (sleep E (Some Ch_ticks) Ticks_lock k) (loop E ticks0 n))
      else kbind (release E Ticks_lock k) (\<lambda>k. ret (0, k))) = Some y"
    and y: "y = Inr (r, k')"
  have again: "loop E ticks0 n kx = ret (r, k') \<Longrightarrow> r = - 1 \<or> r = 0 \<and> word_of_int n \<le> ticks k' - ticks0" for kx
    using IH [of E ticks0 n kx "Inr (r, k')"] by (simp add: ret_def)
  have "(if ticks k - ticks0 < word_of_int n then
        kbind (is_killed E (myproc k) k) (\<lambda>(d, k).
        if d \<noteq> 0 then kbind (release E Ticks_lock k) (\<lambda>k. ret (- 1, k))
        else kbind (sleep E (Some Ch_ticks) Ticks_lock k) (loop E ticks0 n))
      else kbind (release E Ticks_lock k) (\<lambda>k. ret (0, k))) = ret (r, k')"
    using body y by (simp add: ret_def)
  then show "r = - 1 \<or> r = 0 \<and> word_of_int n \<le> ticks k' - ticks0"
    using again by (auto simp: kbind_eq_ret not_less release_ticks split: if_splits dest: release_ticks)
qed

theorem sleep_not_early:
  assumes "sys_sleep E k = ret (r, k')" and "argint 0 k = ret n" and "0 \<le> n" and "n < 2 ^ 31"
  shows "r = - 1 \<or> r = 0 \<and> nat n \<le> unat (ticks k' - ticks k)"
proof -
  have "acquire E Ticks_lock k = ret kx \<Longrightarrow> ticks kx = ticks k" for kx
    by (auto simp: acquire_def kbind_eq_ret)
  then obtain kx where "sleep_loop E (ticks k) n kx = ret (r, k')"
    using assms(1-3) by (auto simp: sys_sleep_def kbind_eq_ret)
  then have "r = - 1 \<or> r = 0 \<and> word_of_int n \<le> ticks k' - ticks k"
    using sleep_loop_late by (fastforce simp: ret_def)
  moreover have "unat (word_of_int n :: u32) = nat n"
    using assms(3,4) by (simp add: unsigned_of_int take_bit_int_eq_self)
  ultimately show ?thesis by (auto simp: word_le_nat_alt)
qed

text \<open>A processor that runs the sleeper again when the tick counter has reached 1.\<close>

theorem sleep_not_early_witness:
  "\<exists>E (k :: nat kernel) k'. argint 0 k = ret 1 \<and> sys_sleep E k = ret (0, k') \<and> 1 \<le> unat (ticks k' - ticks k)"
proof -
  define E where "E = sample_env\<lparr>swtch := (\<lambda>_ _ k. ret (k\<lparr>ticks := 1\<rparr>))\<rparr>"
  define k where "k = sample_kernel\<lparr>tframes := (\<lambda>_. sample_tf\<lparr>tf_a0 := 1\<rparr>)\<rparr>"
  have p: "procs (rb k) = sample_procs" "myproc k = Some 1" "ticks k = 0" by (simp_all add: k_def)
  have arg: "argint 0 k = ret 1"
    unfolding argint_def argraw_def Let_def tf_get_def p
    by (simp add: p sample_procs_def) (simp add: k_def)
  have E: "spin_ok E" "intr_ok E" "in_kernel E 1 k" "table_ok E k []"
    using sample_spin sample_intr sample_running sample_table
    by (simp_all add: E_def k_def spin_ok_def intr_ok_def in_kernel_def table_ok_def)
  have "killed (procs (rb k) 1) = 0" by (simp add: p sample_procs_def blank_proc_def)
  then obtain k1 where k1: "sys_sleep E k = kbind (swtch E (Ctx_proc 1) (Ctx_cpu (cpuid k1)) k1)
        (\<lambda>k'. sleep_again E 0 1 1 (set_mycpu (intena_update (\<lambda>_. intena (mycpu k1))) k'))"
      "locks k1 = [Proc_lock 1]"
    using first_round [OF E arg] p(3) by auto
  define k2 where "k2 = put (chan_update (\<lambda>_. None)) 1
    (set_mycpu (intena_update (\<lambda>_. intena (mycpu k1))) (k1\<lparr>ticks := 1\<rparr>))"
  have l2: "Proc_lock 1 \<in> set (locks k2)" using k1(2) by (simp add: k2_def)
  note r = release_ok [OF E(1) l2]
  have l3: "Ticks_lock \<notin> set (locks (rel E (Proc_lock 1) k2))" using r(2) k1(2) by (simp add: k2_def)
  note a = acquire_ok [OF E(1) l3]
  define k4 where "k4 = acq E Ticks_lock (rel E (Proc_lock 1) k2)"
  have t4: "ticks k4 = 1" "Ticks_lock \<in> set (locks k4)" using a(2) by (simp_all add: k4_def k2_def)
  have "sleep_loop E 0 1 k4 = ret (0, rel E Ticks_lock k4)"
    using release_ok(1) [OF E(1) t4(2)] by (subst sleep_loop.simps) (simp add: t4(1))
  then have fin: "sys_sleep E k = ret (0, rel E Ticks_lock k4)"
    using r(1) a(1) unfolding k1(1) sleep_again_def
    by (simp add: E_def [symmetric] k2_def [symmetric] k4_def [symmetric] release_p_def)
       (simp add: E_def k2_def k4_def release_p_def)
  show ?thesis
    using sleep_not_early [OF fin arg] arg fin by (intro exI [of _ E] exI [of _ k] exI [of _ "rel E Ticks_lock k4"]) simp
qed

section \<open>Memory\<close>

text \<open>
  The documented results of the functions that change the size of an address space: growing
  gives the new size or fails with 0, shrinking gives the new size, or the old one if there is
  nothing to shrink.
\<close>

definition uvm_ok :: "'m ext \<Rightarrow> bool" where
  "uvm_ok E \<longleftrightarrow>
     (\<forall>pt old new perm m. old \<le> new \<longrightarrow> fst (uvmalloc E pt old new perm m) \<in> {0, new}) \<and>
     (\<forall>pt old new m. fst (uvmdealloc E pt old new m) = (if new < old then new else old))"

text \<open>The size \<open>growproc\<close> asks for, and when it is less than the old one.\<close>

lemma grown_size:
  fixes b :: u64
  assumes "\<bar>n\<bar> < 2 ^ 32" and "unat b < 2 ^ 63"
  shows "0 \<le> int (unat b) + n \<Longrightarrow> int (unat (b + word_of_int n)) = int (unat b) + n"
    and "b + word_of_int n < b \<longleftrightarrow> n < 0 \<and> 0 \<le> int (unat b) + n"
proof -
  define new where "new = b + word_of_int n"
  have "int (unat b) < int (2 ^ 63)" using assms(2) by (rule of_nat_less_iff [THEN iffD2])
  then have ou: "uint b < 2 ^ 63" "0 \<le> uint b" by simp_all
  have "uint new = (uint b + n) mod 2 ^ 64"
    unfolding new_def by (simp add: uint_word_ariths unsigned_of_int take_bit_eq_mod mod_add_right_eq)
  then have m: "int (unat new) = (int (unat b) + n) mod 2 ^ 64" by simp
  have up: "0 \<le> int (unat b) + n \<Longrightarrow> int (unat new) = int (unat b) + n"
    unfolding m using ou assms(1) by (intro mod_pos_pos_trivial) simp_all
  then show "0 \<le> int (unat b) + n \<Longrightarrow> int (unat (b + word_of_int n)) = int (unat b) + n"
    by (simp only: new_def)
  have "new < b \<longleftrightarrow> n < 0 \<and> 0 \<le> int (unat b) + n"
  proof (cases "0 \<le> int (unat b) + n")
    case True
    with up show ?thesis unfolding word_less_nat_alt by linarith
  next
    case False
    have "(int (unat b) + n + 2 ^ 64) mod 2 ^ 64 = int (unat b) + n + 2 ^ 64"
      using False assms(1) ou by (intro mod_pos_pos_trivial; simp; linarith)
    then have "int (unat new) = int (unat b) + n + 2 ^ 64" unfolding m by simp
    moreover have "- 4294967296 < n" using assms(1) by simp
    ultimately have "uint b \<le> uint new" by simp
    then show ?thesis using False by (simp add: word_less_def)
  qed
  then show "b + word_of_int n < b \<longleftrightarrow> n < 0 \<and> 0 \<le> int (unat b) + n" by (simp only: new_def)
qed

text \<open>\<open>growproc\<close> by the sign of its argument.\<close>

lemma growproc_cases:
  fixes E :: "'m ext" and n :: int
  assumes "myproc k = Some p"
  defines "b \<equiv> sz (procs (rb k) p)"
    and "up \<equiv> uvmalloc E (pagetable (procs (rb k) p)) (sz (procs (rb k) p))
      (sz (procs (rb k) p) + word_of_int n) (PTE_W E) (mach k)"
    and "down \<equiv> uvmdealloc E (pagetable (procs (rb k) p)) (sz (procs (rb k) p))
      (sz (procs (rb k) p) + word_of_int n) (mach k)"
  shows "0 < n \<Longrightarrow> fst up = 0 \<Longrightarrow> growproc E n k = ret (- 1, k\<lparr>mach := snd up\<rparr>)"
    and "0 < n \<Longrightarrow> fst up \<noteq> 0 \<Longrightarrow>
      growproc E n k = ret (0, put (sz_update (\<lambda>_. fst up)) p (k\<lparr>mach := snd up\<rparr>))"
    and "n < 0 \<Longrightarrow> growproc E n k = ret (0, put (sz_update (\<lambda>_. fst down)) p (k\<lparr>mach := snd down\<rparr>))"
    and "n = 0 \<Longrightarrow> growproc E n k = ret (0, put (sz_update (\<lambda>_. b)) p k)"
  by (simp_all add: growproc_def assms(1) mcall_eq Let_def b_def up_def down_def)

text \<open>
  C29. \<open>sbrk(n)\<close> returns the old size and the size becomes old + \<open>n\<close>, or it returns -1 and the
  size stays. A decrement below zero is no error: the 64-bit sum wraps around, nothing is
  freed and the call succeeds. Only the size of the calling process ever changes.
\<close>

theorem sys_sbrk_correct:
  assumes "uvm_ok E" and "myproc k = Some p" and "argint 0 k = ret n" and "\<bar>n\<bar> < 2 ^ 32"
    and "unat (sz (procs (rb k) p)) < 2 ^ 63"
  defines "old \<equiv> sz (procs (rb k) p)"
  shows "\<exists>r k'. sys_sbrk E k = ret (r, k') \<and>
    procs (rb k') = (procs (rb k))(p := (procs (rb k) p)\<lparr>sz := sz (procs (rb k') p)\<rparr>) \<and>
    (r = - 1 \<and> 0 < n \<and> sz (procs (rb k') p) = old \<or>
     r = old \<and> 0 \<le> int (unat old) + n \<and> int (unat (sz (procs (rb k') p))) = int (unat old) + n \<or>
     r = old \<and> int (unat old) + n < 0 \<and> sz (procs (rb k') p) = old)"
proof -
  note sizes = grown_size [OF assms(4,5), folded old_def]
  note grow = growproc_cases [OF assms(2), folded old_def]
  define new where "new = old + word_of_int n"
  have w: "sys_sbrk E k = kbind (growproc E n k) (\<lambda>(r, k). if r < 0 then ret (- 1, k) else ret (old, k))"
    using assms(2,3) unfolding old_def by (simp add: sys_sbrk_def)
  consider "0 < n" | "n < 0" | "n = 0" by linarith
  then show ?thesis
  proof cases
    case 1
    define up where "up = uvmalloc E (pagetable (procs (rb k) p)) old new (PTE_W E) (mach k)"
    have "old \<le> new" using sizes(2) 1 by (simp add: new_def not_less [symmetric])
    then have "fst up \<in> {0, new}" using assms(1) by (simp add: uvm_ok_def up_def)
    then consider "fst up = 0" | "fst up = new" "fst up \<noteq> 0" by auto
    then show ?thesis
    proof cases
      case a: 1
      then show ?thesis using 1 grow(1) [OF 1, of E] unfolding w
        by (intro exI [of _ "- 1"] exI [of _ "k\<lparr>mach := snd up\<rparr>"]) (simp add: up_def new_def old_def)
    next
      case b: 2
      then show ?thesis using 1 sizes(1) grow(2) [OF 1, of E] unfolding w
        by (intro exI [of _ old] exI [of _ "put (sz_update (\<lambda>_. fst up)) p (k\<lparr>mach := snd up\<rparr>)"])
          (simp add: up_def new_def)
    qed
  next
    case 2
    define down where "down = uvmdealloc E (pagetable (procs (rb k) p)) old new (mach k)"
    have "fst down = (if new < old then new else old)" using assms(1) by (simp add: uvm_ok_def down_def)
    then show ?thesis using 2 sizes grow(3) [OF 2, of E] unfolding w
      by (intro exI [of _ old] exI [of _ "put (sz_update (\<lambda>_. fst down)) p (k\<lparr>mach := snd down\<rparr>)"])
        (auto simp: down_def new_def)
  next
    case 3
    then show ?thesis using grow(4) [OF 3, of E] unfolding w
      by (intro exI [of _ old] exI [of _ "put (sz_update (\<lambda>_. old)) p k"]) simp
  qed
qed

theorem sys_sbrk_correct_witness:
  "\<exists>k k'. sz (procs (rb k) 1) = 4096 \<and> sys_sbrk sample_env k = ret (4096, k') \<and>
    sz (procs (rb k') 1) = 4103"
proof -
  define k where "k = put (sz_update (\<lambda>_. 4096)) 1 sample_kernel"
  have E: "uvm_ok sample_env" by (simp add: uvm_ok_def sample_ext_def)
  have arg: "argint 0 k = ret 7"
    by (simp add: argint_def argraw_def Let_def tf_get_def k_def sample_procs_def)
       (simp add: sample_at_def sample_tf_def)
  have z: "sz (procs (rb k) 1) = 4096" "myproc k = Some 1" by (simp_all add: k_def)
  have "sys_sbrk sample_env k = ret (4096, put (sz_update (\<lambda>_. 4103)) 1 k)"
    using arg z by (simp add: sys_sbrk_def growproc_def mcall_eq sample_ext_def)
  then show ?thesis
    using sys_sbrk_correct [OF E z(2) arg] z
    by (intro exI [of _ k] exI [of _ "put (sz_update (\<lambda>_. 4103)) 1 k"]) auto
qed

end
