(* ===== verification/Syscall_Contract.thy ===== *)
theory Syscall_Contract
  imports Syscall_Properties
begin

text \<open>
  What the system calls that return without giving up the CPU promise the dispatcher, as a
  locale: from a state in which a process may make a system call the handler returns, in such a
  state again, and it gives no process another nice value than 0. The locale is interpreted on \<open>fork\<close>, \<open>kill\<close>, \<open>getpid\<close>, \<open>sbrk\<close>, \<open>uptime\<close> and
  \<open>setnice\<close>; a process that makes any sequence of these calls keeps the process table intact.
\<close>

section \<open>The state in which a process makes a system call\<close>

text \<open>
  Process \<open>p\<close> runs on this hart without a lock, the process table is well formed, and \<open>p\<close> has a
  trap frame. Nothing is assumed about the pages that \<open>kalloc\<close> hands out.
\<close>

definition may_call :: "'m ext \<Rightarrow> nat \<Rightarrow> 'm kernel \<Rightarrow> bool" where
  "may_call E p k \<longleftrightarrow> spin_ok E \<and> filedup_ok E \<and> in_kernel E p k \<and> (\<exists>q. table_ok E k q) \<and>
     proc.trapframe (procs (rb k) p) \<noteq> 0"

text \<open>Every nice value is what it was, or 0.\<close>

definition nices_kept :: "'m kernel \<Rightarrow> 'm kernel \<Rightarrow> bool" where
  "nices_kept k k' \<longleftrightarrow> (\<forall>i. niceVal (procs (rb k') i) \<in> {0, niceVal (procs (rb k) i)})"

lemma nices_kept_same [intro]: "rb k' = rb k \<Longrightarrow> nices_kept k k'"
  by (simp add: nices_kept_def)

lemma nices_kept_trans [trans]: "nices_kept k k' \<Longrightarrow> nices_kept k' k'' \<Longrightarrow> nices_kept k k''"
  by (simp add: nices_kept_def) metis

lemma may_callI:
  assumes "may_call E p k" and "mem_stable k k'" and "table_ok E k' q"
    and "state (procs (rb k') p) = RUNNING"
    and "proc.trapframe (procs (rb k') p) = proc.trapframe (procs (rb k) p)"
  shows "may_call E p k'"
  using assms mem_stable_views [OF assms(2)] by (auto simp: may_call_def in_kernel_def)

lemma may_callD:
  assumes "may_call E p k"
  obtains q where "spin_ok E" "filedup_ok E" "in_kernel E p k" "table_ok E k q" "p \<notin> set q" "proc_free k"
    "p < NPROC E" "state (procs (rb k) p) = RUNNING" "proc.trapframe (procs (rb k) p) \<noteq> 0"
    "Ticks_lock \<notin> set (locks k)"
  using assms in_kernel_unqueued [of E p k] unfolding may_call_def in_kernel_def proc_free_def by auto

lemma may_call_same:
  assumes "may_call E p k" and "mem_stable k k'" and "rb k' = rb k"
  shows "may_call E p k'"
proof -
  obtain q where "table_ok E k q" "state (procs (rb k) p) = RUNNING" using may_callD [OF assms(1)] by metis
  then show ?thesis
    using assms(3) table_ok_rb [OF assms(3)] by (intro may_callI [OF assms(1,2)]) auto
qed

lemma may_call_frame:
  assumes "may_call E p k"
  shows "may_call E p (k\<lparr>tframes := f\<rparr>)"
  using assms by (simp add: may_call_def in_kernel_def table_ok_def)

lemma may_call_me: "may_call E p k \<Longrightarrow> myproc k = Some p"
  by (simp add: may_call_def in_kernel_def)

lemma may_call_argint:
  assumes "may_call E p k"
  obtains n where "argint 0 k = ret n"
  using assms may_call_me [OF assms]
  by (auto simp: argint_def argraw_def Let_def tf_get_def may_call_def)

section \<open>The contract\<close>

locale syscall_handler =
  fixes num :: nat
    and handler :: "'m ext \<Rightarrow> 'm kernel \<Rightarrow> (u64 \<times> 'm kernel) kres"
  assumes entry: "num < 23" "0 < num" "syscalls E F ! num = Some (handler E)"
    and keeps: "may_call E p k \<Longrightarrow> \<exists>r k'. handler E k = ret (r, k') \<and> may_call E p k' \<and> nices_kept k k'"
begin

text \<open>The dispatcher runs the handler and stores its result where the caller finds it.\<close>

lemma dispatched:
  fixes E :: "'m ext"
  assumes k: "may_call E p k"
    and n: "sint (ucast (tf_a7 (tframes k (proc.trapframe (procs (rb k) p)))) :: u32) = int num"
  shows "\<exists>r k1 k'. handler E k = ret (r, k1) \<and> syscall E F k = ret k' \<and> rb k' = rb k1 \<and>
    may_call E p k' \<and> nices_kept k k' \<and> tf_a0 (tframes k' (proc.trapframe (procs (rb k') p))) = r"
proof -
  obtain r k1 where k1: "handler E k = ret (r, k1)" "may_call E p k1" "nices_kept k k1" using keeps [OF k] by blast
  have "proc.trapframe (procs (rb k) p) \<noteq> 0" "proc.trapframe (procs (rb k1) p) \<noteq> 0"
    using k k1(2) by (simp_all add: may_call_def)
  then have "syscall E F k = ret (k1\<lparr>tframes := (tframes k1)
      (proc.trapframe (procs (rb k1) p) := (tframes k1 (proc.trapframe (procs (rb k1) p)))\<lparr>tf_a0 := r\<rparr>)\<rparr>)"
    using syscall_dispatch [OF may_call_me [OF k] refl, of E F] entry(1,2) entry(3) [of E F]
      k1(1) may_call_me [OF k1(2)] n
    by (auto simp: tf_set_def)
  with k1(1,3) may_call_frame [OF k1(2)] show ?thesis by (fastforce simp: nices_kept_def)
qed

end

section \<open>The handlers that keep it\<close>

lemma sys_fork_keeps:
  assumes k: "may_call E p k"
  shows "\<exists>r k'. sys_fork E k = ret (r, k') \<and> may_call E p k' \<and> nices_kept k k'"
proof -
  obtain q where q: "spin_ok E" "filedup_ok E" "in_kernel E p k" "table_ok E k q" "p \<notin> set q"
    "state (procs (rb k) p) = RUNNING" "proc.trapframe (procs (rb k) p) \<noteq> 0"
    using may_callD [OF k] by metis
  from fork_ok [OF q(1-4,7)] obtain r k' where k': "fork E k = ret (r, k')" "mem_stable k k'" and
    "(r = - 1 \<and> table_ok E k' q \<and> same_used k k') \<or>
     (\<exists>c page pt dir q'. c \<noteq> p \<and> table_ok E k' q' \<and>
        tree_frame (insert c (set q)) (rb (put (child_of E p (procs (rb k) p) page pt r dir) c k)) (rb k'))"
    by blast
  then have "(\<exists>q'. table_ok E k' q' \<and> procs (rb k') p = procs (rb k) p) \<and> nices_kept k k'"
  proof (elim disjE exE conjE)
    assume "table_ok E k' q" "same_used k k'"
    then show ?thesis using same_usedD [of k k'] q(6) unfolding nices_kept_def by auto
  next
    fix c page pt dir q' assume c: "c \<noteq> p" "table_ok E k' q'"
      "tree_frame (insert c (set q)) (rb (put (child_of E p (procs (rb k) p) page pt r dir) c k)) (rb k')"
    have "nices_kept k k'"
      unfolding nices_kept_def using redata_fields(17) [OF tree_frame_fields(1) [OF c(3)]]
      by (simp add: child_of_def copied_def fresh_def)
    then show ?thesis using c q(5) unfolding tree_frame_def by force
  qed
  then have "may_call E p k'" "nices_kept k k'" using may_callI [OF k k'(2)] q(6) by auto
  then show ?thesis using k'(1) by (simp add: sys_fork_def)
qed

lemma sys_kill_keeps:
  assumes k: "may_call E p k"
  shows "\<exists>r k'. sys_kill E k = ret (r, k') \<and> may_call E p k' \<and> nices_kept k k'"
proof -
  obtain q where q: "spin_ok E" "proc_free k" "table_ok E k q" "state (procs (rb k) p) = RUNNING"
    using may_callD [OF k] by metis
  obtain n where n: "argint 0 k = ret n" using may_call_argint [OF k] by blast
  have "\<exists>r k'. kill E n k = ret (r, k') \<and> may_call E p k' \<and> nices_kept k k'"
  proof (cases "victim E k n")
    case None
    then obtain k' where k': "kill E n k = ret (-1, k')" "stable k k'" "rb k' = rb k"
      using kill_ok [OF q(1-3), of n] by auto
    then show ?thesis using may_call_same [OF k stable_mem] nices_kept_same by blast
  next
    case (Some i)
    define A where "A = (if state (procs (rb k) i) = SLEEPING then {i} else {})"
    obtain k' q' where k': "kill E n k = ret (0, k')" "stable k k'" "table_ok E k' q'"
      "wakes A (put (killed_update (\<lambda>_. 1)) i k) k'"
      using kill_ok [OF q(1-3), of n] Some by (auto simp: A_def)
    have "p \<notin> A" using q(4) by (auto simp: A_def)
    then have "redata (procs (rb (put (killed_update (\<lambda>_. 1)) i k)) p) (procs (rb k') p)"
      using k'(4) unfolding wakes_def by (auto dest: spec [of _ p])
    then have "may_call E p k'"
      using may_callI [OF k stable_mem [OF k'(2)] k'(3)] redata_fields(1,10) q(4) by (fastforce split: if_splits)
    moreover have "nices_kept k k'"
      unfolding nices_kept_def using k'(4) redata_fields(17) unfolding wakes_def
      by (fastforce split: if_splits simp: make_runnable_def)
    ultimately show ?thesis using k'(1) by blast
  qed
  then show ?thesis using n by (auto simp: sys_kill_def)
qed

lemma sys_getpid_keeps: "may_call E p k \<Longrightarrow> \<exists>r k'. sys_getpid k = ret (r, k') \<and> may_call E p k' \<and> nices_kept k k'"
  using may_call_me [of E p k] by (auto simp: sys_getpid_def)

lemma sys_setnice_keeps: "may_call E p k \<Longrightarrow> \<exists>r k'. sys_setnice k = ret (r, k') \<and> may_call E p k' \<and> nices_kept k k'"
  by (auto simp: sys_setnice_def)

lemma sys_uptime_keeps:
  assumes k: "may_call E p k"
  shows "\<exists>r k'. sys_uptime E k = ret (r, k') \<and> may_call E p k' \<and> nices_kept k k'"
proof -
  have q: "spin_ok E" "Ticks_lock \<notin> set (locks k)" using may_callD [OF k] by metis+
  note s = stable_section [OF q stable_refl]
  have "may_call E p (rel E Ticks_lock (acq E Ticks_lock k))"
    by (rule may_call_same [OF k stable_mem [OF s(2)]]) simp
  then show ?thesis using acquire_ok(1) [OF q] s(1) by (simp add: sys_uptime_def Let_def nices_kept_def)
qed

lemma sys_sbrk_keeps:
  assumes k: "may_call E p k"
  shows "\<exists>r k'. sys_sbrk E k = ret (r, k') \<and> may_call E p k' \<and> nices_kept k k'"
proof -
  obtain q where q: "table_ok E k q" "p \<notin> set q" "state (procs (rb k) p) = RUNNING"
    using may_callD [OF k] by metis
  obtain n where n: "argint 0 k = ret n" using may_call_argint [OF k] by blast
  have grown: "may_call E p (put (sz_update f) p (k\<lparr>mach := m\<rparr>)) \<and>
      nices_kept k (put (sz_update f) p (k\<lparr>mach := m\<rparr>))" for f m
  proof
  show "may_call E p (put (sz_update f) p (k\<lparr>mach := m\<rparr>))"
  proof (rule may_callI [OF k])
    have "table_ok E (k\<lparr>mach := m\<rparr>) q" using q(1) by (simp add: table_ok_def)
    then show "table_ok E (put (sz_update f) p (k\<lparr>mach := m\<rparr>)) q"
      by (rule table_ok_put [OF _ q(2)]) (use table_ok_queue(6) [OF q(1) _ q(2)] in \<open>simp add: insertable_def\<close>)
  qed (use q(3) in \<open>simp_all add: mem_stable_def mycpu_def cpuid_def locks_def\<close>)
  qed (simp add: nices_kept_def)
  have same: "may_call E p (k\<lparr>mach := m\<rparr>) \<and> nices_kept k (k\<lparr>mach := m\<rparr>)" for m
    using may_call_same [OF k] by auto
  have "\<exists>r k'. growproc E n k = ret (r, k') \<and> may_call E p k' \<and> nices_kept k k'"
    using growproc_cases [OF may_call_me [OF k], of n E] grown [of _ "mach k"] grown same
    by (cases n "0 :: int" rule: linorder_cases) (metis, simp, metis)
  then show ?thesis using n may_call_me [OF k] by (auto simp: sys_sbrk_def)
qed

section \<open>The code meets the contract\<close>

interpretation fork_call: syscall_handler 1 sys_fork
  by unfold_locales (simp_all add: syscalls_def sys_fork_keeps)

interpretation kill_call: syscall_handler 6 sys_kill
  by unfold_locales (simp_all add: syscalls_def sys_kill_keeps)

interpretation getpid_call: syscall_handler 11 "\<lambda>_. sys_getpid"
  by unfold_locales (simp_all add: syscalls_def sys_getpid_keeps)

interpretation sbrk_call: syscall_handler 12 sys_sbrk
  by unfold_locales (simp_all add: syscalls_def sys_sbrk_keeps)

interpretation uptime_call: syscall_handler 14 sys_uptime
  by unfold_locales (simp_all add: syscalls_def sys_uptime_keeps)

interpretation setnice_call: syscall_handler 22 "\<lambda>_. sys_setnice"
  by unfold_locales (simp_all add: syscalls_def sys_setnice_keeps)

section \<open>Sequences of calls\<close>

text \<open>
  A process that makes system calls: before each it leaves some registers of its choice in its
  trap frame, the number of the call in \<open>a7\<close> among them.
\<close>

primrec make_calls :: "'m ext \<Rightarrow> 'm files \<Rightarrow> nat \<Rightarrow> trapframe list \<Rightarrow> 'm kernel \<Rightarrow> 'm kernel kres" where
  "make_calls E F p [] k = ret k"
| "make_calls E F p (t # ts) k =
     kbind (syscall E F (k\<lparr>tframes := (tframes k)(proc.trapframe (procs (rb k) p) := t)\<rparr>))
       (make_calls E F p ts)"

definition call_number :: "trapframe \<Rightarrow> int" where
  "call_number t = sint (ucast (tf_a7 t) :: u32)"

lemma unknown_call:
  assumes k: "may_call E p k"
    and "\<not> (1 \<le> sint (ucast (tf_a7 (tframes k (proc.trapframe (procs (rb k) p)))) :: u32) \<and>
      sint (ucast (tf_a7 (tframes k (proc.trapframe (procs (rb k) p)))) :: u32) \<le> 22)"
  shows "\<exists>m f. syscall E F k = ret (k\<lparr>mach := m, tframes := f\<rparr>)"
proof -
  define num where "num = sint (ucast (tf_a7 (tframes k (proc.trapframe (procs (rb k) p)))) :: u32)"
  have "\<not> (num > 0 \<and> num < int (length (syscalls E F)))"
    using assms(2) by (auto simp: syscalls_def num_def)
  then show ?thesis
    using k may_call_me [OF k]
    by (auto simp: syscall_def Let_def tf_get_def tf_set_def mdo_def num_def may_call_def intro: exI)
qed

lemma call_keeps:
  assumes k: "may_call E p k"
    and t: "call_number t \<in> {1, 6, 11, 12, 14, 22} \<or> call_number t < 1 \<or> 22 < call_number t"
  shows "\<exists>k'. syscall E F (k\<lparr>tframes := (tframes k)(proc.trapframe (procs (rb k) p) := t)\<rparr>) = ret k' \<and>
    may_call E p k' \<and> nices_kept k k'"
proof -
  define k0 where "k0 = k\<lparr>tframes := (tframes k)(proc.trapframe (procs (rb k) p) := t)\<rparr>"
  have k0: "may_call E p k0" unfolding k0_def by (rule may_call_frame [OF k])
  have n: "sint (ucast (tf_a7 (tframes k0 (proc.trapframe (procs (rb k0) p)))) :: u32) = call_number t"
    by (simp add: k0_def call_number_def)
  note calls = fork_call.dispatched kill_call.dispatched getpid_call.dispatched sbrk_call.dispatched
    uptime_call.dispatched setnice_call.dispatched
  have "\<exists>k'. syscall E F k0 = ret k' \<and> may_call E p k' \<and> nices_kept k0 k'"
  proof (cases "1 \<le> call_number t \<and> call_number t \<le> 22")
    case True
    then have "call_number t \<in> {1, 6, 11, 12, 14, 22}" using t by linarith
    then show ?thesis using calls [OF k0, of F] unfolding n by auto
  next
    case False
    then obtain m f where "syscall E F k0 = ret (k0\<lparr>mach := m, tframes := f\<rparr>)"
      using unknown_call [OF k0, of F] unfolding n by blast
    moreover have "may_call E p (k0\<lparr>mach := m, tframes := f\<rparr>)"
      by (rule may_call_same [OF k0]) (simp_all add: mem_stable_def mycpu_def cpuid_def locks_def)
    ultimately show ?thesis by auto
  qed
  then show ?thesis by (simp add: k0_def nices_kept_def)
qed

lemma calls_keep:
  assumes "may_call E p k"
    and "\<forall>t \<in> set ts. call_number t \<in> {1, 6, 11, 12, 14, 22} \<or> call_number t < 1 \<or> 22 < call_number t"
  shows "\<exists>k'. make_calls E F p ts k = ret k' \<and> may_call E p k' \<and> nices_kept k k'"
  using assms
proof (induction ts arbitrary: k)
  case Nil
  then show ?case by auto
next
  case (Cons t ts)
  obtain k1 where k1: "syscall E F (k\<lparr>tframes := (tframes k)(proc.trapframe (procs (rb k) p) := t)\<rparr>) = ret k1"
    "may_call E p k1" "nices_kept k k1"
    using call_keeps [of E p k t F] Cons.prems by auto
  obtain k' where "make_calls E F p ts k1 = ret k'" "may_call E p k'" "nices_kept k1 k'"
    using Cons.IH [OF k1(2)] Cons.prems(2) by auto
  then show ?case using k1 nices_kept_trans [of k k1 k'] by simp
qed

text \<open>
  C26. A process may make any sequence of the system calls \<open>fork\<close>, \<open>kill\<close>, \<open>getpid\<close>, \<open>sbrk\<close>,
  \<open>uptime\<close> and \<open>setnice\<close>, with any arguments, and of calls with unknown numbers: each returns to
  it, on the same hart, with no lock held, and the process table stays well formed (a red-black
  tree of runnable processes, links and nice values of all others clear).
\<close>

theorem syscalls_keep_table:
  assumes "may_call E p k"
    and "\<forall>t \<in> set ts. call_number t \<in> {1, 6, 11, 12, 14, 22} \<or> call_number t < 1 \<or> 22 < call_number t"
  shows "\<exists>k'. make_calls E F p ts k = ret k' \<and> may_call E p k'"
  using calls_keep [OF assms] by blast

theorem syscalls_keep_table_witness:
  "\<exists>k'. make_calls sample_env sample_files 1
      (map (\<lambda>n. sample_tf\<lparr>tf_a7 := n\<rparr>) [1, 1, 6, 11, 12, 14, 22, 99]) sample_kernel = ret k' \<and>
    may_call sample_env 1 k'"
proof (rule syscalls_keep_table)
  show "may_call sample_env 1 sample_kernel"
    using sample_spin sample_filedup sample_running sample_table
    by (auto simp: may_call_def sample_procs_def)
  show "\<forall>t \<in> set (map (\<lambda>n. sample_tf\<lparr>tf_a7 := n\<rparr>) [1, 1, 6, 11, 12, 14, 22, 99]).
      call_number t \<in> {1, 6, 11, 12, 14, 22} \<or> call_number t < 1 \<or> 22 < call_number t"
    by (simp add: call_number_def)
qed

text \<open>
  C30. Nice values cannot be set: whatever sequence of the calls \<open>fork\<close>, \<open>kill\<close>, \<open>getpid\<close>, \<open>sbrk\<close>,
  \<open>uptime\<close>, \<open>setnice\<close> and of calls with numbers outside the table a process makes, every nice
  value is afterwards what it was or 0. So none of these numbers leads to \<open>sys_setNice\<close>, which
  called directly does store any value from 0 to 39 and refuses every other.
\<close>

theorem nice_never_set:
  assumes "may_call E p k"
    and "\<forall>t \<in> set ts. call_number t \<in> {1, 6, 11, 12, 14, 22} \<or> call_number t < 1 \<or> 22 < call_number t"
  shows "\<exists>k'. make_calls E F p ts k = ret k' \<and>
    (\<forall>i. niceVal (procs (rb k') i) \<in> {0, niceVal (procs (rb k) i)}) \<and>
    (\<exists>n. argint 0 k = ret n \<and> (if 0 \<le> n \<and> n \<le> 39
       then \<exists>k1. sys_setNice k = ret (0, k1) \<and> niceVal (procs (rb k1) p) = n
       else sys_setNice k = ret (- 1, k)))"
proof -
  obtain k' where "make_calls E F p ts k = ret k'" "nices_kept k k'" using calls_keep [OF assms] by blast
  moreover obtain n where n: "argint 0 k = ret n" using may_call_argint [OF assms(1)] by blast
  moreover have "sys_setNice k =
      (if 0 \<le> n \<and> n \<le> 39 then ret (0, put (niceVal_update (\<lambda>_. n)) p k) else ret (- 1, k))"
    using n may_call_me [OF assms(1)] by (simp add: sys_setNice_def)
  ultimately show ?thesis by (auto simp: nices_kept_def)
qed

theorem nice_never_set_witness:
  "(\<exists>k'. make_calls sample_env sample_files 1
      (map (\<lambda>n. sample_tf\<lparr>tf_a7 := n\<rparr>) [22, 23, 1, 22, 99]) sample_kernel = ret k' \<and>
    niceVal (procs (rb k') 1) = 0) \<and>
   (\<exists>k1. sys_setNice sample_kernel = ret (0, k1) \<and> niceVal (procs (rb k1) 1) = 7)"
proof -
  have m: "may_call sample_env 1 sample_kernel"
    using sample_spin sample_filedup sample_running sample_table
    by (auto simp: may_call_def sample_procs_def)
  have arg: "argint 0 sample_kernel = ret 7"
    by (simp add: argint_def argraw_def Let_def tf_get_def sample_procs_def)
       (simp add: sample_at_def sample_tf_def)
  have "\<forall>t \<in> set (map (\<lambda>n. sample_tf\<lparr>tf_a7 := n\<rparr>) [22, 23, 1, 22, 99]).
      call_number t \<in> {1, 6, 11, 12, 14, 22} \<or> call_number t < 1 \<or> 22 < call_number t"
    by (simp add: call_number_def)
  moreover have "niceVal (procs (rb sample_kernel) 1) = 0" by (simp add: sample_procs_def blank_proc_def)
  ultimately obtain k' where
    "make_calls sample_env sample_files 1 (map (\<lambda>n. sample_tf\<lparr>tf_a7 := n\<rparr>) [22, 23, 1, 22, 99]) sample_kernel = ret k'"
    "niceVal (procs (rb k') 1) \<in> {0, 0}"
    "\<exists>n. argint 0 sample_kernel = ret n \<and> (if 0 \<le> n \<and> n \<le> 39
       then \<exists>k1. sys_setNice sample_kernel = ret (0, k1) \<and> niceVal (procs (rb k1) 1) = n
       else sys_setNice sample_kernel = ret (- 1, sample_kernel))"
    using nice_never_set [OF m, of _ sample_files] by metis
  then show ?thesis using arg by auto
qed

end
