(* ===== verification/Trap.thy ===== *)
theory Trap
  imports Syscalls
begin

text \<open>
  Traps: \<open>trap.c\<close>, and \<open>forkret\<close> of \<open>proc.c\<close>, which returns to user space through it. Control
  and status registers, the interrupt controller, the device drivers and the trampoline are
  not part of the repository; they are the fields of the record \<open>hw\<close>.
\<close>

unbundle bit_operations_syntax

datatype csr = Sstatus | Scause | Sepc | Stval | Stvec | Satp | Stimecmp | Time

record 'm hw =
  r_csr :: "csr \<Rightarrow> 'm \<Rightarrow> u64"
  w_csr :: "csr \<Rightarrow> u64 \<Rightarrow> 'm \<Rightarrow> 'm"
  SSTATUS_SPP :: u64
  SSTATUS_SPIE :: u64
  MAKE_SATP :: "u64 \<Rightarrow> u64"
  kernelvec :: u64
  uservec :: u64
  userret :: u64
  usertrap_addr :: u64
  UART0_IRQ :: int
  VIRTIO0_IRQ :: int
  plic_claim :: "'m \<Rightarrow> int \<times> 'm"
  plic_complete :: "int \<Rightarrow> 'm \<Rightarrow> 'm"
  uartintr :: "'m kernel \<Rightarrow> 'm kernel kres"
  virtio_disk_intr :: "'m kernel \<Rightarrow> 'm kernel kres"
  jump :: "u64 \<Rightarrow> u64 \<Rightarrow> 'm kernel \<Rightarrow> 'm kernel kres"

definition csr_get :: "'m hw \<Rightarrow> csr \<Rightarrow> 'm kernel \<Rightarrow> u64" where
  "csr_get H c k = r_csr H c (mach k)"

definition csr_set :: "'m hw \<Rightarrow> csr \<Rightarrow> u64 \<Rightarrow> 'm kernel \<Rightarrow> 'm kernel" where
  "csr_set H c x k = mdo (w_csr H c x) k"

definition trapinithart :: "'m hw \<Rightarrow> 'm kernel \<Rightarrow> 'm kernel" where
  "trapinithart H k = csr_set H Stvec (kernelvec H) k"

section \<open>Interrupts\<close>

definition clockintr :: "'m ext \<Rightarrow> 'm hw \<Rightarrow> 'm kernel \<Rightarrow> 'm kernel kres" where
  "clockintr E H k =
     kbind (if cpuid k = 0 then
         kbind (acquire E Ticks_lock k) (\<lambda>k.
         kbind (wakeup E (Some Ch_ticks) (k\<lparr>ticks := ticks k + 1\<rparr>)) (release E Ticks_lock))
       else ret k) (\<lambda>k.
     ret (csr_set H Stimecmp (csr_get H Time k + 1000000) k))"

definition devintr :: "'m ext \<Rightarrow> 'm hw \<Rightarrow> 'm kernel \<Rightarrow> (int \<times> 'm kernel) kres" where
  "devintr E H k =
     (let scause = csr_get H Scause k in
      if scause = 0x8000000000000009 then
        let (irq, k) = mcall (plic_claim H) k in
        kbind (if irq = UART0_IRQ H then uartintr H k
               else if irq = VIRTIO0_IRQ H then virtio_disk_intr H k
               else if irq \<noteq> 0 then
                 ret (mdo (printf E (''unexpected interrupt irq=%d'' @ [CHR 0x0A]) [Arg_int irq]) k)
               else ret k) (\<lambda>k.
        ret (1, if irq \<noteq> 0 then mdo (plic_complete H irq) k else k))
      else if scause = 0x8000000000000005 then kbind (clockintr E H k) (\<lambda>k. ret (2, k))
      else ret (0, k))"

section \<open>Returning to user space\<close>

definition usertrapret :: "'m ext \<Rightarrow> 'm hw \<Rightarrow> 'm kernel \<Rightarrow> 'm kernel kres" where
  "usertrapret E H k =
     (let p = myproc k in
      kbind (intr_off E k) (\<lambda>k.
      let k = csr_set H Stvec (TRAMPOLINE E + (uservec H - trampoline E)) k in
      kbind (tf_set (kernel_satp_update (\<lambda>_. csr_get H Satp k)) p k) (\<lambda>k.
      kbind (pget kstack p k) (\<lambda>ks.
      kbind (tf_set (kernel_sp_update (\<lambda>_. ks + PGSIZE E)) p k) (\<lambda>k.
      kbind (tf_set (kernel_trap_update (\<lambda>_. usertrap_addr H)) p k) (\<lambda>k.
      kbind (tf_set (kernel_hartid_update (\<lambda>_. of_nat (hart k))) p k) (\<lambda>k.
      let x = csr_get H Sstatus k;
          x = x AND NOT (SSTATUS_SPP H);
          x = x OR SSTATUS_SPIE H;
          k = csr_set H Sstatus x k in
      kbind (tf_get epc p k) (\<lambda>pc.
      let k = csr_set H Sepc pc k in
      kbind (pget pagetable p k) (\<lambda>pt.
      jump H (TRAMPOLINE E + (userret H - trampoline E)) (MAKE_SATP H pt) k)))))))))"

definition forkret :: "'m ext \<Rightarrow> 'm hw \<Rightarrow> 'm kernel \<Rightarrow> 'm kernel kres" where
  "forkret E H k =
     kbind (release_p E (myproc k) k) (\<lambda>k.
     kbind (if first k then kbind (fsinit E k) (\<lambda>k. ret (k\<lparr>first := False\<rparr>)) else ret k)
       (usertrapret E H))"

section \<open>Traps from user space\<close>

text \<open>
  The end of \<open>usertrap\<close> that every cause reaches: a killed process exits, a running one is
  charged a unit of run time and yields, and a timer interrupt yields once more.
\<close>

definition usertrap_tail :: "'m ext \<Rightarrow> ptr \<Rightarrow> int \<Rightarrow> 'm kernel \<Rightarrow> 'm kernel kres" where
  "usertrap_tail E p which_dev k =
     kbind (is_killed E p k) (\<lambda>(d, k).
     kbind (if d \<noteq> 0 then exit E (- 1) k else ret k) (\<lambda>k.
     kbind (if p = None then ret k
            else kbind (pget state p k) (\<lambda>st.
              if st = RUNNING then
                kbind (pset (currentRuntime_update (\<lambda>n. i32 (n + 1))) p k) (yield E)
              else ret k)) (\<lambda>k.
     if which_dev = 2 then yield E k else ret k)))"

definition unexpected_trap :: "'m ext \<Rightarrow> 'm hw \<Rightarrow> int \<Rightarrow> 'm kernel \<Rightarrow> 'm kernel" where
  "unexpected_trap E H n k =
     (let k = mdo (printf E (''usertrap(): unexpected scause 0x%lx pid=%d'' @ [CHR 0x0A])
            [Arg_int (uint (csr_get H Scause k)), Arg_int n]) k in
      mdo (printf E (''            sepc=0x%lx stval=0x%lx'' @ [CHR 0x0A])
            [Arg_int (uint (csr_get H Sepc k)), Arg_int (uint (csr_get H Stval k))]) k)"

text \<open>
  \<open>usertrap\<close> up to the call of \<open>usertrapret\<close>. The saved program counter is read from \<open>sepc\<close>
  before interrupts can be enabled.
\<close>

definition usertrap_body :: "'m ext \<Rightarrow> 'm files \<Rightarrow> 'm hw \<Rightarrow> 'm kernel \<Rightarrow> 'm kernel kres" where
  "usertrap_body E F H k =
     (if csr_get H Sstatus k AND SSTATUS_SPP H \<noteq> 0 then err (Panic ''usertrap: not from user mode'')
      else
        let k = csr_set H Stvec (kernelvec H) k;
            p = myproc k in
        kbind (tf_set (epc_update (\<lambda>_. csr_get H Sepc k)) p k) (\<lambda>k.
        kbind (if csr_get H Scause k = 8 then
            kbind (is_killed E p k) (\<lambda>(d, k).
            kbind (if d \<noteq> 0 then exit E (- 1) k else ret k) (\<lambda>k.
            kbind (tf_set (epc_update (\<lambda>pc. pc + 4)) p k) (\<lambda>k.
            kbind (intr_on E k) (\<lambda>k.
            kbind (syscall E F k) (\<lambda>k. ret (0, k))))))
          else
            kbind (devintr E H k) (\<lambda>(which_dev, k).
            if which_dev \<noteq> 0 then ret (which_dev, k)
            else
              kbind (pget pid p k) (\<lambda>n.
              kbind (setkilled E p (unexpected_trap E H n k)) (\<lambda>k. ret (0 :: int, k))))) (\<lambda>(which_dev, k).
        usertrap_tail E p which_dev k)))"

definition usertrap :: "'m ext \<Rightarrow> 'm files \<Rightarrow> 'm hw \<Rightarrow> 'm kernel \<Rightarrow> 'm kernel kres" where
  "usertrap E F H k = kbind (usertrap_body E F H k) (usertrapret E H)"

section \<open>Traps from the kernel\<close>

definition kerneltrap :: "'m ext \<Rightarrow> 'm hw \<Rightarrow> 'm kernel \<Rightarrow> 'm kernel kres" where
  "kerneltrap E H k =
     (let sepc = csr_get H Sepc k;
          sstatus = csr_get H Sstatus k;
          scause = csr_get H Scause k in
      if sstatus AND SSTATUS_SPP H = 0 then err (Panic ''kerneltrap: not from supervisor mode'')
      else if intr_get E k then err (Panic ''kerneltrap: interrupts enabled'')
      else
        kbind (devintr E H k) (\<lambda>(which_dev, k).
        if which_dev = 0 then
          (let k = mdo (printf E (''scause=0x%lx sepc=0x%lx stval=0x%lx'' @ [CHR 0x0A])
             [Arg_int (uint scause), Arg_int (uint (csr_get H Sepc k)), Arg_int (uint (csr_get H Stval k))]) k
           in err (Panic ''kerneltrap''))
        else
          kbind (if which_dev = 2 \<and> myproc k \<noteq> None then yield E k else ret k) (\<lambda>k.
          ret (csr_set H Sstatus sstatus (csr_set H Sepc sepc k)))))"

end
