(* ===== verification/Trap_Properties.thy ===== *)
theory Trap_Properties
  imports Trap Samples
begin

text \<open>
  The properties of the trap layer: the clock interrupt, the way back to user space, traps taken
  in the kernel, and what a trap from user space costs the process that takes it.
\<close>

section \<open>The clock\<close>

lemma acq_ticks: "acq E l (k\<lparr>ticks := t\<rparr>) = (acq E l k)\<lparr>ticks := t\<rparr>"
proof (cases "acquire_cpu E l (calls k) (mycpu k)")
  case None
  then show ?thesis by (simp add: acq_def acquire_def)
next
  case (Some r)
  then show ?thesis
    by (cases r) (simp_all add: acq_def acquire_def kbind_def ret_def set_mycpu_def mycpu_def cpuid_def)
qed

text \<open>The part of the clock interrupt that hart 0 does.\<close>

lemma clock_tick:
  assumes E: "spin_ok E" and f: "proc_free k" and l: "Ticks_lock \<notin> set (locks k)"
    and t: "table_ok E k q"
  shows "\<exists>k' q'. kbind (acquire E Ticks_lock k) (\<lambda>k.
        kbind (wakeup E (Some Ch_ticks) (k\<lparr>ticks := ticks k + 1\<rparr>)) (release E Ticks_lock)) = ret k' \<and>
      stable (k\<lparr>ticks := ticks k + 1\<rparr>) k' \<and>
      wakes ({..<NPROC E} \<inter> sleeping_on k (Some Ch_ticks)) k k' \<and> table_ok E k' q' \<and>
      set q' = set q \<union> ({..<NPROC E} \<inter> sleeping_on k (Some Ch_ticks))"
proof -
  define k0 where "k0 = k\<lparr>ticks := ticks k + 1\<rparr>"
  have l0: "Ticks_lock \<notin> set (locks k0)" using l by (simp add: k0_def)
  define k1 where "k1 = (acq E Ticks_lock k)\<lparr>ticks := ticks k + 1\<rparr>"
  note a = acquire_ok [OF E l]
  have swap: "k1 = acq E Ticks_lock k0" by (simp add: k1_def k0_def acq_ticks)
  have s: "stable (acq E Ticks_lock k0) k1" by (simp add: swap)
  have f1: "proc_free k1" using f a(2) by (simp add: proc_free_def k1_def)
  have t1: "table_ok E k1 q" using t by (simp add: table_ok_def k1_def)
  have sl: "sleeping_on k1 ch = sleeping_on k ch" for ch
    using a(4) by (simp add: sleeping_on_def k1_def)
  obtain k2 q' where k2: "wakeup E (Some Ch_ticks) k1 = ret k2" "stable k1 k2"
      "wakes ({..<NPROC E} \<inter> sleeping_on k (Some Ch_ticks)) k1 k2" "table_ok E k2 q'"
      "set q' = set q \<union> ({..<NPROC E} \<inter> sleeping_on k (Some Ch_ticks))"
    using wakeup_ok [OF E f1 t1, of "Some Ch_ticks"] unfolding sl by blast
  note sec = stable_section [OF E l0 stable_trans [OF s k2(2)]]
  have "kbind (acquire E Ticks_lock k) (\<lambda>k.
        kbind (wakeup E (Some Ch_ticks) (k\<lparr>ticks := ticks k + 1\<rparr>)) (release E Ticks_lock)) =
      ret (rel E Ticks_lock k2)"
    using a(1) k2(1) sec(1) by (simp add: k1_def)
  moreover have "wakes A k (rel E Ticks_lock k2) = wakes A k1 k2" for A
    using wakes_cong(1) [of k k1] by (simp add: k1_def)
  ultimately show ?thesis
    using sec(2) k2(3-5) unfolding k0_def by (intro exI [of _ "rel E Ticks_lock k2"] exI [of _ q']) simp
qed

text \<open>The whole interrupt, with what it leaves alone.\<close>

definition clock_wakes :: "'m ext \<Rightarrow> 'm kernel \<Rightarrow> nat set" where
  "clock_wakes E k = (if hart k = 0 then {..<NPROC E} \<inter> sleeping_on k (Some Ch_ticks) else {})"

definition clock_count :: "'m kernel \<Rightarrow> u32" where
  "clock_count k = (if hart k = 0 then ticks k + 1 else ticks k)"

lemma stable_mach: "stable k k' \<Longrightarrow> stable (k\<lparr>mach := m\<rparr>) (k'\<lparr>mach := m\<rparr>)"
  by (simp add: stable_def)

lemma clockintr_ok:
  assumes "spin_ok E" and "proc_free k" and "Ticks_lock \<notin> set (locks k)" and "table_ok E k q"
  shows "\<exists>k' q'. clockintr E H k = ret k' \<and> stable (k\<lparr>ticks := clock_count k,
      mach := w_csr H Stimecmp (r_csr H Time (mach k) + 1000000) (mach k)\<rparr>) k' \<and>
    wakes (clock_wakes E k) k k' \<and> table_ok E k' q' \<and> set q' = set q \<union> clock_wakes E k"
proof -
  define f where "f kx = csr_set H Stimecmp (csr_get H Time kx + 1000000) kx" for kx
  define m where "m = w_csr H Stimecmp (r_csr H Time (mach k) + 1000000) (mach k)"
  have f: "mach kx = mach k \<Longrightarrow> f kx = kx\<lparr>mach := m\<rparr>" for kx
    by (simp add: f_def csr_set_def csr_get_def mdo_def m_def)
  have "\<exists>k1 q'. clockintr E H k = ret (f k1) \<and> stable (k\<lparr>ticks := clock_count k\<rparr>) k1 \<and>
      wakes (clock_wakes E k) k k1 \<and> table_ok E k1 q' \<and> set q' = set q \<union> clock_wakes E k"
  proof (cases "hart k = 0")
    case True
    obtain k1 q' where "kbind (acquire E Ticks_lock k) (\<lambda>k.
          kbind (wakeup E (Some Ch_ticks) (k\<lparr>ticks := ticks k + 1\<rparr>)) (release E Ticks_lock)) = ret k1"
        "stable (k\<lparr>ticks := ticks k + 1\<rparr>) k1"
        "wakes ({..<NPROC E} \<inter> sleeping_on k (Some Ch_ticks)) k k1" "table_ok E k1 q'"
        "set q' = set q \<union> ({..<NPROC E} \<inter> sleeping_on k (Some Ch_ticks))"
      using clock_tick [OF assms] by blast
    then show ?thesis
      using True by (intro exI [of _ k1] exI [of _ q'])
        (simp add: clockintr_def cpuid_def f_def clock_wakes_def clock_count_def)
  next
    case False
    then show ?thesis
      using assms(4) by (intro exI [of _ k] exI [of _ q])
        (simp add: clockintr_def cpuid_def f_def clock_wakes_def clock_count_def)
  qed
  then obtain k1 q' where k1: "clockintr E H k = ret (f k1)" "stable (k\<lparr>ticks := clock_count k\<rparr>) k1"
      "wakes (clock_wakes E k) k k1" "table_ok E k1 q'" "set q' = set q \<union> clock_wakes E k" by blast
  have "mach k1 = mach k" using stable_views(10) [OF k1(2)] by simp
  from f [OF this] k1 stable_mach [OF k1(2), of m]
  show ?thesis unfolding m_def [symmetric]
    by (intro exI [of _ "f k1"] exI [of _ q']) (simp add: table_ok_def wakes_def)
qed

text \<open>
  C31. A clock interrupt on hart 0 advances \<open>ticks\<close> by one, wrapping at 32 bits, makes exactly
  the processes that sleep on \<open>ticks\<close> runnable and queues them, and gives back every lock; on any
  other hart it changes no process. On each hart it arms the timer again.
\<close>

theorem clockintr_correct:
  assumes "spin_ok E" and "proc_free k" and "Ticks_lock \<notin> set (locks k)" and "table_ok E k q"
  shows "\<exists>k' q'. clockintr E H k = ret k' \<and> table_ok E k' q' \<and> locks k' = locks k \<and>
    mach k' = w_csr H Stimecmp (r_csr H Time (mach k) + 1000000) (mach k) \<and>
    ticks k' = (if hart k = 0 then ticks k + 1 else ticks k) \<and>
    (\<forall>i. state (procs (rb k') i) =
      (if hart k = 0 \<and> i < NPROC E \<and> i \<in> sleeping_on k (Some Ch_ticks) then RUNNABLE
       else state (procs (rb k) i))) \<and>
    set q' = set q \<union> (if hart k = 0 then {..<NPROC E} \<inter> sleeping_on k (Some Ch_ticks) else {})"
proof -
  obtain k' q' where k': "clockintr E H k = ret k'" "stable (k\<lparr>ticks := clock_count k,
      mach := w_csr H Stimecmp (r_csr H Time (mach k) + 1000000) (mach k)\<rparr>) k'"
    "wakes (clock_wakes E k) k k'" "table_ok E k' q'" "set q' = set q \<union> clock_wakes E k"
    using clockintr_ok [OF assms] by blast
  show ?thesis
    using k'(1,4,5) stable_views [OF k'(2)] wakes_fields(1) [OF k'(3)]
    by (intro exI [of _ k'] exI [of _ q']) (auto simp: clock_wakes_def clock_count_def)
qed

text \<open>A machine whose state is the contents of the control registers.\<close>

definition sample_hw :: "(csr \<Rightarrow> u64) hw" where
  "sample_hw = \<lparr>r_csr = (\<lambda>c m. m c), w_csr = (\<lambda>c x m. m(c := x)),
     SSTATUS_SPP = 0x100, SSTATUS_SPIE = 0x20, MAKE_SATP = (\<lambda>pt. pt OR 0x8000000000000000),
     kernelvec = 0x80005000, uservec = 0x80007000, userret = 0x8000709c, usertrap_addr = 0x80002000,
     UART0_IRQ = 10, VIRTIO0_IRQ = 1, plic_claim = (\<lambda>m. (0, m)), plic_complete = (\<lambda>_ m. m),
     uartintr = ret, virtio_disk_intr = ret, jump = (\<lambda>_ _. ret)\<rparr>"

abbreviation sample_machine :: "u64 \<Rightarrow> u64 \<Rightarrow> (csr \<Rightarrow> u64) kernel" where
  "sample_machine cause status \<equiv> sample_at ((\<lambda>_. 0)(Scause := cause, Sstatus := status, Sepc := 24))"

theorem clockintr_correct_witness:
  "\<exists>k'. clockintr sample_ext sample_hw (sample_machine 5 0) = ret k' \<and> ticks k' = 1 \<and>
    state (procs (rb k') 2) = RUNNABLE \<and> mach k' Stimecmp = 1000000"
proof -
  define k where "k = sample_machine 5 0"
  have l: "Ticks_lock \<notin> set (locks k)" by (simp add: k_def)
  have f: "proc_free k" "table_ok sample_ext k []" unfolding k_def by (rule any_free any_table)+
  have s: "(2 :: nat) \<in> sleeping_on k (Some Ch_ticks)"
    by (simp add: k_def sleeping_on_def sample_procs_def blank_proc_def)
  have h: "hart k = 0" "ticks k = 0" "mach k = (\<lambda>_. 0)(Scause := 5, Sstatus := 0, Sepc := 24)"
    by (simp_all add: k_def)
  show ?thesis
    using clockintr_correct [OF any_spin f(1) l f(2), of sample_hw] s h
    unfolding k_def [symmetric] by (auto simp: sample_hw_def)
qed

section \<open>Back to user space\<close>

text \<open>
  C32. \<open>usertrapret\<close> enters the trampoline with the page table of the process and leaves no
  process entry changed. At the jump the trap vector is the user one, \<open>sepc\<close> is the saved
  program counter, the previous mode is user with interrupts enabled on return, and the trap
  frame holds what the next trap needs: the kernel page table, the top of the kernel stack of
  this process, the address of \<open>usertrap\<close> and the number of this hart.
\<close>

theorem usertrapret_correct:
  assumes "myproc k = Some p" and "proc.trapframe (procs (rb k) p) = a" and "a \<noteq> 0"
    and "intr_off E k = ret (k\<lparr>mach := m\<rparr>)" and "SSTATUS_SPP H AND SSTATUS_SPIE H = 0"
  shows "\<exists>k' m1 status. usertrapret E H k = jump H (TRAMPOLINE E + (userret H - trampoline E))
      (MAKE_SATP H (pagetable (procs (rb k) p))) k' \<and> rb k' = rb k \<and> calls k' = calls k \<and>
    m1 = w_csr H Stvec (TRAMPOLINE E + (uservec H - trampoline E)) m \<and>
    mach k' = w_csr H Sepc (epc (tframes k a)) (w_csr H Sstatus status m1) \<and>
    status AND SSTATUS_SPP H = 0 \<and> status AND SSTATUS_SPIE H = SSTATUS_SPIE H \<and>
    tframes k' = (tframes k)(a := (tframes k a)\<lparr>kernel_satp := r_csr H Satp m1,
      kernel_sp := kstack (procs (rb k) p) + PGSIZE E, kernel_trap := usertrap_addr H,
      kernel_hartid := of_nat (hart k)\<rparr>)"
proof -
  define m1 where "m1 = w_csr H Stvec (TRAMPOLINE E + (uservec H - trampoline E)) m"
  define status where "status = r_csr H Sstatus m1 AND NOT (SSTATUS_SPP H) OR SSTATUS_SPIE H"
  define k' where "k' = k\<lparr>tframes := (tframes k)(a := (tframes k a)\<lparr>kernel_satp := r_csr H Satp m1,
      kernel_sp := kstack (procs (rb k) p) + PGSIZE E, kernel_trap := usertrap_addr H,
      kernel_hartid := of_nat (hart k)\<rparr>),
    mach := w_csr H Sepc (epc (tframes k a)) (w_csr H Sstatus status m1)\<rparr>"
  have tf: "tf_set u (Some p) kx = ret (kx\<lparr>tframes := (tframes kx)(a := u (tframes kx a))\<rparr>)"
    "tf_get f (Some p) kx = ret (f (tframes kx a))" if "rb kx = rb k" for u f kx
    using that assms(2,3) by (simp_all add: tf_set_def tf_get_def)
  have "usertrapret E H k = jump H (TRAMPOLINE E + (userret H - trampoline E))
      (MAKE_SATP H (pagetable (procs (rb k) p))) k'"
    using assms(1,4) by (simp add: usertrapret_def Let_def tf csr_set_def csr_get_def mdo_def k'_def
      m1_def status_def)
  moreover have "status AND SSTATUS_SPP H = 0 \<and> status AND SSTATUS_SPIE H = SSTATUS_SPIE H"
  proof (intro conjI bit_word_eqI)
    fix n
    have "\<not> (bit (SSTATUS_SPP H) n \<and> bit (SSTATUS_SPIE H) n)"
      using arg_cong [OF assms(5), of "\<lambda>w. bit w n"] by (simp add: bit_and_iff)
    then show "bit (status AND SSTATUS_SPP H) n = bit 0 n"
      "bit (status AND SSTATUS_SPIE H) n = bit (SSTATUS_SPIE H) n"
      by (auto simp: status_def bit_simps dest: bit_imp_le_length)
  qed
  ultimately show ?thesis
    by (intro exI [of _ k'] exI [of _ m1] exI [of _ status]) (simp add: k'_def m1_def)
qed

theorem usertrapret_correct_witness:
  "\<exists>k'. usertrapret sample_ext sample_hw (sample_machine 8 0x100) = ret k' \<and> mach k' Sepc = 16 \<and>
    mach k' Sstatus AND 0x100 = 0 \<and> mach k' Stvec = 2 ^ 38 - 4096 \<and>
    kernel_sp (tframes k' 4096) = 4096"
proof -
  define k where "k = sample_machine 8 0x100"
  have p: "myproc k = Some 1" "proc.trapframe (procs (rb k) 1) = 4096"
    "intr_off sample_ext k = ret (k\<lparr>mach := mach k\<rparr>)" "tframes k = (\<lambda>_. sample_tf)"
    "kstack (procs (rb k) 1) = 0"
    by (simp_all add: k_def sample_procs_def sample_ext_def blank_proc_def) (simp add: sample_at_def)
  have h: "SSTATUS_SPP sample_hw AND SSTATUS_SPIE sample_hw = 0" by (simp add: sample_hw_def)
  show ?thesis
    using usertrapret_correct [OF p(1,2) _ p(3) h] p(4,5) unfolding k_def [symmetric]
    by (auto simp: sample_hw_def sample_ext_def sample_tf_def)
qed

section \<open>Traps in the kernel\<close>

text \<open>
  What the kernel relies on when it restores trap registers: writing back a value read earlier
  from \<open>sepc\<close> or \<open>sstatus\<close> makes the register read that value again, and writing \<open>sstatus\<close> does
  not touch \<open>sepc\<close>.
\<close>

definition csr_restores :: "'m hw \<Rightarrow> bool" where
  "csr_restores H \<longleftrightarrow> (\<forall>m m'. r_csr H Sepc (w_csr H Sepc (r_csr H Sepc m) m') = r_csr H Sepc m \<and>
     r_csr H Sstatus (w_csr H Sstatus (r_csr H Sstatus m) m') = r_csr H Sstatus m \<and>
     (\<forall>x. r_csr H Sepc (w_csr H Sstatus x m') = r_csr H Sepc m'))"

text \<open>
  C33. \<open>kerneltrap\<close> stops the machine if it was not entered from supervisor mode, if interrupts
  are on, or if the cause is neither a device nor the clock. If it returns, \<open>sepc\<close> and
  \<open>sstatus\<close> are what they were at the trap, whatever ran in between; and a clock interrupt on a
  hart without a process does return.
\<close>

theorem kerneltrap_correct:
  assumes "csr_restores H"
  shows "(csr_get H Sstatus k AND SSTATUS_SPP H = 0 \<longrightarrow>
      kerneltrap E H k = err (Panic ''kerneltrap: not from supervisor mode'')) \<and>
    (csr_get H Sstatus k AND SSTATUS_SPP H \<noteq> 0 \<and> intr_get E k \<longrightarrow>
      kerneltrap E H k = err (Panic ''kerneltrap: interrupts enabled'')) \<and>
    (csr_get H Sstatus k AND SSTATUS_SPP H \<noteq> 0 \<and> \<not> intr_get E k \<and>
      csr_get H Scause k \<notin> {0x8000000000000009, 0x8000000000000005} \<longrightarrow>
      kerneltrap E H k = err (Panic ''kerneltrap'')) \<and>
    (kerneltrap E H k = ret k' \<longrightarrow>
      csr_get H Sepc k' = csr_get H Sepc k \<and> csr_get H Sstatus k' = csr_get H Sstatus k) \<and>
    (csr_get H Sstatus k AND SSTATUS_SPP H \<noteq> 0 \<and> \<not> intr_get E k \<and>
      csr_get H Scause k = 0x8000000000000005 \<and> myproc k = None \<and> spin_ok E \<and> proc_free k \<and>
      Ticks_lock \<notin> set (locks k) \<and> table_ok E k q \<longrightarrow> (\<exists>kr. kerneltrap E H k = ret kr))"
proof (intro conjI impI; (elim conjE)?)
  assume "kerneltrap E H k = ret k'"
  then obtain kx where "k' = csr_set H Sstatus (csr_get H Sstatus k) (csr_set H Sepc (csr_get H Sepc k) kx)"
    by (auto simp: kerneltrap_def Let_def kbind_eq_ret split: if_splits)
  then show "csr_get H Sepc k' = csr_get H Sepc k" "csr_get H Sstatus k' = csr_get H Sstatus k"
    using assms by (simp_all add: csr_restores_def csr_get_def csr_set_def)
next
  assume k: "csr_get H Sstatus k AND SSTATUS_SPP H \<noteq> 0" "\<not> intr_get E k"
    "csr_get H Scause k = 0x8000000000000005" "myproc k = None" and "spin_ok E" "proc_free k"
    "Ticks_lock \<notin> set (locks k)" "table_ok E k q"
  then obtain k1 where k1: "clockintr E H k = ret k1" "myproc k1 = None"
    using clockintr_ok [of E k q H] stable_views(3) by fastforce
  then have "devintr E H k = ret (2, k1)" using k(3) by (simp add: devintr_def Let_def)
  then show "\<exists>kr. kerneltrap E H k = ret kr"
    using k k1(2) by (simp add: kerneltrap_def Let_def)
qed (simp_all add: kerneltrap_def devintr_def Let_def)

theorem kerneltrap_correct_witness:
  "kerneltrap sample_ext sample_hw (sample_machine 13 0x100) = err (Panic ''kerneltrap'') \<and>
   (\<exists>kr. kerneltrap sample_ext sample_hw (set_mycpu (cpu_proc_update (\<lambda>_. None))
      (sample_machine 0x8000000000000005 0x100)) = ret kr)"
proof -
  have R: "csr_restores sample_hw" by (simp add: csr_restores_def sample_hw_def)
  define k where "k = set_mycpu (cpu_proc_update (\<lambda>_. None)) (sample_machine 0x8000000000000005 0x100)"
  have k: "csr_get sample_hw Sstatus k AND SSTATUS_SPP sample_hw \<noteq> 0" "\<not> intr_get sample_ext k"
    "csr_get sample_hw Scause k = 0x8000000000000005" "myproc k = None" "proc_free k"
    "Ticks_lock \<notin> set (locks k)" "table_ok sample_ext k []"
    using any_free any_table
    by (simp_all add: k_def csr_get_def sample_hw_def myproc_def proc_free_def)
  have "\<exists>kr. kerneltrap sample_ext sample_hw k = ret kr"
    using kerneltrap_correct [OF R, of k sample_ext k "[]"] k any_spin by blast
  moreover have "kerneltrap sample_ext sample_hw (sample_machine 13 0x100) = err (Panic ''kerneltrap'')"
    using kerneltrap_correct [OF R, of "sample_machine 13 0x100" sample_ext k "[]"]
    by (simp add: csr_get_def) (simp add: sample_hw_def)
  ultimately show ?thesis unfolding k_def by blast
qed

section \<open>Traps from user space\<close>

text \<open>\<open>exit\<close> never returns to its caller, so nothing that follows a call of it is reached.\<close>

lemma exit_never_returns: "exit E n k \<noteq> ret k'"
  by (simp add: exit_def Let_def kbind_eq_ret)

lemma kbind_stuck: "(\<And>x. m \<noteq> ret x) \<Longrightarrow> kbind m f = (case m of Some (Inl e) \<Rightarrow> err e | _ \<Rightarrow> hang)"
  by (cases m; cases "the m") (auto simp: kbind_def ret_def err_def)

lemma kbind_ret_right: "kbind m ret = m"
  by (cases m; cases "the m") (auto simp: kbind_def ret_def)

lemma kbind_exit: "kbind (exit E n k) f = exit E n k"
  using kbind_ret_right [of "exit E n k"] by (simp add: kbind_stuck exit_never_returns)

text \<open>Writing the trap vector changes neither the cause register nor the interrupt controller.\<close>

definition stvec_ok :: "'m hw \<Rightarrow> bool" where
  "stvec_ok H \<longleftrightarrow> (\<forall>x m. r_csr H Scause (w_csr H Stvec x m) = r_csr H Scause m \<and>
     fst (plic_claim H (w_csr H Stvec x m)) = fst (plic_claim H m))"

text \<open>The entry: the kernel trap vector is installed and the user program counter saved.\<close>

definition entered :: "'m hw \<Rightarrow> u64 \<Rightarrow> 'm kernel \<Rightarrow> 'm kernel" where
  "entered H a k = (csr_set H Stvec (kernelvec H) k)\<lparr>tframes := (tframes k)(a := (tframes k a)
     \<lparr>epc := r_csr H Sepc (w_csr H Stvec (kernelvec H) (mach k))\<rparr>)\<rparr>"

lemma entered_simps [simp]:
  "rb (entered H a k) = rb k" "locks (entered H a k) = locks k" "myproc (entered H a k) = myproc k"
  "hart (entered H a k) = hart k" "ticks (entered H a k) = ticks k" "mycpu (entered H a k) = mycpu k"
  "mach (entered H a k) = w_csr H Stvec (kernelvec H) (mach k)"
  by (simp_all add: entered_def csr_set_def)

lemma usertrap_body_entered:
  assumes "csr_get H Sstatus k AND SSTATUS_SPP H = 0" "myproc k = Some p"
    "proc.trapframe (procs (rb k) p) = a" "a \<noteq> 0"
    "r_csr H Scause (w_csr H Stvec (kernelvec H) (mach k)) = 8 \<longleftrightarrow> csr_get H Scause k = 8"
    "csr_get H Scause k \<noteq> 8"
  shows "usertrap_body E F H k = kbind (kbind (devintr E H (entered H a k)) (\<lambda>(which_dev, k).
      if which_dev \<noteq> 0 then ret (which_dev, k)
      else kbind (pget pid (Some p) k) (\<lambda>n.
        kbind (setkilled E (Some p) (unexpected_trap E H n k)) (\<lambda>k. ret (0 :: int, k))))) (\<lambda>(which_dev, k).
    usertrap_tail E (Some p) which_dev k)"
  using assms by (simp add: usertrap_body_def Let_def tf_set_def csr_set_def csr_get_def mdo_def entered_def
      cong: if_cong)

lemma usertrap_tail_ok:
  assumes "spin_ok E" "in_kernel E p k" "table_ok E k q"
  shows "if killed (procs (rb k) p) \<noteq> 0
    then \<exists>k1. usertrap_tail E (Some p) d k = exit E (- 1) k1 \<and> stable k k1 \<and> rb k1 = rb k
    else \<exists>k1. usertrap_tail E (Some p) d k = kbind (yield E k1) (\<lambda>k. if d = 2 then yield E k else ret k) \<and>
      stable k k1 \<and> table_ok E k1 q \<and>
      procs (rb k1) = (procs (rb k))(p := currentRuntime_update (\<lambda>n. i32 (n + 1)) (procs (rb k) p))"
proof -
  have l: "Proc_lock p \<notin> set (locks k)" using assms(2) by (simp add: in_kernel_def)
  obtain k1 where k1: "is_killed E (Some p) k = ret (killed (procs (rb k) p), k1)" "stable k k1" "rb k1 = rb k"
    using is_killed_ok [OF assms(1) l] by blast
  define k2 where "k2 = put (currentRuntime_update (\<lambda>n. i32 (n + 1))) p k1"
  have r: "state (procs (rb k1) p) = RUNNING" using assms(2) k1(3) by (simp add: in_kernel_def)
  have "table_ok E k1 q" using assms(3) by (simp add: table_ok_def k1(3))
  then have "table_ok E k2 q"
    unfolding k2_def by (rule table_ok_put_same) (simp_all add: links_def)
  then show ?thesis
    using k1 r by (auto simp: usertrap_tail_def kbind_exit k2_def)
qed

lemma in_kernel_entered: "in_kernel E p k \<Longrightarrow> in_kernel E p (entered H a k)"
  by (simp add: in_kernel_def)

text \<open>What the two kinds of interrupt do in a process that runs in user space.\<close>

lemma devintr_timer:
  assumes E: "spin_ok E" and k: "in_kernel E p k" and t: "table_ok E k q"
    and c: "csr_get H Scause k = 0x8000000000000005"
  shows "\<exists>k' q'. devintr E H k = ret (2, k') \<and> in_kernel E p k' \<and> table_ok E k' q' \<and>
    ticks k' = clock_count k \<and> wakes (clock_wakes E k) k k' \<and> hart k' = hart k \<and> initproc k' = initproc k"
proof -
  have l: "proc_free k" "Ticks_lock \<notin> set (locks k)" using k by (simp_all add: in_kernel_def proc_free_def)
  obtain k' q' where k': "clockintr E H k = ret k'" "stable (k\<lparr>ticks := clock_count k,
      mach := w_csr H Stimecmp (r_csr H Time (mach k) + 1000000) (mach k)\<rparr>) k'"
    "wakes (clock_wakes E k) k k'" "table_ok E k' q'"
    using clockintr_ok [OF E l t] by blast
  note v = stable_views [OF k'(2)]
  have "state (procs (rb k) p) = RUNNING" using k by (simp add: in_kernel_def)
  then have "p \<notin> clock_wakes E k" by (simp add: clock_wakes_def sleeping_on_def)
  then have "state (procs (rb k') p) = RUNNING"
    using wakes_fields(1) [OF k'(3), of p] \<open>state (procs (rb k) p) = RUNNING\<close> by simp
  then have "in_kernel E p k'" using v k by (simp add: in_kernel_def)
  then show ?thesis
    using k' v c by (intro exI [of _ k'] exI [of _ q']) (simp add: devintr_def Let_def)
qed

lemma devintr_spurious:
  assumes "csr_get H Scause k = 0x8000000000000009"
    and "fst (plic_claim H (mach k)) \<notin> {UART0_IRQ H, VIRTIO0_IRQ H}"
  shows "\<exists>m. devintr E H k = ret (1, k\<lparr>mach := m\<rparr>)"
  using assms by (auto simp: devintr_def Let_def mcall_eq mdo_def)

text \<open>What the entry of \<open>usertrap\<close> leaves for a device or timer interrupt to find.\<close>

lemma usertrap_entry:
  assumes "in_kernel E p k" and "table_ok E k q"
    and "csr_get H Sstatus k AND SSTATUS_SPP H = 0" and "proc.trapframe (procs (rb k) p) = a"
    and "a \<noteq> 0" and "stvec_ok H"
  defines "k0 \<equiv> entered H a k"
  shows "in_kernel E p k0" and "table_ok E k0 q" and "csr_get H Scause k0 = csr_get H Scause k"
    and "rb k0 = rb k" and "ticks k0 = ticks k" and "hart k0 = hart k"
    and "fst (plic_claim H (mach k0)) = fst (plic_claim H (mach k))"
    and "devintr E H k0 = ret (d, k1) \<Longrightarrow> d \<noteq> 0 \<Longrightarrow> csr_get H Scause k \<noteq> 8 \<Longrightarrow>
      usertrap_body E F H k = usertrap_tail E (Some p) d k1"
proof -
  have me: "myproc k = Some p" using assms(1) by (simp add: in_kernel_def)
  show "in_kernel E p k0" and "table_ok E k0 q" and "csr_get H Scause k0 = csr_get H Scause k"
    and "rb k0 = rb k" and "ticks k0 = ticks k" and "hart k0 = hart k"
    and "fst (plic_claim H (mach k0)) = fst (plic_claim H (mach k))"
    using assms(1,2,6) by (simp_all add: stvec_ok_def k0_def in_kernel_entered table_ok_def csr_get_def)
  show "devintr E H k0 = ret (d, k1) \<Longrightarrow> d \<noteq> 0 \<Longrightarrow> csr_get H Scause k \<noteq> 8 \<Longrightarrow>
      usertrap_body E F H k = usertrap_tail E (Some p) d k1"
    using usertrap_body_entered [OF assms(3) me assms(4,5), of E F] assms(6)
    by (simp add: k0_def [symmetric] csr_get_def stvec_ok_def)
qed

text \<open>The end of a trap that the process survives, from the state \<open>k1\<close> its handler left.\<close>

lemma usertrap_tail_charges:
  assumes "spin_ok E" and "in_kernel E p k1" and "table_ok E k1 q1" and "killed (procs (rb k1) p) = 0"
  shows "\<exists>k2. usertrap_tail E (Some p) d k1 = kbind (yield E k2) (\<lambda>k. if d = 2 then yield E k else ret k) \<and>
    in_kernel E p k2 \<and> table_ok E k2 q1 \<and> ticks k2 = ticks k1 \<and>
    currentRuntime (procs (rb k2) p) = i32 (currentRuntime (procs (rb k1) p) + 1)"
proof -
  obtain k2 where k2: "usertrap_tail E (Some p) d k1 = kbind (yield E k2) (\<lambda>k. if d = 2 then yield E k else ret k)"
    "stable k1 k2" "table_ok E k2 q1"
    "procs (rb k2) = (procs (rb k1))(p := currentRuntime_update (\<lambda>n. i32 (n + 1)) (procs (rb k1) p))"
    using usertrap_tail_ok [OF assms(1-3), of d] assms(4) by auto
  have "in_kernel E p k2"
    using in_kernel_stable [OF assms(2) k2(2)] assms(2) k2(4) by (simp add: in_kernel_def)
  then show ?thesis using k2 stable_views(6) [OF k2(2)] by (intro exI [of _ k2]) simp
qed

lemma usertrap_timer:
  assumes "spin_ok E" and "in_kernel E p k" and "table_ok E k q" and "killed (procs (rb k) p) = 0"
    and "csr_get H Sstatus k AND SSTATUS_SPP H = 0" and "proc.trapframe (procs (rb k) p) = a"
    and "a \<noteq> 0" and "stvec_ok H" and c: "csr_get H Scause k = 0x8000000000000005"
  shows "\<exists>k1 q1. usertrap_body E F H k = kbind (yield E k1) (yield E) \<and> in_kernel E p k1 \<and> table_ok E k1 q1 \<and>
    currentRuntime (procs (rb k1) p) = i32 (currentRuntime (procs (rb k) p) + 1) \<and>
    ticks k1 = (if hart k = 0 then ticks k + 1 else ticks k)"
proof -
  define k0 where "k0 = entered H a k"
  note k0 = usertrap_entry [OF assms(2,3,5-8), folded k0_def]
  obtain k1 q1 where k1: "devintr E H k0 = ret (2, k1)" "in_kernel E p k1" "table_ok E k1 q1"
    "ticks k1 = clock_count k0" "wakes (clock_wakes E k0) k0 k1"
    using devintr_timer [OF assms(1) k0(1,2)] c k0(3) by metis
  have "state (procs (rb k0) p) = RUNNING" using k0(1) by (simp add: in_kernel_def)
  then have p: "p \<notin> clock_wakes E k0" by (simp add: clock_wakes_def sleeping_on_def)
  have d: "killed (procs (rb k1) p) = 0" using wakes_fields(5) [OF k1(5), of p] assms(4) k0(4) by simp
  from usertrap_tail_charges [OF assms(1) k1(2,3) d, of 2]
  obtain k2 where k2: "usertrap_tail E (Some p) 2 k1 = kbind (yield E k2) (yield E)"
    "in_kernel E p k2" "table_ok E k2 q1" "ticks k2 = ticks k1"
    "currentRuntime (procs (rb k2) p) = i32 (currentRuntime (procs (rb k1) p) + 1)"
    by auto
  then show ?thesis
    using k0(8) [OF k1(1)] c k1(4) k0(1-7) p wakes_fields(6) [OF k1(5), of p]
    by (intro exI [of _ k2] exI [of _ q1]) (simp add: clock_count_def)
qed

lemma usertrap_device:
  assumes "spin_ok E" and "in_kernel E p k" and "table_ok E k q"
    and "csr_get H Sstatus k AND SSTATUS_SPP H = 0" and "proc.trapframe (procs (rb k) p) = a"
    and "a \<noteq> 0" and "stvec_ok H" and c: "csr_get H Scause k = 0x8000000000000009"
    and d: "devintr E H (entered H a k) = ret (1, k1)"
    and k1: "in_kernel E p k1" "table_ok E k1 q1" "killed (procs (rb k1) p) = 0"
  shows "\<exists>k2. usertrap_body E F H k = yield E k2 \<and> in_kernel E p k2 \<and> table_ok E k2 q1 \<and> ticks k2 = ticks k1 \<and>
    currentRuntime (procs (rb k2) p) = i32 (currentRuntime (procs (rb k1) p) + 1)"
proof -
  have "usertrap_body E F H k = usertrap_tail E (Some p) 1 k1"
    using usertrap_entry(8) [OF assms(2-7) d] c by simp
  with usertrap_tail_charges [OF assms(1) k1, of 1] show ?thesis by (auto simp: kbind_ret_right)
qed

lemma usertrap_other_device:
  assumes "spin_ok E" and "in_kernel E p k" and "table_ok E k q" and "killed (procs (rb k) p) = 0"
    and "csr_get H Sstatus k AND SSTATUS_SPP H = 0" and "proc.trapframe (procs (rb k) p) = a"
    and "a \<noteq> 0" and "stvec_ok H" and c: "csr_get H Scause k = 0x8000000000000009"
    and irq: "fst (plic_claim H (mach k)) \<notin> {UART0_IRQ H, VIRTIO0_IRQ H}"
  shows "\<exists>k1. usertrap_body E F H k = yield E k1 \<and> in_kernel E p k1 \<and> table_ok E k1 q \<and>
    currentRuntime (procs (rb k1) p) = i32 (currentRuntime (procs (rb k) p) + 1) \<and> ticks k1 = ticks k"
proof -
  define k0 where "k0 = entered H a k"
  note k0 = usertrap_entry [OF assms(2,3,5-8), folded k0_def]
  obtain m where m: "devintr E H k0 = ret (1, k0\<lparr>mach := m\<rparr>)"
    using devintr_spurious [of H k0 E] c irq k0(3,7) by auto
  have k1: "in_kernel E p (k0\<lparr>mach := m\<rparr>)" "table_ok E (k0\<lparr>mach := m\<rparr>) q"
    "killed (procs (rb (k0\<lparr>mach := m\<rparr>)) p) = 0"
    using k0(1,2,4) assms(4) by (simp_all add: in_kernel_def table_ok_def)
  from usertrap_device [OF assms(1-3,5-8) c m [unfolded k0_def] k1 [unfolded k0_def], of F]
  show ?thesis using k0(4,5) by (simp add: k0_def) metis
qed

text \<open>A system call: the process is not killed yet, the program counter is moved past \<open>ecall\<close>.\<close>

lemma usertrap_system_call:
  assumes "spin_ok E" and "in_kernel E p k" and "table_ok E k q" and "killed (procs (rb k) p) = 0"
    and "csr_get H Sstatus k AND SSTATUS_SPP H = 0" and "proc.trapframe (procs (rb k) p) = a"
    and "a \<noteq> 0" and "stvec_ok H" and c: "csr_get H Scause k = 8"
  shows "\<exists>k1. rb k1 = rb k \<and> in_kernel E p k1 \<and>
    tframes k1 = (tframes k)(a := (tframes k a)\<lparr>epc := epc (tframes (entered H a k) a) + 4\<rparr>) \<and>
    usertrap_body E F H k = kbind (kbind (intr_on E k1) (syscall E F)) (usertrap_tail E (Some p) 0)"
proof -
  have me: "myproc k = Some p" and run: "state (procs (rb k) p) = RUNNING"
    using assms(2) by (simp_all add: in_kernel_def)
  define k0 where "k0 = entered H a k"
  note k0 = usertrap_entry(1-4) [OF assms(2,3,5-8), folded k0_def]
  have l0: "Proc_lock p \<notin> set (locks k0)" using k0(1) by (simp add: in_kernel_def)
  obtain k1 where k1: "is_killed E (Some p) k0 = ret (0, k1)" "stable k0 k1" "rb k1 = rb k"
    using is_killed_ok [OF assms(1) l0] k0(4) assms(4) by auto
  define k2 where "k2 = k1\<lparr>tframes := (tframes k1)(a := (tframes k1 a)\<lparr>epc := epc (tframes k1 a) + 4\<rparr>)\<rparr>"
  have i1: "in_kernel E p k1" using in_kernel_stable [OF k0(1) k1(2)] run k1(3) by simp
  have upd: "epc_update (\<lambda>pc. pc + 4) t = t\<lparr>epc := epc t + 4\<rparr>" for t by (rule trapframe.equality) simp_all
  have "usertrap_body E F H k = kbind (is_killed E (Some p) k0) (\<lambda>(d, k).
      kbind (kbind (if d \<noteq> 0 then exit E (- 1) k else ret k) (\<lambda>k.
        kbind (tf_set (epc_update (\<lambda>pc. pc + 4)) (Some p) k) (\<lambda>k.
        kbind (intr_on E k) (syscall E F)))) (usertrap_tail E (Some p) 0))"
    using assms(5-8) me c
    by (simp add: usertrap_body_def Let_def tf_set_def csr_set_def csr_get_def mdo_def stvec_ok_def
        k0_def entered_def kbind_assoc case_prod_unfold)
  also have "\<dots> = kbind (kbind (intr_on E k2) (syscall E F)) (usertrap_tail E (Some p) 0)"
    using assms(6,7) k1(1,3) by (simp add: tf_set_def k2_def upd)
  finally show ?thesis
    using k1 i1 stable_views(8) [OF k1(2)]
    by (intro exI [of _ k2]) (auto simp: k2_def k0_def entered_def in_kernel_def)
qed

text \<open>
  C34. A process is charged one unit of run time for every trap that it takes from user space
  and survives, not only for clock ticks, and then offers to yield. A timer interrupt charges it
  and yields twice (once for the running process, once for the timer). Any other device
  interrupt whose handler returns, be it that of the console, of the disk or of none that a
  driver claims, charges it and yields, although the tick counter stands still; one that no
  driver claims always does. And so does every system call that returns to the process: the
  charge comes on top of what the call itself has left.
\<close>

theorem usertrap_charges:
  assumes "spin_ok E" and "in_kernel E p k" and "table_ok E k q" and "killed (procs (rb k) p) = 0"
    and "csr_get H Sstatus k AND SSTATUS_SPP H = 0" and "proc.trapframe (procs (rb k) p) = a"
    and "a \<noteq> 0" and "stvec_ok H"
  shows "(csr_get H Scause k = 0x8000000000000005 \<longrightarrow>
      (\<exists>k1 q1. usertrap_body E F H k = kbind (yield E k1) (yield E) \<and> in_kernel E p k1 \<and> table_ok E k1 q1 \<and>
        currentRuntime (procs (rb k1) p) = i32 (currentRuntime (procs (rb k) p) + 1) \<and>
        ticks k1 = (if hart k = 0 then ticks k + 1 else ticks k))) \<and>
    (csr_get H Scause k = 0x8000000000000009 \<longrightarrow>
      fst (plic_claim H (mach k)) \<notin> {UART0_IRQ H, VIRTIO0_IRQ H} \<longrightarrow>
      (\<exists>k1. usertrap_body E F H k = yield E k1 \<and> in_kernel E p k1 \<and> table_ok E k1 q \<and>
        currentRuntime (procs (rb k1) p) = i32 (currentRuntime (procs (rb k) p) + 1) \<and>
        ticks k1 = ticks k)) \<and>
    (csr_get H Scause k = 0x8000000000000009 \<longrightarrow>
      (\<forall>k1 q1. devintr E H (entered H a k) = ret (1, k1) \<longrightarrow> in_kernel E p k1 \<longrightarrow> table_ok E k1 q1 \<longrightarrow>
        killed (procs (rb k1) p) = 0 \<longrightarrow>
        (\<exists>k2. usertrap_body E F H k = yield E k2 \<and> in_kernel E p k2 \<and> table_ok E k2 q1 \<and>
          currentRuntime (procs (rb k2) p) = i32 (currentRuntime (procs (rb k1) p) + 1) \<and>
          ticks k2 = ticks k1))) \<and>
    (csr_get H Scause k = 8 \<longrightarrow>
      (\<exists>k1. rb k1 = rb k \<and> in_kernel E p k1 \<and>
        tframes k1 = (tframes k)(a := (tframes k a)\<lparr>epc := epc (tframes (entered H a k) a) + 4\<rparr>) \<and>
        (\<forall>k2 k3 q3. intr_on E k1 = ret k2 \<longrightarrow> syscall E F k2 = ret k3 \<longrightarrow> in_kernel E p k3 \<longrightarrow>
          table_ok E k3 q3 \<longrightarrow> killed (procs (rb k3) p) = 0 \<longrightarrow>
          (\<exists>k4. usertrap_body E F H k = yield E k4 \<and> in_kernel E p k4 \<and> table_ok E k4 q3 \<and>
            currentRuntime (procs (rb k4) p) = i32 (currentRuntime (procs (rb k3) p) + 1) \<and>
            ticks k4 = ticks k3))))"
proof -
  have sys: "\<exists>k1. rb k1 = rb k \<and> in_kernel E p k1 \<and>
        tframes k1 = (tframes k)(a := (tframes k a)\<lparr>epc := epc (tframes (entered H a k) a) + 4\<rparr>) \<and>
        (\<forall>k2 k3 q3. intr_on E k1 = ret k2 \<longrightarrow> syscall E F k2 = ret k3 \<longrightarrow> in_kernel E p k3 \<longrightarrow>
          table_ok E k3 q3 \<longrightarrow> killed (procs (rb k3) p) = 0 \<longrightarrow>
          (\<exists>k4. usertrap_body E F H k = yield E k4 \<and> in_kernel E p k4 \<and> table_ok E k4 q3 \<and>
            currentRuntime (procs (rb k4) p) = i32 (currentRuntime (procs (rb k3) p) + 1) \<and>
            ticks k4 = ticks k3))"
    if c: "csr_get H Scause k = 8"
  proof -
    obtain k1 where k1: "rb k1 = rb k" "in_kernel E p k1"
      "tframes k1 = (tframes k)(a := (tframes k a)\<lparr>epc := epc (tframes (entered H a k) a) + 4\<rparr>)"
      "usertrap_body E F H k = kbind (kbind (intr_on E k1) (syscall E F)) (usertrap_tail E (Some p) 0)"
      using usertrap_system_call [OF assms c, of F] by blast
    have "\<exists>k4. usertrap_body E F H k = yield E k4 \<and> in_kernel E p k4 \<and> table_ok E k4 q3 \<and>
        currentRuntime (procs (rb k4) p) = i32 (currentRuntime (procs (rb k3) p) + 1) \<and> ticks k4 = ticks k3"
      if k3: "intr_on E k1 = ret k2" "syscall E F k2 = ret k3" "in_kernel E p k3"
        "table_ok E k3 q3" "killed (procs (rb k3) p) = 0" for k2 k3 q3
    proof -
      have "usertrap_body E F H k = usertrap_tail E (Some p) 0 k3" using k1(4) k3(1,2) by simp
      with usertrap_tail_charges [OF assms(1) k3(3-5), of 0] show ?thesis by (auto simp: kbind_ret_right)
    qed
    with k1(1-3) show ?thesis by blast
  qed
  show ?thesis
    using sys usertrap_timer [OF assms] usertrap_other_device [OF assms]
      usertrap_device [OF assms(1-3,5-8)] by blast
qed

lemma any_stvec: "stvec_ok sample_hw"
  by (simp add: stvec_ok_def sample_hw_def)

text \<open>Process 1 calls \<open>getpid\<close>; a console interrupt arrives.\<close>

definition getpid_machine :: "(csr \<Rightarrow> u64) kernel" where
  "getpid_machine = (sample_machine 8 0)\<lparr>tframes := (\<lambda>_. sample_tf\<lparr>tf_a7 := 11\<rparr>)\<rparr>"

definition uart_hw :: "(csr \<Rightarrow> u64) hw" where
  "uart_hw = sample_hw\<lparr>plic_claim := (\<lambda>m. (10, m))\<rparr>"

lemma getpid_machine_ok: "in_kernel sample_ext 1 getpid_machine" "table_ok sample_ext getpid_machine []"
  "rb getpid_machine = rb (sample_machine 8 0)"
  using any_running any_table by (simp_all add: getpid_machine_def in_kernel_def table_ok_def)

theorem usertrap_charges_witness:
  "\<forall>F. (\<exists>k1. usertrap_body sample_ext F sample_hw (sample_machine 0x8000000000000005 0) =
      kbind (yield sample_ext k1) (yield sample_ext) \<and> currentRuntime (procs (rb k1) 1) = 4 \<and> ticks k1 = 1) \<and>
   (\<exists>k1. usertrap_body sample_ext F sample_hw (sample_machine 0x8000000000000009 0) = yield sample_ext k1 \<and>
      currentRuntime (procs (rb k1) 1) = 4 \<and> ticks k1 = 0) \<and>
   (\<exists>k1. usertrap_body sample_ext F uart_hw (sample_machine 0x8000000000000009 0) = yield sample_ext k1 \<and>
      currentRuntime (procs (rb k1) 1) = 4) \<and>
   (\<exists>k1. usertrap_body sample_ext F sample_hw getpid_machine = yield sample_ext k1 \<and>
      currentRuntime (procs (rb k1) 1) = 4)" (is "\<forall>F. ?T F \<and> ?O F \<and> ?U F \<and> ?S F")
proof
  fix F
  have p: "killed (procs (rb (sample_at m)) 1) = 0" "proc.trapframe (procs (rb (sample_at m)) 1) = 4096"
      "currentRuntime (procs (rb (sample_at m)) 1) = 3" for m :: "csr \<Rightarrow> u64"
    by (simp_all add: sample_procs_def blank_proc_def)
  have st: "csr_get sample_hw Sstatus (sample_machine c 0) AND SSTATUS_SPP sample_hw = 0"
    "csr_get uart_hw Sstatus (sample_machine c 0) AND SSTATUS_SPP uart_hw = 0" for c
    by (simp_all add: csr_get_def sample_hw_def uart_hw_def)
  have nz: "(4096 :: u64) \<noteq> 0" and uart: "stvec_ok uart_hw"
    by (simp_all add: stvec_ok_def sample_hw_def uart_hw_def)
  note timer = usertrap_charges [OF any_spin any_running any_table p(1)
    st(1) [of "0x8000000000000005"] p(2) nz any_stvec, where F = F]
  note other = usertrap_charges [OF any_spin any_running any_table p(1)
    st(1) [of "0x8000000000000009"] p(2) nz any_stvec, where F = F]
  note console = usertrap_charges [OF any_spin any_running any_table p(1)
    st(2) [of "0x8000000000000009"] p(2) nz uart, where F = F, THEN conjunct2, THEN conjunct2, THEN conjunct1]
  define k where "k = entered uart_hw 4096 (sample_machine 0x8000000000000009 0)"
  have k: "in_kernel sample_ext 1 k" "table_ok sample_ext k []" "killed (procs (rb k) 1) = 0"
    "currentRuntime (procs (rb k) 1) = 3"
    unfolding k_def by (rule in_kernel_entered [OF any_running])
      (use p any_table in \<open>simp_all add: table_ok_def\<close>)
  have "devintr sample_ext uart_hw k = ret (1, k)" "csr_get uart_hw Scause (sample_machine 0x8000000000000009 0) = 0x8000000000000009"
    by (simp_all add: devintr_def Let_def csr_get_def k_def entered_def csr_set_def sample_hw_def uart_hw_def mcall_def mdo_def)
  then have U: "?U F" using console k unfolding k_def by fastforce
  have g: "csr_get sample_hw Sstatus getpid_machine AND SSTATUS_SPP sample_hw = 0"
    "csr_get sample_hw Scause getpid_machine = 8" "proc.trapframe (procs (rb getpid_machine) 1) = 4096"
    "killed (procs (rb getpid_machine) 1) = 0"
    using p by (simp_all add: csr_get_def sample_hw_def getpid_machine_def)
  obtain k1 where k1: "rb k1 = rb getpid_machine" "in_kernel sample_ext 1 k1"
    "tframes k1 = (tframes getpid_machine)(4096 := (tframes getpid_machine 4096)
      \<lparr>epc := epc (tframes (entered sample_hw 4096 getpid_machine) 4096) + 4\<rparr>)"
    "\<And>k2 k3 q3. intr_on sample_ext k1 = ret k2 \<Longrightarrow> syscall sample_ext F k2 = ret k3 \<Longrightarrow> in_kernel sample_ext 1 k3 \<Longrightarrow>
          table_ok sample_ext k3 q3 \<Longrightarrow> killed (procs (rb k3) 1) = 0 \<Longrightarrow>
          (\<exists>k4. usertrap_body sample_ext F sample_hw getpid_machine = yield sample_ext k4 \<and>
            currentRuntime (procs (rb k4) 1) = i32 (currentRuntime (procs (rb k3) 1) + 1))"
    using usertrap_charges [OF any_spin getpid_machine_ok(1,2) g(4,1,3) nz any_stvec, where F = F] g(2)
    by metis
  have a7: "tf_a7 (tframes k1 4096) = 11" by (simp add: k1(3) getpid_machine_def)
  define k3 where "k3 = k1\<lparr>tframes := (tframes k1)(4096 := (tframes k1 4096)
      \<lparr>tf_a0 := word_of_int (pid (procs (rb k1) 1))\<rparr>)\<rparr>"
  have "intr_on sample_ext k1 = ret k1" by (simp add: sample_ext_def)
  moreover have "syscall sample_ext F k1 = ret k3"
    using k1(1,2) a7 g(3) by (simp add: syscall_def syscalls_def Let_def tf_get_def tf_set_def sys_getpid_def
        k3_def in_kernel_def)
  moreover have "in_kernel sample_ext 1 k3" "table_ok sample_ext k3 []" "killed (procs (rb k3) 1) = 0"
    "currentRuntime (procs (rb k3) 1) = 3"
    using k1(1,2) getpid_machine_ok(2,3) g(4) p(3) by (simp_all add: k3_def in_kernel_def table_ok_def)
  ultimately have S: "?S F" using k1(4) by fastforce
  have "?T F \<and> ?O F" using timer other p(3) by (auto simp: csr_get_def sample_hw_def)
  with U S show "?T F \<and> ?O F \<and> ?U F \<and> ?S F" by blast
qed

lemma setkilled_ok:
  assumes "spin_ok E" "in_kernel E p k" "table_ok E k q"
  shows "\<exists>k'. setkilled E (Some p) k = ret k' \<and> in_kernel E p k' \<and> table_ok E k' q \<and>
    procs (rb k') = (procs (rb k))(p := killed_update (\<lambda>_. 1) (procs (rb k) p))"
proof -
  have l: "Proc_lock p \<notin> set (locks k)" using assms(2) by (simp add: in_kernel_def)
  define k1 where "k1 = put (killed_update (\<lambda>_. 1)) p (acq E (Proc_lock p) k)"
  have "stable (acq E (Proc_lock p) k) k1" by (simp add: k1_def)
  note sec = stable_section [OF assms(1) l this]
  have "table_ok E k1 q"
    unfolding k1_def by (rule table_ok_put_same) (use assms(3) in \<open>simp_all add: links_def\<close>)
  moreover have "in_kernel E p (rel E (Proc_lock p) k1)"
    by (rule in_kernel_stable [OF assms(2) sec(2)]) (use assms(2) in \<open>simp add: k1_def in_kernel_def\<close>)
  ultimately show ?thesis
    using acquire_ok(1) [OF assms(1) l] sec(1)
    by (intro exI [of _ "rel E (Proc_lock p) k1"])
      (simp add: setkilled_def acquire_p_def release_p_def k1_def)
qed

text \<open>
  C35. A trap for a cause the kernel does not know kills the process that took it, and a killed
  process that makes a system call is stopped before the call runs: the trap goes to \<open>exit(-1)\<close>
  with the killed flag set, no lock held and every other process as it was.
\<close>

theorem usertrap_kills:
  assumes "spin_ok E" and "in_kernel E p k" and "table_ok E k q"
    and "csr_get H Sstatus k AND SSTATUS_SPP H = 0" and "proc.trapframe (procs (rb k) p) = a"
    and "a \<noteq> 0" and "stvec_ok H"
    and "csr_get H Scause k \<notin> {8, 0x8000000000000005, 0x8000000000000009} \<or>
      csr_get H Scause k = 8 \<and> killed (procs (rb k) p) \<noteq> 0"
  shows "\<exists>k1. usertrap_body E F H k = exit E (- 1) k1 \<and> in_kernel E p k1 \<and> table_ok E k1 q \<and>
    killed (procs (rb k1) p) \<noteq> 0 \<and> (\<forall>j. j \<noteq> p \<longrightarrow> procs (rb k1) j = procs (rb k) j)"
proof -
  have me: "myproc k = Some p" and run: "state (procs (rb k) p) = RUNNING"
    using assms(2) by (simp_all add: in_kernel_def)
  define k0 where "k0 = entered H a k"
  note k0 = usertrap_entry(1-4) [OF assms(2-7), folded k0_def]
  have l0: "Proc_lock p \<notin> set (locks k0)" using k0(1) by (simp add: in_kernel_def)
  from assms(8) show ?thesis
  proof
    assume c: "csr_get H Scause k = 8 \<and> killed (procs (rb k) p) \<noteq> 0"
    obtain k1 where k1: "is_killed E (Some p) k0 = ret (killed (procs (rb k) p), k1)" "stable k0 k1" "rb k1 = rb k"
      using is_killed_ok [OF assms(1) l0] k0(4) by auto
    have "usertrap_body E F H k = exit E (- 1) k1"
      using assms(4-7) me c k1(1)
      by (simp add: usertrap_body_def Let_def tf_set_def csr_set_def csr_get_def mdo_def stvec_ok_def
          k0_def entered_def kbind_assoc kbind_exit)
    moreover have "in_kernel E p k1" "table_ok E k1 q"
      using in_kernel_stable [OF k0(1) k1(2)] run k1(3) k0(2,4) by (simp_all add: table_ok_def)
    ultimately show ?thesis using c k1(3) by (intro exI [of _ k1]) simp
  next
    assume c: "csr_get H Scause k \<notin> {8, 0x8000000000000005, 0x8000000000000009}"
    define k1 where "k1 = unexpected_trap E H (pid (procs (rb k) p)) k0"
    have k1: "in_kernel E p k1" "table_ok E k1 q" "rb k1 = rb k"
      using k0 by (simp_all add: k1_def unexpected_trap_def Let_def in_kernel_def table_ok_def)
    obtain k2 where k2: "setkilled E (Some p) k1 = ret k2" "in_kernel E p k2" "table_ok E k2 q"
      "procs (rb k2) = (procs (rb k))(p := killed_update (\<lambda>_. 1) (procs (rb k) p))"
      using setkilled_ok [OF assms(1) k1(1,2)] k1(3) by auto
    have "devintr E H k0 = ret (0, k0)" using c k0(3) by (simp add: devintr_def Let_def)
    then have body: "usertrap_body E F H k = usertrap_tail E (Some p) 0 k2"
      using usertrap_body_entered [OF assms(4) me assms(5,6), of E F] c assms(7) k2(1)
      by (simp add: k0_def [symmetric] stvec_ok_def csr_get_def [symmetric] k1_def [symmetric] k0(4))
    obtain k3 where k3: "usertrap_tail E (Some p) 0 k2 = exit E (- 1) k3" "stable k2 k3" "rb k3 = rb k2"
      using usertrap_tail_ok [OF assms(1) k2(2,3), of 0] k2(4) by auto
    have "in_kernel E p k3" "table_ok E k3 q"
      using in_kernel_stable [OF k2(2) k3(2)] run k2(3,4) k3(3) by (simp_all add: table_ok_def)
    then show ?thesis using body k3 k2(4) by (intro exI [of _ k3]) simp
  qed
qed

theorem usertrap_kills_witness:
  "\<forall>F. \<exists>k1. usertrap_body sample_ext F sample_hw (sample_machine 13 0) = exit sample_ext (- 1) k1 \<and>
    killed (procs (rb k1) 1) \<noteq> 0" (is "\<forall>F. ?P F")
proof
  fix F
  have p: "proc.trapframe (procs (rb (sample_machine 13 0)) 1) = 4096" "(4096 :: u64) \<noteq> 0"
      "csr_get sample_hw Sstatus (sample_machine 13 0) AND SSTATUS_SPP sample_hw = 0"
      "csr_get sample_hw Scause (sample_machine 13 0) \<notin> {8, 0x8000000000000005, 0x8000000000000009} \<or>
       csr_get sample_hw Scause (sample_machine 13 0) = 8 \<and>
       killed (procs (rb (sample_machine 13 0)) 1) \<noteq> 0"
    by (simp_all add: sample_procs_def csr_get_def sample_hw_def)
  show "?P F"
    using usertrap_kills [OF any_spin any_running any_table p(3,1,2) any_stvec p(4), of F] by blast
qed

end
