(* ===== verification/Cpu_Scheduler.thy ===== *)
theory Cpu_Scheduler
  imports Proc_Table
begin

text \<open>
  The scheduler thread of a hart: \<open>scheduler\<close> of \<open>proc.c\<close>. The inner loop takes processes from
  the ready tree until it is empty and runs each; the outer loop never ends, so it is given
  by the state after each number of rounds.
\<close>

text \<open>\<open>strncmp(name, b, 9) == 0\<close> for strings without a NUL character.\<close>

definition strncmp_eq :: "string \<Rightarrow> string \<Rightarrow> nat \<Rightarrow> bool" where
  "strncmp_eq s t n = (take n s = take n t)"

definition is_benchmark :: "string \<Rightarrow> bool" where
  "is_benchmark s = (strncmp_eq s ''benchmark2'' 9 \<or> strncmp_eq s ''benchmark3'' 9 \<or>
     strncmp_eq s ''benchmark1'' 9)"

definition set_cpu_proc :: "nat \<Rightarrow> ptr \<Rightarrow> 'm kernel \<Rightarrow> 'm kernel" where
  "set_cpu_proc h p k = k\<lparr>cpus := (cpus k)(h := (cpus k h)\<lparr>cpu_proc := p\<rparr>)\<rparr>"

text \<open>
  The body of the inner loop for a process: run it if it is runnable. \<open>switched_back\<close> is what
  follows the return of \<open>swtch\<close>.
\<close>

definition switched_back :: "'m ext \<Rightarrow> nat \<Rightarrow> ptr \<Rightarrow> u32 \<Rightarrow> 'm kernel \<Rightarrow> (bool \<times> 'm kernel) kres" where
  "switched_back E h p startTick k =
     kbind (acquire E Ticks_lock k) (\<lambda>k.
     let endTick = ticks k in
     kbind (release E Ticks_lock k) (\<lambda>k.
     kbind (pget name p k) (\<lambda>nm.
     kbind (pget pid p k) (\<lambda>n.
     let k = (if is_benchmark nm
              then mdo (printf E ''>>{p%d,s%d,e%d}''
                [Arg_int n, Arg_int (sint startTick), Arg_int (sint endTick)]) k else k) in
     ret (True, set_cpu_proc h None k)))))"

definition run_process :: "'m ext \<Rightarrow> nat \<Rightarrow> ptr \<Rightarrow> 'm kernel \<Rightarrow> (bool \<times> 'm kernel) kres" where
  "run_process E h p k =
     kbind (acquire_p E p k) (\<lambda>k.
     kbind (pget state p k) (\<lambda>st.
     kbind (if st = RUNNABLE then
         kbind (acquire E Ticks_lock k) (\<lambda>k.
         let startTick = ticks k in
         kbind (release E Ticks_lock k) (\<lambda>k.
         kbind (pset (state_update (\<lambda>_. RUNNING)) p k) (\<lambda>k.
         let k = set_cpu_proc h p k in
         kbind (swtch E (Ctx_cpu h) (Ctx_proc (the p)) k) (switched_back E h p startTick))))
       else ret (False, k)) (\<lambda>(ran, k).
     kbind (release_p E p k) (\<lambda>k. ret (ran, k)))))"

partial_function (option) run_ready ::
    "'m ext \<Rightarrow> nat \<Rightarrow> bool \<Rightarrow> 'm kernel \<Rightarrow> (bool \<times> 'm kernel) kres" where
  "run_ready E h found k =
     kbind (retrieve_ready E k) (\<lambda>(p, k).
     if p = None then ret (found, k)
     else kbind (run_process E h p k) (\<lambda>(ran, k). run_ready E h (found \<or> ran) k))"

text \<open>One round of the outer loop, and the state after \<open>n\<close> rounds.\<close>

definition scheduler_round :: "'m ext \<Rightarrow> nat \<Rightarrow> 'm kernel \<Rightarrow> 'm kernel kres" where
  "scheduler_round E h k =
     kbind (intr_on E k) (\<lambda>k.
     kbind (run_ready E h False k) (\<lambda>(found, k).
     if \<not> found then kbind (intr_on E k) (wfi E) else ret k))"

primrec scheduler_rounds :: "'m ext \<Rightarrow> nat \<Rightarrow> nat \<Rightarrow> 'm kernel \<Rightarrow> 'm kernel kres" where
  "scheduler_rounds E h 0 k = ret k"
| "scheduler_rounds E h (Suc n) k = kbind (scheduler_round E h k) (scheduler_rounds E h n)"

definition scheduler :: "'m ext \<Rightarrow> nat \<Rightarrow> 'm kernel \<Rightarrow> 'm kernel kres" where
  "scheduler E n k = (let h = cpuid k in scheduler_rounds E h n (set_cpu_proc h None k))"

end
