(* ===== verification/Cpu_Scheduler_Properties.thy ===== *)
theory Cpu_Scheduler_Properties
  imports Cpu_Scheduler Samples
begin

text \<open>
  The properties of the scheduler thread: what it hands to a process and takes back, what it
  logs, and what it does when there is nothing to run.
\<close>

text \<open>The end of a turn: the process lock is given back.\<close>

definition finish_turn :: "'m ext \<Rightarrow> nat \<Rightarrow> nat \<Rightarrow> u32 \<Rightarrow> 'm kernel \<Rightarrow> (bool \<times> 'm kernel) kres" where
  "finish_turn E h i t k = kbind (switched_back E h (Some i) t k) (\<lambda>(ran, k).
     kbind (release_p E (Some i) k) (\<lambda>k. ret (ran, k)))"

lemma set_cpu_proc_simps [simp]:
  "rb (set_cpu_proc h p k) = rb k" "locks (set_cpu_proc h p k) = locks k"
  "calls (set_cpu_proc h p k) = calls k" "ticks (set_cpu_proc h p k) = ticks k"
  "hart (set_cpu_proc h p k) = hart k" "mach (set_cpu_proc h p k) = mach k"
  "cpu_proc (cpus (set_cpu_proc h p k) h) = p"
  "g \<noteq> h \<Longrightarrow> cpus (set_cpu_proc h p k) g = cpus k g"
  by (simp_all add: set_cpu_proc_def locks_def)

lemma table_ok_set_cpu [simp]: "table_ok E (set_cpu_proc h p k) q = table_ok E k q"
  by (simp add: table_ok_def)

text \<open>A lock that is taken and given back with nothing in between.\<close>

definition pulse :: "'m ext \<Rightarrow> lock \<Rightarrow> 'm kernel \<Rightarrow> 'm kernel" where
  "pulse E l k = rel E l (acq E l k)"

lemma pulse_ok:
  assumes "spin_ok E" "l \<notin> set (locks k)"
  shows "kbind (acquire E l k) (\<lambda>k. f (ticks k) (release E l k)) = f (ticks k) (ret (pulse E l k))"
    "stable k (pulse E l k)" "rb (pulse E l k) = rb k"
    "calls (pulse E l k) = calls k @ [Acquire l, Release l]"
  using acquire_ok(1) [OF assms] stable_section [OF assms stable_refl]
    acquire_calls(1) [OF acquire_ok(1) [OF assms]]
    release_calls(1) [OF stable_section(1) [OF assms stable_refl]] by (simp_all add: pulse_def)

lemma run_process_ok:
  assumes E: "spin_ok E" and l: "Proc_lock i \<notin> set (locks k)" "Ticks_lock \<notin> set (locks k)"
    and t: "table_ok E k q" and i: "i \<notin> set q" "i < NPROC E"
  shows "if state (procs (rb k) i) = RUNNABLE
    then \<exists>k1. run_process E h (Some i) k =
        kbind (swtch E (Ctx_cpu h) (Ctx_proc i) k1) (finish_turn E h i (ticks k)) \<and>
      locks k1 = Proc_lock i # locks k \<and> cpu_proc (cpus k1 h) = Some i \<and> table_ok E k1 q \<and>
      procTree (rb k1) = procTree (rb k) \<and>
      procs (rb k1) = (procs (rb k))(i := state_update (\<lambda>_. RUNNING) (procs (rb k) i)) \<and>
      calls k1 = calls k @ [Acquire (Proc_lock i), Acquire Ticks_lock, Release Ticks_lock]
    else \<exists>k'. run_process E h (Some i) k = ret (False, k') \<and> stable k k' \<and> rb k' = rb k"
proof -
  note a = acquire_ok [OF E l(1)]
  define k0 where "k0 = acq E (Proc_lock i) k"
  have l0: "Ticks_lock \<notin> set (locks k0)" using a(2) l(2) by (simp add: k0_def)
  define k1 where "k1 = set_cpu_proc h (Some i) (put (state_update (\<lambda>_. RUNNING)) i (pulse E Ticks_lock k0))"
  note u = pulse_ok [OF E l0]
  note v = stable_views [OF u(2)]
  show ?thesis
  proof (cases "state (procs (rb k) i) = RUNNABLE")
    case True
    have t0: "table_ok E (pulse E Ticks_lock k0) q" using t by (simp add: pulse_def k0_def)
    have "table_ok E k1 q"
      unfolding k1_def table_ok_set_cpu
      by (rule table_ok_put [OF t0 i(1)])
        (use table_ok_queue(6) [OF t0 i(2,1)] in \<open>simp add: insertable_def\<close>)
    moreover have "run_process E h (Some i) k =
        kbind (swtch E (Ctx_cpu h) (Ctx_proc i) k1) (finish_turn E h i (ticks k))"
      using True a(1) u(1) [of "\<lambda>t m. kbind m (\<lambda>k. kbind (pset (state_update (\<lambda>_. RUNNING)) (Some i) k) (\<lambda>k.
          kbind (swtch E (Ctx_cpu h) (Ctx_proc i) (set_cpu_proc h (Some i) k)) (switched_back E h (Some i) t)))"]
      by (simp add: run_process_def acquire_p_def k0_def [symmetric] Let_def k1_def kbind_assoc
          finish_turn_def [abs_def]) (simp add: k0_def)
    ultimately show ?thesis
      using True v a u(3,4) acquire_calls(1) [OF a(1)]
      by (intro if_P [THEN iffD2] exI [of _ k1]) (simp_all add: k1_def k0_def)
  next
    case False
    note sec = stable_section [OF E l(1) stable_refl]
    show ?thesis
      using False a(1) sec by (simp add: run_process_def acquire_p_def release_p_def)
  qed
qed

text \<open>What the kernel prints when a process leaves the CPU.\<close>

definition log_line :: "'m ext \<Rightarrow> proc \<Rightarrow> u32 \<Rightarrow> u32 \<Rightarrow> 'm \<Rightarrow> 'm" where
  "log_line E p t0 t1 m = (if is_benchmark (name p) then printf E ''>>{p%d,s%d,e%d}''
     [Arg_int (pid p), Arg_int (sint t0), Arg_int (sint t1)] m else m)"

lemma finish_turn_ok:
  assumes E: "spin_ok E" and l: "locks k = [Proc_lock i]"
  shows "\<exists>k'. finish_turn E h i t k = ret (True, k') \<and> locks k' = [] \<and> rb k' = rb k \<and>
    cpu_proc (cpus k' h) = None \<and> (\<forall>g. g \<noteq> h \<longrightarrow> cpu_proc (cpus k' g) = cpu_proc (cpus k g)) \<and>
    mach k' = log_line E (procs (rb k) i) t (ticks k) (mach k)"
proof -
  have lt: "Ticks_lock \<notin> set (locks k)" using l by simp
  note u = pulse_ok [OF E lt]
  note v = stable_views [OF u(2)]
  define k0 where "k0 = pulse E Ticks_lock k"
  define k1 where "k1 = set_cpu_proc h None (if is_benchmark (name (procs (rb k) i))
    then mdo (printf E ''>>{p%d,s%d,e%d}'' [Arg_int (pid (procs (rb k) i)), Arg_int (sint t),
      Arg_int (sint (ticks k))]) k0 else k0)"
  have sb: "switched_back E h (Some i) t k = ret (True, k1)"
    using u(1) [of "\<lambda>t1 m. kbind m (\<lambda>k. kbind (pget name (Some i) k) (\<lambda>nm. kbind (pget pid (Some i) k) (\<lambda>n.
      ret (True, set_cpu_proc h None (if is_benchmark nm then mdo (printf E ''>>{p%d,s%d,e%d}''
        [Arg_int n, Arg_int (sint t), Arg_int (sint t1)]) k else k)))))"] u(3)
    by (simp add: switched_back_def Let_def k1_def k0_def)
  have l1: "locks k1 = [Proc_lock i]" using v(1) l by (simp add: k1_def k0_def)
  have d: "rb k1 = rb k" "mach k1 = log_line E (procs (rb k) i) t (ticks k) (mach k)"
    using v(10) u(3) by (simp_all add: k1_def k0_def log_line_def)
  have m: "Proc_lock i \<in> set (locks k1)" using l1 by simp
  note r = release_ok [OF E m]
  have c: "cpu_proc (cpus k1 h) = None" "g \<noteq> h \<Longrightarrow> cpu_proc (cpus k1 g) = cpu_proc (cpus k g)" for g
    using u(2) by (simp_all add: k1_def k0_def stable_def)
  show ?thesis
    using sb r l1 c d
    by (intro exI [of _ "rel E (Proc_lock i) k1"]) (simp add: finish_turn_def release_p_def)
qed

text \<open>
  C36. A turn of the scheduler. A process that is not runnable is left alone. A runnable one is
  marked running on this hart and entered through \<open>swtch\<close> with its lock, and no other, held.
  When it switches back, holding that lock, the turn ends: the hart has no current process, no
  lock is held, and exactly one line \<open>>>{p,s,e}\<close> is printed if its name begins with
  \<open>benchmark\<close>, none otherwise. The table and the ready tree are as the process left them. Here
  the README tells another story: that the scheduler updates the virtual runtime of a process
  that switches back and reinserts it (the code does both where the process becomes runnable, in
  \<open>yield\<close>, \<open>wakeup\<close> and \<open>kill\<close>, before the switch), and that a \<open>[SWITCH]\<close> line with times, pids and
  states is logged at every context switch.
\<close>

theorem run_process_correct:
  assumes "spin_ok E" and "locks k = []" and "table_ok E k q" and "i \<notin> set q" and "i < NPROC E"
  shows "(state (procs (rb k) i) \<noteq> RUNNABLE \<longrightarrow>
      (\<exists>k'. run_process E h (Some i) k = ret (False, k') \<and> locks k' = [] \<and> rb k' = rb k)) \<and>
    (state (procs (rb k) i) = RUNNABLE \<longrightarrow>
      (\<exists>k1. run_process E h (Some i) k =
          kbind (swtch E (Ctx_cpu h) (Ctx_proc i) k1) (finish_turn E h i (ticks k)) \<and>
        locks k1 = [Proc_lock i] \<and> cpu_proc (cpus k1 h) = Some i \<and> table_ok E k1 q \<and>
        procs (rb k1) = (procs (rb k))(i := state_update (\<lambda>_. RUNNING) (procs (rb k) i)))) \<and>
    (locks k2 = [Proc_lock i] \<longrightarrow>
      (\<exists>k3. finish_turn E h i (ticks k) k2 = ret (True, k3) \<and> locks k3 = [] \<and> rb k3 = rb k2 \<and>
        cpu_proc (cpus k3 h) = None \<and>
        mach k3 = log_line E (procs (rb k2) i) (ticks k) (ticks k2) (mach k2)))"
proof (intro conjI impI)
  have l: "Proc_lock i \<notin> set (locks k)" "Ticks_lock \<notin> set (locks k)" using assms(2) by simp_all
  note r = run_process_ok [OF assms(1) l assms(3-5), of h]
  {
    assume "state (procs (rb k) i) \<noteq> RUNNABLE"
    then obtain k' where "run_process E h (Some i) k = ret (False, k')" "stable k k'" "rb k' = rb k"
      using r by auto
    then show "\<exists>k'. run_process E h (Some i) k = ret (False, k') \<and> locks k' = [] \<and> rb k' = rb k"
      using assms(2) stable_views(1) by fastforce
  next
    assume "state (procs (rb k) i) = RUNNABLE"
    then show "\<exists>k1. run_process E h (Some i) k =
          kbind (swtch E (Ctx_cpu h) (Ctx_proc i) k1) (finish_turn E h i (ticks k)) \<and>
        locks k1 = [Proc_lock i] \<and> cpu_proc (cpus k1 h) = Some i \<and> table_ok E k1 q \<and>
        procs (rb k1) = (procs (rb k))(i := state_update (\<lambda>_. RUNNING) (procs (rb k) i))"
      using r assms(2) by auto
  next
    assume "locks k2 = [Proc_lock i]"
    then show "\<exists>k3. finish_turn E h i (ticks k) k2 = ret (True, k3) \<and> locks k3 = [] \<and> rb k3 = rb k2 \<and>
        cpu_proc (cpus k3 h) = None \<and> mach k3 = log_line E (procs (rb k2) i) (ticks k) (ticks k2) (mach k2)"
      using finish_turn_ok [OF assms(1)] by blast
  }
qed

theorem run_process_correct_witness:
  "\<exists>k k1. run_process sample_env 1 (Some 2) k =
      kbind (swtch sample_env (Ctx_cpu 1) (Ctx_proc 2) k1) (finish_turn sample_env 1 2 0) \<and>
    locks k1 = [Proc_lock 2] \<and> cpu_proc (cpus k1 1) = Some 2 \<and> state (procs (rb k1) 2) = RUNNING"
proof -
  define k where "k = put (state_update (\<lambda>_. RUNNABLE)) 2 sample_kernel"
  have t: "table_ok sample_env k []"
    unfolding k_def by (rule table_ok_put [OF sample_table]) (simp_all add: sample_procs_def blank_proc_def)
  have k: "locks k = []" "(2 :: nat) \<notin> set []" "(2 :: nat) < NPROC sample_env"
    "state (procs (rb k) 2) = RUNNABLE" "ticks k = 0"
    by (simp_all add: k_def)
  obtain k1 where "run_process sample_env 1 (Some 2) k =
      kbind (swtch sample_env (Ctx_cpu 1) (Ctx_proc 2) k1) (finish_turn sample_env 1 2 (ticks k))"
    "locks k1 = [Proc_lock 2]" "cpu_proc (cpus k1 1) = Some 2"
    "procs (rb k1) = (procs (rb k))(2 := state_update (\<lambda>_. RUNNING) (procs (rb k) 2))"
    using run_process_correct [OF sample_spin k(1) t k(2,3), of 1 k] k(4) by blast
  then show ?thesis using k(5) by (intro exI [of _ k] exI [of _ k1]) simp
qed

end
