(* ===== verification/Lock_Order.thy ===== *)
theory Lock_Order
  imports Cpu_Scheduler_Properties Trap_Properties Spin_Locks
begin

text \<open>
  The order in which locks are taken, in the interleavings of the calls of the code that
  \<open>Spin_Locks\<close> describes. \<open>scheduler\<close> and \<open>clockintr\<close>
  take a process lock and \<open>tickslock\<close> in opposite orders.
\<close>

section \<open>The calls of the code\<close>

lemma insert_ready_calls:
  "insert_ready E p k = ret k' \<Longrightarrow> calls k' = calls k @ [Acquire Tree_lock, Release Tree_lock]"
  by (auto simp: insert_ready_def kbind_eq_ret dest!: acquire_calls(1) release_calls(1))

lemma put_calls: "pset u p k = ret k' \<Longrightarrow> calls k' = calls k"
  by (cases p) auto

lemma insert_ready_myproc:
  assumes "spin_ok E" "Tree_lock \<notin> set (locks k)" "insert_ready E p k = ret k'"
  shows "myproc k' = myproc k" "locks k' = locks k"
proof -
  note a = acquire_ok [OF assms(1,2)]
  obtain s where s: "release E Tree_lock ((acq E Tree_lock k)\<lparr>rb := s\<rparr>) = ret k'"
    using assms(3) a(1) by (auto simp: insert_ready_def kbind_eq_ret)
  have "Tree_lock \<in> set (locks ((acq E Tree_lock k)\<lparr>rb := s\<rparr>))" using a(2) by simp
  note r = release_ok [OF assms(1) this]
  show "myproc k' = myproc k" "locks k' = locks k" using r s a by auto
qed

text \<open>What \<open>wakeup\<close> calls for one process: its lock, and the tree lock inside if it is woken.\<close>

fun block :: "nat \<times> bool \<Rightarrow> event list" where
  "block (j, woken) = Acquire (Proc_lock j) #
     (if woken then [Acquire Tree_lock, Release Tree_lock] else []) @ [Release (Proc_lock j)]"

lemma wakeup_scan_calls:
  assumes "spin_ok E" "\<forall>j \<in> set is. Proc_lock j \<notin> set (locks k)" "Tree_lock \<notin> set (locks k)"
    "wakeup_scan E ch is k = ret k'"
  shows "\<exists>ds. map fst ds = filter (\<lambda>j. Some j \<noteq> myproc k) is \<and> calls k' = calls k @ concat (map block ds)"
  using assms(2-)
proof (induction "is" arbitrary: k)
  case Nil
  then show ?case by simp
next
  case (Cons i "is")
  show ?case
  proof (cases "Some i = myproc k")
    case True
    then show ?thesis using Cons by simp
  next
    case False
    then obtain ka kb kc where r: "acquire E (Proc_lock i) k = ret ka"
      "(if state (procs (rb ka) i) = SLEEPING \<and> chan (procs (rb ka) i) = ch then
          kbind (pset make_runnable (Some i) ka) (insert_ready E (Some i)) else ret ka) = ret kb"
      "release E (Proc_lock i) kb = ret kc" "wakeup_scan E ch is kc = ret k'"
      using Cons.prems(3) by (auto simp: kbind_eq_ret simp del: pset_simps)
    define w where "w = (state (procs (rb ka) i) = SLEEPING \<and> chan (procs (rb ka) i) = ch)"
    have ka: "calls ka = calls k @ [Acquire (Proc_lock i)]" "myproc ka = myproc k"
      using acquire_calls(1) [OF r(1)] acquire_ok(1,4) [OF assms(1), of "Proc_lock i" k] Cons.prems(1) r(1)
      by simp_all
    have kb: "calls kb = calls ka @ (if w then [Acquire Tree_lock, Release Tree_lock] else [])"
      using r(2) unfolding w_def [symmetric]
      by (cases w) (auto simp: kbind_eq_ret dest: insert_ready_calls)
    have lk: "Tree_lock \<notin> set (locks ka)" using acquire_calls(2) [OF r(1)] Cons.prems(2) by simp
    have mb: "myproc kb = myproc ka \<and> locks kb = locks ka"
    proof (cases w)
      case True
      then have "insert_ready E (Some i) (put make_runnable i ka) = ret kb"
        using r(2) unfolding w_def [symmetric] by simp
      then show ?thesis
        using insert_ready_myproc [OF assms(1), of "put make_runnable i ka"] lk by auto
    qed (use r(2) in \<open>simp_all add: w_def [symmetric]\<close>)
    have "Proc_lock i \<in> set (locks kb)" using mb acquire_calls(2) [OF r(1)] by simp
    note rel = release_ok [OF assms(1) this]
    have kc: "calls kc = calls k @ block (i, w)" "myproc kc = myproc k" "locks kc = locks k"
      using release_calls [OF r(3)] kb ka mb acquire_calls(2) [OF r(1)] rel(1,4) r(3) by simp_all
    obtain ds where "map fst ds = filter (\<lambda>j. Some j \<noteq> myproc k) is"
      "calls k' = calls kc @ concat (map block ds)"
      using Cons.IH [of kc] Cons.prems(1,2) r(4) kc(2,3) by auto
    then show ?thesis using False kc(1) by (intro exI [of _ "(i, w) # ds"]) simp
  qed
qed

text \<open>
  The calls of a clock interrupt on hart 0: \<open>tickslock\<close>, then every process lock but the one of
  the current process, in the order of the table, then the release of \<open>tickslock\<close>.
\<close>

lemma clockintr_calls:
  assumes E: "spin_ok E" and l: "locks k = []" and t: "table_ok E k q" and h: "hart k = 0"
  shows "\<exists>k' ds. clockintr E H k = ret k' \<and>
    map fst ds = filter (\<lambda>j. Some j \<noteq> myproc k) [0..<NPROC E] \<and>
    calls k' = calls k @ Acquire Ticks_lock # concat (map block ds) @ [Release Ticks_lock]"
proof -
  have f: "proc_free k" "Ticks_lock \<notin> set (locks k)" using l by (simp_all add: proc_free_def)
  obtain k' where k': "clockintr E H k = ret k'" using clockintr_ok [OF E f t] by blast
  then obtain ka kb kc where r: "acquire E Ticks_lock k = ret ka"
    "wakeup_scan E (Some Ch_ticks) [0..<NPROC E] (ka\<lparr>ticks := ticks ka + 1\<rparr>) = ret kb"
    "release E Ticks_lock kb = ret kc" "calls k' = calls kc"
    using h by (auto simp: clockintr_def cpuid_def wakeup_def kbind_eq_ret csr_set_def)
  have ka: "calls ka = calls k @ [Acquire Ticks_lock]" "myproc ka = myproc k" "locks ka = [Ticks_lock]"
    using acquire_calls [OF r(1)] acquire_ok(1,4) [OF E f(2)] r(1) l by simp_all
  obtain ds where "map fst ds = filter (\<lambda>j. Some j \<noteq> myproc k) [0..<NPROC E]"
    "calls kb = calls ka @ concat (map block ds)"
    using wakeup_scan_calls [OF E _ _ r(2)] ka by auto
  then show ?thesis
    using k' release_calls(1) [OF r(3)] r(4) ka(1) by (intro exI [of _ k'] exI [of _ ds]) simp
qed

section \<open>Deadlock\<close>

text \<open>Blocks for other processes leave the locks of a hart as they were and take no lock of \<open>i\<close>.\<close>

lemma flows_blocks:
  assumes "set ls \<inter> (insert Tree_lock (Proc_lock ` fst ` set ds)) = {}"
  shows "flows ls (concat (map block ds)) \<and> held (concat (map block ds)) ls = ls"
  using assms
proof (induction ds)
  case Nil
  then show ?case by simp
next
  case (Cons d ds)
  obtain j w where d: "d = (j, w)" by (cases d)
  have "flows ls (block d) \<and> held (block d) ls = ls"
    using Cons.prems by (auto simp: d)
  then show ?case using Cons by (simp add: flows_append)
qed

lemma blocks_locks: "Acquire l \<in> set (concat (map block ds)) \<Longrightarrow>
    l = Tree_lock \<or> (\<exists>j \<in> fst ` set ds. l = Proc_lock j)"
  by (force split: if_splits)

text \<open>
  Two harts that cross: one makes the calls of the scheduler for process \<open>i\<close>, hart 0 those of a
  clock interrupt that visits \<open>i\<close>.
\<close>

lemma crossing_deadlock:
  assumes h: "h \<noteq> 0" and i: "i \<in> fst ` set ds"
    and t0: "tr0 = Acquire Ticks_lock # concat (map block ds) @ [Release Ticks_lock]"
    and t1: "tr1 = [Acquire (Proc_lock i), Acquire Ticks_lock, Release Ticks_lock]"
  shows "\<exists>s. reachable (\<lambda>s. s = (\<lambda>_. ([], []))(0 := ([], tr0), h := ([], tr1))) advance s \<and>
    exclusive s \<and> stuck s \<and> Ticks_lock \<in> holds s 0 \<and> Proc_lock i \<in> holds s h"
proof -
  have "i \<in> set (map fst ds)" using i by simp
  then obtain ys zs where "map fst ds = ys @ i # zs" "i \<notin> set ys" using split_list_first by metis
  then obtain pre w post where ds: "ds = pre @ (i, w) # post" "i \<notin> fst ` set pre"
    by (auto simp: map_eq_append_conv map_eq_Cons_conv)
  define start :: harts where "start = (\<lambda>_. ([], []))(0 := ([], tr0), h := ([], tr1))"
  define rest where "rest = tl (block (i, w)) @ concat (map block post) @ [Release Ticks_lock]"
  define mine where "mine = Acquire Ticks_lock # concat (map block pre)"
  define s1 where "s1 = start(h := ([Acquire (Proc_lock i)], [Acquire Ticks_lock, Release Ticks_lock]))"
  define s where "s = s1(0 := (mine, Acquire (Proc_lock i) # rest))"
  have c0: "tr0 = mine @ Acquire (Proc_lock i) # rest"
    unfolding t0 ds mine_def rest_def by simp
  have "reachable (\<lambda>s. s = start) advance (start(h := (fst (start h) @ [Acquire (Proc_lock i)],
      [Acquire Ticks_lock, Release Ticks_lock])))"
    by (rule run_alone) (use h t1 in \<open>auto simp: start_def holds_def intro: reachable.start\<close>)
  then have r1: "reachable (\<lambda>s. s = start) advance s1" by (simp add: s1_def start_def)
  have blocks: "flows [Ticks_lock] (concat (map block pre)) \<and> held (concat (map block pre)) [Ticks_lock] = [Ticks_lock]"
    by (rule flows_blocks) auto
  have at0: "s1 0 = ([], tr0)" using h by (simp add: s1_def start_def)
  have "reachable (\<lambda>s. s = start) advance (s1(0 := (fst (s1 0) @ mine, Acquire (Proc_lock i) # rest)))"
  proof (rule run_alone [OF r1])
    show "snd (s1 0) = mine @ Acquire (Proc_lock i) # rest" using at0 c0 by simp
    show "flows (held (fst (s1 0)) []) mine" using at0 blocks by (simp add: mine_def)
  next
    fix l and g :: nat
    assume "Acquire l \<in> set mine" "g \<noteq> 0"
    then have "l \<noteq> Proc_lock i" using ds(2) blocks_locks [of l pre] by (auto simp: mine_def)
    then show "l \<notin> holds s1 g" using \<open>g \<noteq> 0\<close> by (auto simp: s1_def start_def holds_def)
  qed
  then have r: "reachable (\<lambda>s. s = start) advance s" using at0 by (simp add: s_def)
  have H: "holds s 0 = {Ticks_lock}" "holds s h = {Proc_lock i}"
    using blocks h by (simp_all add: s_def s1_def mine_def holds_def)
  have no: "\<not> advance s s'" for s'
  proof
    assume "advance s s'"
    then obtain g e es where g: "snd (s g) = e # es" "\<forall>l. e = Acquire l \<longrightarrow> (\<forall>g'. l \<notin> holds s g')"
      by cases auto
    have "g = 0 \<or> g = h" using g(1) by (rule contrapos_pp) (simp add: s_def s1_def start_def)
    then show False
    proof
      assume "g = 0"
      then have "e = Acquire (Proc_lock i)" using g(1) by (simp add: s_def)
      then show False using g(2) H(2) by blast
    next
      assume "g = h"
      then have "e = Acquire Ticks_lock" using g(1) h by (simp add: s_def s1_def)
      then show False using g(2) H(1) by blast
    qed
  qed
  have "snd (s 0) \<noteq> []" by (simp add: s_def)
  then have "stuck s" using no unfolding stuck_def by blast
  moreover have "exclusive s"
    by (rule reachable_exclusive [OF r]) (simp add: start_def)
  ultimately show ?thesis
    using r H unfolding start_def by (intro conjI exI [of _ s]) simp_all
qed
text \<open>
  C37. A clock interrupt on hart 0 and the scheduler of another hart can deadlock: the
  scheduler takes the lock of a runnable process and then \<open>tickslock\<close>, the interrupt takes
  \<open>tickslock\<close> and then, in \<open>wakeup\<close>, the lock of every process that is not running on hart 0. For
  any such process some interleaving of the calls the code makes leaves each hart spinning on
  a lock the other holds, for ever. (No two harts hold the same lock on the way.)
\<close>

theorem lock_order_deadlock:
  assumes "spin_ok E" and "h \<noteq> 0"
    and "hart k0 = 0" and "calls k0 = []" and "table_ok E k0 q0" and "myproc k0 \<noteq> Some i"
    and "calls k = []" and "table_ok E k q" and "i < NPROC E" and "i \<notin> set q"
    and "state (procs (rb k) i) = RUNNABLE"
  shows "\<exists>k0' k1. clockintr E H k0 = ret k0' \<and>
    run_process E h (Some i) k = kbind (swtch E (Ctx_cpu h) (Ctx_proc i) k1) (finish_turn E h i (ticks k)) \<and>
    (\<exists>s. reachable (\<lambda>s. s = (\<lambda>_. ([], []))(0 := ([], calls k0'), h := ([], calls k1))) advance s \<and>
      exclusive s \<and> stuck s \<and> Ticks_lock \<in> holds s 0 \<and> Proc_lock i \<in> holds s h)"
proof -
  have l: "locks k0 = []" "locks k = []" using assms(4,7) by (simp_all add: locks_def)
  obtain k0' ds where k0': "clockintr E H k0 = ret k0'"
    "map fst ds = filter (\<lambda>j. Some j \<noteq> myproc k0) [0..<NPROC E]"
    "calls k0' = Acquire Ticks_lock # concat (map block ds) @ [Release Ticks_lock]"
    using clockintr_calls [OF assms(1) l(1) assms(5,3), of H] assms(4) by auto
  have lk: "Proc_lock i \<notin> set (locks k)" "Ticks_lock \<notin> set (locks k)" using l(2) by simp_all
  obtain k1 where k1: "run_process E h (Some i) k =
      kbind (swtch E (Ctx_cpu h) (Ctx_proc i) k1) (finish_turn E h i (ticks k))"
    "calls k1 = [Acquire (Proc_lock i), Acquire Ticks_lock, Release Ticks_lock]"
    using run_process_ok [OF assms(1) lk assms(8,10,9), of h] assms(7,11) by auto
  have "i \<in> set (map fst ds)" unfolding k0'(2) using assms(6,9) by auto
  then have "i \<in> fst ` set ds" by simp
  from crossing_deadlock [OF assms(2) this k0'(3) k1(2)] show ?thesis using k0'(1) k1(1) by blast
qed

theorem lock_order_deadlock_witness:
  "\<exists>(k0 :: (csr \<Rightarrow> u64) kernel) (k :: (csr \<Rightarrow> u64) kernel) k0' k1 s. clockintr sample_ext sample_hw k0 = ret k0' \<and>
    run_process sample_ext 1 (Some 2) k =
      kbind (swtch sample_ext (Ctx_cpu 1) (Ctx_proc 2) k1) (finish_turn sample_ext 1 2 (ticks k)) \<and>
    reachable (\<lambda>s. s = (\<lambda>_. ([], []))(0 := ([], calls k0'), 1 := ([], calls k1))) advance s \<and> stuck s"
proof -
  define k0 :: "(csr \<Rightarrow> u64) kernel" where "k0 = sample_at (\<lambda>_. 0)"
  define k where "k = put (state_update (\<lambda>_. RUNNABLE)) 2 k0"
  have t0: "table_ok sample_ext k0 []" unfolding k0_def by (rule any_table)
  have t: "table_ok sample_ext k []"
    unfolding k_def by (rule table_ok_put [OF t0]) (simp_all add: k0_def sample_procs_def blank_proc_def)
  have c: "hart k0 = 0" "calls k0 = []" "myproc k0 \<noteq> Some 2" "calls k = []" "(1 :: nat) \<noteq> 0"
    "(2 :: nat) < NPROC sample_ext" "(2 :: nat) \<notin> set []" "state (procs (rb k) 2) = RUNNABLE"
    by (simp_all add: k_def k0_def) (simp_all add: sample_at_def)
  obtain k0' k1 s where r: "clockintr sample_ext sample_hw k0 = ret k0'"
    "run_process sample_ext 1 (Some 2) k =
      kbind (swtch sample_ext (Ctx_cpu 1) (Ctx_proc 2) k1) (finish_turn sample_ext 1 2 (ticks k))"
    "reachable (\<lambda>s. s = (\<lambda>_. ([], []))(0 := ([], calls k0'), 1 := ([], calls k1))) advance s" "stuck s"
    using lock_order_deadlock [OF any_spin c(5,1,2) t0 c(3,4) t c(6,7,8), of sample_hw] by blast
  show ?thesis
    by (rule exI [of _ k0], rule exI [of _ k], rule exI [of _ k0'], rule exI [of _ k1], rule exI [of _ s])
      (intro conjI r)
qed

end
