(* ===== verification/Debug_Output.thy ===== *)
theory Debug_Output
  imports Proc_Table Decimal
begin

text \<open>
  The debugging output of \<open>proc.c\<close>: \<open>log_cpu_state\<close>, which builds a line in a fixed buffer,
  character by character, and \<open>procdump\<close>. Writing past the end of an array is the outcome
  \<open>Out_of_bounds\<close>.
\<close>

section \<open>log_cpu_state\<close>

text \<open>\<open>buffer[index++] = c\<close> for a buffer of the given size, of which the first characters are written.\<close>

definition put_char :: "nat \<Rightarrow> char \<Rightarrow> string \<Rightarrow> string kres" where
  "put_char bytes c b = (if length b < bytes then ret (b @ [c]) else err Out_of_bounds)"

primrec put_chars :: "nat \<Rightarrow> string \<Rightarrow> string \<Rightarrow> string kres" where
  "put_chars bytes [] b = ret b"
| "put_chars bytes (c # cs) b = kbind (put_char bytes c b) (put_chars bytes cs)"

text \<open>The digits of the tick number into \<open>tick_str\<close>, the last one first.\<close>

function tick_digits :: "u64 \<Rightarrow> string \<Rightarrow> string kres" where
  "tick_digits temp_tick str =
     (if temp_tick > 0
      then kbind (put_char 12 (char_of (unat (temp_tick mod 10) + 48)) str) (tick_digits (temp_tick div 10))
      else ret str)"
  by auto

termination
  by (relation "measure (\<lambda>(t, _). unat t)") (auto simp: word_less_nat_alt unat_div)

declare tick_digits.simps [simp del]

text \<open>The loop that reverses \<open>tick_str\<close> in place.\<close>

function reverse_tick :: "nat \<Rightarrow> string \<Rightarrow> string" where
  "reverse_tick i str =
     (if i < length str div 2
      then reverse_tick (i + 1) (str[i := str ! (length str - i - 1), length str - i - 1 := str ! i])
      else str)"
  by auto

termination
  by (relation "measure (\<lambda>(i, str). length str - i)") auto

declare reverse_tick.simps [simp del]

definition tick_string :: "u64 \<Rightarrow> string kres" where
  "tick_string temp_tick =
     (if temp_tick = 0 then put_char 12 (CHR ''0'') []
      else kbind (tick_digits temp_tick []) (\<lambda>str. ret (reverse_tick 0 str)))"

definition state_char :: "procstate \<Rightarrow> char" where
  "state_char st = (case st of SLEEPING \<Rightarrow> CHR ''S'' | RUNNABLE \<Rightarrow> CHR ''Q'' | RUNNING \<Rightarrow> CHR ''R''
     | ZOMBIE \<Rightarrow> CHR ''Z'' | UNUSED \<Rightarrow> CHR ''X'' | USED \<Rightarrow> CHR ''U'')"

primrec put_states :: "nat \<Rightarrow> nat list \<Rightarrow> 'm kernel \<Rightarrow> string \<Rightarrow> string kres" where
  "put_states bytes [] k b = ret b"
| "put_states bytes (i # is) k b =
     kbind (put_char bytes (state_char (state (procs (rb k) i))) b) (put_states bytes is k)"

definition log_cpu_state :: "'m ext \<Rightarrow> ptr \<Rightarrow> 'm kernel \<Rightarrow> 'm kernel kres" where
  "log_cpu_state E p k =
     kbind (acquire E Ticks_lock k) (\<lambda>k.
     let current_tick = (ucast (ticks k) :: u64) in
     kbind (release E Ticks_lock k) (\<lambda>k.
     let bytes = NPROC E + 20 in
     kbind (put_chars bytes [CHR 0x0A, CHR ''>'', CHR ''>''] []) (\<lambda>buffer.
     kbind (tick_string current_tick) (\<lambda>tick_str.
     kbind (put_chars bytes tick_str buffer) (\<lambda>buffer.
     kbind (put_char bytes (CHR ''{'') buffer) (\<lambda>buffer.
     kbind (put_states bytes [0..<NPROC E] k buffer) (\<lambda>buffer.
     kbind (put_char bytes (CHR ''}'') buffer) (\<lambda>buffer.
     kbind (put_char bytes (CHR 0x00) buffer) (\<lambda>buffer.
     ret (mdo (printf E ''%s'' [Arg_str (takeWhile (\<lambda>c. c \<noteq> CHR 0x00) buffer)]) k))))))))))"

section \<open>procdump\<close>

definition state_name :: "procstate \<Rightarrow> string" where
  "state_name st = (case st of UNUSED \<Rightarrow> ''unused'' | USED \<Rightarrow> ''used'' | SLEEPING \<Rightarrow> ''sleep ''
     | RUNNABLE \<Rightarrow> ''runble'' | RUNNING \<Rightarrow> ''run   '' | ZOMBIE \<Rightarrow> ''zombie'')"

primrec dump_scan :: "'m ext \<Rightarrow> nat list \<Rightarrow> 'm kernel \<Rightarrow> 'm kernel" where
  "dump_scan E [] k = k"
| "dump_scan E (i # is) k =
     (let p = procs (rb k) i in
      if state p = UNUSED then dump_scan E is k
      else dump_scan E is
        (mdo (printf E [CHR 0x0A] [])
          (mdo (printf E ''%d %s %s'' [Arg_int (pid p), Arg_str (state_name (state p)), Arg_str (name p)]) k)))"

definition procdump :: "'m ext \<Rightarrow> 'm kernel \<Rightarrow> 'm kernel" where
  "procdump E k = dump_scan E [0..<NPROC E] (mdo (printf E [CHR 0x0A] []) k)"

end
