(* ===== verification/Debug_Properties.thy ===== *)
theory Debug_Properties
  imports Debug_Output Samples
begin

text \<open>
  The properties of the debugging output: the line that \<open>log_cpu_state\<close> builds never overruns its
  buffers and can be read back.
\<close>

lemma put_chars_ok [simp]:
  "length b + length cs \<le> n \<Longrightarrow> put_chars n cs b = ret (b @ cs)"
  by (induction cs arbitrary: b) (auto simp: put_char_def)

lemma put_states_ok [simp]:
  "length b + length is \<le> n \<Longrightarrow>
    put_states n is k b = ret (b @ map (\<lambda>i. state_char (state (procs (rb k) i))) is)"
  by (induction "is" arbitrary: b) (auto simp: put_char_def)

lemma tick_digits_ok:
  "length str + length (decimal (unat t)) \<le> 12 \<Longrightarrow> 0 < t \<Longrightarrow>
    tick_digits t str = ret (str @ rev (decimal (unat t)))"
proof (induction t str rule: tick_digits.induct)
  case (1 t str)
  have u: "unat (t div 10) = unat t div 10" "unat (t mod 10) = unat t mod 10"
    by (simp_all add: unat_div unat_mod_distrib)
  have pos: "0 < unat t" using 1(3) by (simp add: word_less_nat_alt)
  define c where "c = digit (unat t mod 10)"
  have c: "char_of (unat (t mod 10) + 48) = c" by (simp add: c_def digit_def u add.commute)
  have room: "length str < 12" using 1(2) by (cases "decimal (unat t)") auto
  show ?case
  proof (cases "unat t < 10")
    case True
    then have "t div 10 = 0" using u(1) by (simp add: unat_eq_zero [symmetric])
    moreover have "decimal (unat t) = [c]" using True by (subst decimal.simps) (simp add: c_def)
    ultimately show ?thesis using 1(3) room
      by (subst tick_digits.simps) (simp add: put_char_def c, subst tick_digits.simps, simp)
  next
    case False
    then have d: "decimal (unat t) = decimal (unat (t div 10)) @ [c]"
      by (subst decimal.simps) (simp add: c_def u)
    have "0 < t div 10" using False u(1) by (simp add: word_less_nat_alt)
    moreover have "length (str @ [c]) + length (decimal (unat (t div 10))) \<le> 12" using 1(2) d by simp
    ultimately have "tick_digits (t div 10) (str @ [c]) = ret ((str @ [c]) @ rev (decimal (unat (t div 10))))"
      using 1(1,3) c by blast
    then show ?thesis using 1(3) room d by (subst tick_digits.simps) (simp add: put_char_def c)
  qed
qed

lemma reverse_tick_partial:
  "length str = length s \<Longrightarrow> i \<le> length s div 2 \<Longrightarrow>
    (\<And>j. j < length s \<Longrightarrow> str ! j = (if j < i \<or> length s - i \<le> j then s ! (length s - j - 1) else s ! j)) \<Longrightarrow>
    reverse_tick i str = rev s"
proof (induction i str rule: reverse_tick.induct)
  case (1 i str)
  show ?case
  proof (cases "i < length s div 2")
    case True
    define n where "n = length s"
    define str' where "str' = str[i := str ! (n - i - 1), n - i - 1 := str ! i]"
    have n: "length str = n" "i < n div 2" "length str' = n" using 1(2) True by (simp_all add: n_def str'_def)
    have "str' ! j = (if j < i + 1 \<or> n - (i + 1) \<le> j then s ! (n - j - 1) else s ! j)" if "j < n" for j
    proof -
      have a: "str ! i = s ! i" "str ! (n - i - 1) = s ! (n - i - 1)"
        using 1(4) [of i] 1(4) [of "n - i - 1"] n by (auto simp: n_def)
      show ?thesis
        using that n 1(4) [of j] a unfolding str'_def n_def [symmetric]
        by (cases "j = i"; cases "j = n - i - 1") (auto simp: nth_list_update)
    qed
    then have "reverse_tick (i + 1) str' = rev s"
      using 1(1) [folded str'_def] n True unfolding n_def str'_def n(1) [unfolded n_def] by auto
    then show ?thesis using n unfolding str'_def by (subst reverse_tick.simps) (simp add: n_def)
  next
    case False
    have "str = rev s"
    proof (rule nth_equalityI)
      fix j assume j: "j < length str"
      have "length s - j - 1 = j" if "\<not> (j < i \<or> length s - i \<le> j)"
        using that False 1(2,3) j by linarith
      then show "str ! j = rev s ! j" using 1(2) 1(4) [of j] j by (auto simp: rev_nth)
    qed (use 1(2) in simp)
    then show ?thesis using False 1(2) by (subst reverse_tick.simps) simp
  qed
qed

lemma reverse_tick_rev: "reverse_tick 0 s = rev s"
  by (rule reverse_tick_partial) auto

lemma tick_length: "length (decimal (unat (t :: u32))) \<le> 10"
proof -
  have "unat t < 2 ^ 32" using unsigned_less [where ?'a = nat and w = t] by simp
  then have "unat t < 10 ^ Suc 9" by simp
  from decimal_length [OF this] show ?thesis by simp
qed

lemma tick_string_ok: "tick_string (ucast (t :: u32)) = ret (decimal (unat t))"
proof -
  have "unat t < 2 ^ 32" using unsigned_less [where ?'a = nat and w = t] by simp
  then have same: "unat (ucast t :: u64) = unat t"
    by (simp add: unsigned_ucast_eq take_bit_nat_eq_self)
  show ?thesis
  proof (cases "(ucast t :: u64) = 0")
    case True
    then have "unat t = 0" using same by simp
    then have "decimal (unat t) = [digit 0]" by (subst decimal.simps) simp
    then show ?thesis using True by (simp add: tick_string_def put_char_def digit_0)
  next
    case False
    then have "tick_digits (ucast t) [] = ret (rev (decimal (unat t)))"
      using tick_digits_ok [of "[]" "ucast t"] tick_length [of t] by (simp add: same word_neq_0_conv)
    then show ?thesis using False by (simp add: tick_string_def reverse_tick_rev)
  qed
qed

lemma takeWhile_append_NUL: "CHR 0x00 \<notin> set s \<Longrightarrow> takeWhile (\<lambda>c. c \<noteq> CHR 0x00) (s @ [CHR 0x00]) = s"
  by (simp add: takeWhile_append)

lemma state_char_not_NUL: "state_char st \<noteq> CHR 0x00"
  by (cases st) (simp_all add: state_char_def)

lemma digits_not_NUL: "list_all is_digit s \<Longrightarrow> CHR 0x00 \<notin> set s"
  by (auto simp: list_all_iff is_digit_def)

text \<open>
  C38. \<open>log_cpu_state\<close> always returns: with a 32-bit tick counter at most ten digits go into
  \<open>tick_str\<close> and at most \<open>NPROC + 16\<close> characters into a buffer of \<open>NPROC + 20\<close>. It prints one
  line, from which the tick count can be read back and whose letters are the states of the
  processes in the order of the table; locks and processes stay as they were.
\<close>

theorem log_cpu_state_correct:
  assumes "spin_ok E" and "Ticks_lock \<notin> set (locks k)"
  shows "\<exists>k' d. log_cpu_state E p k = ret k' \<and> rb k' = rb k \<and> locks k' = locks k \<and>
    mach k' = printf E ''%s'' [Arg_str (CHR 0x0A # ''>>'' @ d @ ''{'' @
      map (\<lambda>i. state_char (state (procs (rb k) i))) [0..<NPROC E] @ ''}'')] (mach k) \<and>
    list_all is_digit d \<and> value_from 0 d = unat (ticks k) \<and> length d \<le> 10"
proof -
  define d where "d = decimal (unat (ticks k))"
  have len: "length d \<le> 10" unfolding d_def by (rule tick_length)
  define k1 where "k1 = rel E Ticks_lock (acq E Ticks_lock k)"
  note sec = stable_section [OF assms stable_refl, folded k1_def]
  have digits: "list_all is_digit d" by (simp add: d_def decimal_digits)
  have ds: "tick_string (ucast (ticks k)) = ret d" unfolding d_def by (rule tick_string_ok)
  define line where "line = CHR 0x0A # ''>>'' @ d @ ''{'' @
    map (\<lambda>i. state_char (state (procs (rb k) i))) [0..<NPROC E] @ ''}''"
  have "CHR 0x00 \<notin> set line"
    using digits_not_NUL [OF digits] state_char_not_NUL by (auto simp: line_def) metis
  then have shown: "takeWhile (\<lambda>c. c \<noteq> CHR 0x00) (line @ [CHR 0x00]) = line" by (rule takeWhile_append_NUL)
  have "log_cpu_state E p k = ret (mdo (printf E ''%s'' [Arg_str line]) k1)"
    using acquire_ok(1) [OF assms] sec(1) len shown
    by (simp add: log_cpu_state_def Let_def ds put_char_def k1_def line_def)
  then show ?thesis
    using stable_views [OF sec(2)] digits len
    by (intro exI [of _ "mdo (printf E ''%s'' [Arg_str line]) k1"] exI [of _ d])
      (simp add: line_def k1_def d_def)
qed

theorem log_cpu_state_correct_witness:
  "\<exists>k' d. log_cpu_state sample_env None (sample_kernel\<lparr>ticks := 1207\<rparr>) = ret k' \<and> value_from 0 d = 1207"
proof -
  have l: "Ticks_lock \<notin> set (locks (sample_kernel\<lparr>ticks := 1207\<rparr>))" by simp
  show ?thesis using log_cpu_state_correct [OF sample_spin l, of None] by auto
qed

end
