(* ===== verification/Visual.thy ===== *)
theory Visual
  imports Decimal
begin

text \<open>
  The viewer \<open>visual.c\<close>, a user program that reads the lines the scheduler prints from a log file
  and draws a chart. Its arrays are functions; every access checks the index, and one out of
  range is the outcome \<open>Out_of_bounds\<close>. Of the C library, \<open>strtok\<close>, \<open>sscanf\<close> with \<open>%d\<close>, and
  \<open>printf\<close> are written out for the formats used.
\<close>

definition MAX_PROCESSES :: int where "MAX_PROCESSES = 100"
definition MAX_TIME :: int where "MAX_TIME = 1000"
definition TIME_SLICE_STEP :: int where "TIME_SLICE_STEP = 180"
definition BUFFER_SIZE :: nat where "BUFFER_SIZE = 8192"

text \<open>
  The three columns of \<open>processDetails\<close>, the array \<open>processAvailable\<close>, the array \<open>active\<close>, the
  position of the stream \<open>file\<close> and the variables of \<open>main\<close>.
\<close>

record view =
  started :: "int \<Rightarrow> int"
  last_slice :: "int \<Rightarrow> int"
  burst :: "int \<Rightarrow> int"
  available :: "int \<Rightarrow> int"
  active :: "int \<Rightarrow> int \<Rightarrow> int"
  max_process :: int
  file_pos :: nat
  last_read_position :: int
  current_time :: int

definition init_view :: view where
  "init_view = \<lparr>started = (\<lambda>_. 999999999), last_slice = (\<lambda>_. 0), burst = (\<lambda>_. 0),
     available = (\<lambda>_. 0), active = (\<lambda>_ _. 0), max_process = 0, file_pos = 0,
     last_read_position = 0, current_time = 0\<rparr>"

section \<open>Reading the log\<close>

text \<open>\<open>strtok(s, ">>")\<close>: the maximal runs of characters other than \<open>>\<close>.\<close>

function tokens :: "string \<Rightarrow> string list" where
  "tokens s = (let r = dropWhile (\<lambda>c. c = CHR ''>'') s in
     if r = [] then []
     else takeWhile (\<lambda>c. c \<noteq> CHR ''>'') r # tokens (dropWhile (\<lambda>c. c \<noteq> CHR ''>'') r))"
  by auto

termination tokens
proof (relation "measure length")
  fix s r :: string
  assume r: "r = dropWhile (\<lambda>c. c = CHR ''>'') s" and ne: "r \<noteq> []"
  from ne obtain x xs where x: "r = x # xs" by (cases r) simp_all
  have "hd r \<noteq> CHR ''>''" using hd_dropWhile [OF ne [unfolded r]] unfolding r .
  then have "x \<noteq> CHR ''>''" by (simp only: x list.sel not_False_eq_True)
  then have "length (dropWhile (\<lambda>c. c \<noteq> CHR ''>'') r) \<le> length xs"
    by (simp add: x length_dropWhile_le)
  also have "\<dots> < length r" by (simp add: x)
  also have "\<dots> \<le> length s" by (simp add: r length_dropWhile_le)
  finally show "(dropWhile (\<lambda>c. c \<noteq> CHR ''>'') r, s) \<in> measure length" by simp
qed simp

declare tokens.simps [simp del]

text \<open>
  \<open>sscanf\<close>: a literal of the format, and \<open>%d\<close>, which reads a \<open>long\<close>, clamped to its range as by
  \<open>strtol\<close>, and stores it in an \<open>int\<close>.
\<close>

definition scan_lit :: "string \<Rightarrow> string \<Rightarrow> string option" where
  "scan_lit lit s = (if take (length lit) s = lit then Some (drop (length lit) s) else None)"

definition is_space :: "char \<Rightarrow> bool" where
  "is_space c = (c \<in> set [CHR '' '', CHR 0x09, CHR 0x0A, CHR 0x0B, CHR 0x0C, CHR 0x0D])"

definition clamp_long :: "int \<Rightarrow> int" where
  "clamp_long x = max (- (2 ^ 63)) (min (2 ^ 63 - 1) x)"

definition scan_int :: "string \<Rightarrow> (int \<times> string) option" where
  "scan_int s =
     (let s = dropWhile is_space s;
          neg = (take 1 s = ''-'');
          s = (if take 1 s = ''-'' \<or> take 1 s = ''+'' then drop 1 s else s);
          ds = takeWhile is_digit s in
      if ds = [] then None
      else Some (i32 (clamp_long (if neg then - int (value_from 0 ds) else int (value_from 0 ds))),
                 dropWhile is_digit s))"

definition bind_scan :: "'a option \<Rightarrow> ('a \<Rightarrow> 'b option) \<Rightarrow> 'b option" where
  "bind_scan m f = (case m of None \<Rightarrow> None | Some x \<Rightarrow> f x)"

text \<open>
  \<open>sscanf(token, "{p%d,s%d,e%d}", ...) == 3\<close>: the three conversions succeeded; the brace at the
  end of the format is not required.
\<close>

definition scan_entry :: "string \<Rightarrow> (int \<times> int \<times> int) option" where
  "scan_entry tok =
     bind_scan (scan_lit ''{p'' tok) (\<lambda>s.
     bind_scan (scan_int s) (\<lambda>(p, s).
     bind_scan (scan_lit '',s'' s) (\<lambda>s.
     bind_scan (scan_int s) (\<lambda>(a, s).
     bind_scan (scan_lit '',e'' s) (\<lambda>s.
     bind_scan (scan_int s) (\<lambda>(b, s). Some (p, a, b)))))))"

text \<open>The loop over the time slices of an entry.\<close>

function mark_slots :: "int \<Rightarrow> int \<Rightarrow> int \<Rightarrow> int \<Rightarrow> view \<Rightarrow> view kres" where
  "mark_slots p a t b v =
     (if t < b then
        if 0 \<le> t \<and> t < MAX_TIME then
          let v = (if active v p t = 0 then v\<lparr>burst := (burst v)(p := burst v p + 1)\<rparr> else v);
              v = v\<lparr>active := (active v)(p := (active v p)(t := 1))\<rparr>;
              v = v\<lparr>last_slice := (last_slice v)(p := if last_slice v p < a then a else last_slice v p)\<rparr>
          in mark_slots p a (t + 1) b v
        else err Out_of_bounds
      else ret v)"
  by auto

termination mark_slots
  by (relation "measure (\<lambda>(p, a, t, b, v). nat (b - t))") auto

declare mark_slots.simps [simp del]

definition process_entry :: "int \<Rightarrow> int \<Rightarrow> int \<Rightarrow> view \<Rightarrow> view kres" where
  "process_entry p a b v =
     (if 0 \<le> p \<and> p < MAX_PROCESSES then
        let v = v\<lparr>available := (available v)(p := 1)\<rparr>;
            v = v\<lparr>started := (started v)(p := if started v p < a then started v p else a)\<rparr>;
            v = (if p > max_process v then v\<lparr>max_process := p\<rparr> else v);
            v = (if b > current_time v then v\<lparr>current_time := b\<rparr> else v);
            b = (if a = b then i32 (b + 1) else b) in
        mark_slots p a a b v
      else err Out_of_bounds)"

primrec process_tokens :: "string list \<Rightarrow> view \<Rightarrow> view kres" where
  "process_tokens [] v = ret v"
| "process_tokens (tok # toks) v =
     kbind (case scan_entry tok of None \<Rightarrow> ret v | Some (p, a, b) \<Rightarrow> process_entry p a b v)
       (process_tokens toks)"

text \<open>
  One pass over what was added to the file since the last one, at most a buffer of it. An \<open>fseek\<close>
  to a negative position fails and leaves the stream where it is.
\<close>

definition read_log :: "string \<Rightarrow> view \<Rightarrow> view kres" where
  "read_log file v =
     (let pos = (if 0 \<le> last_read_position v then nat (last_read_position v) else file_pos v);
          buffer = take (BUFFER_SIZE - 1) (drop pos file);
          v = v\<lparr>file_pos := pos + length buffer\<rparr> in
      kbind (process_tokens (tokens (takeWhile (\<lambda>c. c \<noteq> CHR 0x00) buffer)) v) (\<lambda>v.
      ret (v\<lparr>last_read_position := i32 (int (file_pos v))\<rparr>)))"

section \<open>The chart\<close>

text \<open>An element of an array with one or two indices.\<close>

definition at_time :: "int \<Rightarrow> (int \<Rightarrow> int) \<Rightarrow> int kres" where
  "at_time t row = (if 0 \<le> t \<and> t < MAX_TIME then ret (row t) else err Out_of_bounds)"

primrec chart_slots :: "view \<Rightarrow> int \<Rightarrow> int list \<Rightarrow> string kres" where
  "chart_slots v p [] = ret []"
| "chart_slots v p (t # ts) =
     kbind (at_time t (active v p)) (\<lambda>x.
     kbind (chart_slots v p ts) (\<lambda>out. ret ((if x \<noteq> 0 then CHR ''+'' else CHR ''-'') # out)))"

primrec chart_rows :: "view \<Rightarrow> int list \<Rightarrow> int \<Rightarrow> int \<Rightarrow> string kres" where
  "chart_rows v [] a b = ret []"
| "chart_rows v (p # ps) a b =
     (if available v p = 0 then chart_rows v ps a b
      else
        kbind (chart_slots v p [a..b]) (\<lambda>row.
        kbind (chart_rows v ps a b) (\<lambda>out.
        ret (''p'' @ decimal_int p @ '' '' @ row @ [CHR 0x0A] @ out))))"

definition waiting_time :: "view \<Rightarrow> int \<Rightarrow> int" where
  "waiting_time v p = (let w = i32 (i32 (last_slice v p - started v p) - burst v p) in
     if w > 0 then w else 0)"

text \<open>The statistics: the number of processes seen and the sum of their waiting times.\<close>

primrec chart_stats :: "view \<Rightarrow> int list \<Rightarrow> int \<Rightarrow> int \<Rightarrow> int \<times> int \<times> string" where
  "chart_stats v [] num avg = (num, avg, [])"
| "chart_stats v (p # ps) num avg =
     (if available v p = 0 then chart_stats v ps num avg
      else
        let w = waiting_time v p;
            (n, s, out) = chart_stats v ps (i32 (num + 1)) (i32 (avg + w)) in
        (n, s, ''process '' @ decimal_int p @ '' -> turnaround time: <'' @
           decimal_int (i32 (last_slice v p - started v p)) @ ''> |   waiting time: <'' @
           decimal_int w @ ''>'' @ [CHR 0x0A] @ out))"

definition draw_chart :: "view \<Rightarrow> int \<Rightarrow> int \<Rightarrow> string kres" where
  "draw_chart v a b =
     kbind (chart_rows v [0..max_process v] a b) (\<lambda>rows.
     let (num, avg, details) = chart_stats v [0..max_process v] 0 0 in
     kbind (cdiv avg num) (\<lambda>average.
     ret (rows @ ''local details of processes:'' @ [CHR 0x0A] @ details @
       ''average waiting time: '' @ decimal_int average @ [CHR 0x0A] @ [CHR 0x0A])))"

section \<open>The main loop\<close>

text \<open>
  One round on the file as it is then, and the rounds on a sequence of contents of the file: what
  is printed. Clearing the screen and the pause between rounds have no effect on the state.
\<close>

definition viewer_round :: "string \<Rightarrow> view \<Rightarrow> (string \<times> view) kres" where
  "viewer_round file v =
     kbind (read_log file v) (\<lambda>v.
     let start_time = (if current_time v > TIME_SLICE_STEP then i32 (current_time v - TIME_SLICE_STEP) else 0);
         end_time = current_time v in
     kbind (draw_chart v start_time end_time) (\<lambda>out.
     ret (''Process Activity Chart (Time: '' @ decimal_int start_time @ '' to '' @
       decimal_int end_time @ ''):'' @ [CHR 0x0A] @ out, v)))"

primrec viewer_rounds :: "string list \<Rightarrow> view \<Rightarrow> (string \<times> view) kres" where
  "viewer_rounds [] v = ret ([], v)"
| "viewer_rounds (file # files) v =
     kbind (viewer_round file v) (\<lambda>(out, v).
     kbind (viewer_rounds files v) (\<lambda>(rest, v). ret (out @ rest, v)))"

text \<open>The program on the successive contents of the log; without a log file it ends with status 1.\<close>

definition viewer :: "string list option \<Rightarrow> (int + string \<times> view) kres" where
  "viewer logs = (case logs of None \<Rightarrow> ret (Inl 1)
     | Some files \<Rightarrow> kbind (viewer_rounds files init_view) (\<lambda>r. ret (Inr r)))"

end
