(* ===== verification/Visual_Properties.thy ===== *)
theory Visual_Properties
  imports Visual Kernel
begin

text \<open>
  The scheduler and the viewer agree on the log: what the scheduler prints for a turn, the viewer
  reads back, and the arrays it keeps are exactly the slices, the first start, the last start and
  the busy time of each process in the log.
\<close>

section \<open>Printing and reading an entry\<close>

text \<open>The text that \<open>printf\<close> produces for a format with \<open>%d\<close> and \<open>%s\<close>.\<close>

function expand :: "string \<Rightarrow> printf_arg list \<Rightarrow> string" where
  "expand fmt args = (case fmt of [] \<Rightarrow> [] | c # cs \<Rightarrow>
     (case args of [] \<Rightarrow> c # expand cs args
      | Arg_int x # rest \<Rightarrow>
          if c = CHR ''%'' \<and> take 1 cs = ''d'' then decimal_int x @ expand (drop 1 cs) rest
          else c # expand cs args
      | Arg_str s # rest \<Rightarrow>
          if c = CHR ''%'' \<and> take 1 cs = ''s'' then s @ expand (drop 1 cs) rest
          else c # expand cs args))"
  by auto

termination
  by (relation "measure (\<lambda>(fmt, args). length fmt)") auto

declare expand.simps [simp del]

lemma expand_simps [simp]:
  "expand [] args = []" "expand (c # cs) [] = c # expand cs []"
  "c \<noteq> CHR ''%'' \<Longrightarrow> expand (c # cs) (a # as) = c # expand cs (a # as)"
  "expand (CHR ''%'' # CHR ''d'' # cs) (Arg_int x # as) = decimal_int x @ expand cs as"
  by (subst expand.simps; simp split: printf_arg.split)+

definition log_entry :: "int \<times> int \<times> int \<Rightarrow> string" where
  "log_entry = (\<lambda>(p, a, b). expand ''>>{p%d,s%d,e%d}'' [Arg_int p, Arg_int a, Arg_int b])"

definition entry_body :: "int \<times> int \<times> int \<Rightarrow> string" where
  "entry_body = (\<lambda>(p, a, b). ''{p'' @ decimal_int p @ '',s'' @ decimal_int a @ '',e'' @ decimal_int b @ ''}'')"

lemma log_entry_body: "log_entry x = ''>>'' @ entry_body x"
  by (cases x) (simp add: log_entry_def entry_body_def)

lemma decimal_int_chars: "c \<in> set (decimal_int x) \<Longrightarrow> is_digit c \<or> c = CHR ''-''"
  using decimal_digits by (auto simp: decimal_int_def list_all_iff split: if_splits)

lemma digit_not [simp]:
  "\<not> is_digit (CHR ''>'')" "\<not> is_digit (CHR 0x00)" "\<not> is_digit (CHR '','')" "\<not> is_digit (CHR ''}'')"
  "\<not> is_digit (CHR ''-'')" "\<not> is_digit (CHR ''+'')"
  by (simp_all add: is_digit_def)

lemma digit_not_space: "is_digit c \<Longrightarrow> \<not> is_space c"
  by (auto simp: is_digit_def is_space_def)

lemma entry_body_chars: "CHR ''>'' \<notin> set (entry_body x)" "CHR 0x00 \<notin> set (entry_body x)"
  by (cases x; auto simp: entry_body_def dest!: decimal_int_chars)+

lemma takeWhile_digits:
  assumes "list_all is_digit ds" "s = [] \<or> \<not> is_digit (hd s)"
  shows "takeWhile is_digit (ds @ s) = ds" "dropWhile is_digit (ds @ s) = s"
  using assms by (auto simp: list_all_iff takeWhile_append dropWhile_append takeWhile_eq_Nil_iff
      dropWhile_eq_self_iff)

lemma scan_decimal:
  assumes "- (2 ^ 31) \<le> x" "x < 2 ^ 31" "s = [] \<or> \<not> is_digit (hd s)"
  shows "scan_int (decimal_int x @ s) = Some (x, s)"
proof (cases "x < 0")
  case True
  have "scan_int (CHR ''-'' # decimal (nat (- x)) @ s) = Some (x, s)"
    using takeWhile_digits [OF decimal_digits assms(3)] True assms(1,2)
    by (simp add: scan_int_def is_space_def Let_def clamp_long_def)
  then show ?thesis using True by (simp add: decimal_int_def)
next
  case False
  obtain c cs where d: "decimal (nat x) = c # cs" by (cases "decimal (nat x)") auto
  have c: "is_digit c" using decimal_digits [of "nat x"] by (simp add: d)
  then have "\<not> is_space c" "c \<noteq> CHR ''-''" "c \<noteq> CHR ''+''" by (auto simp: digit_not_space)
  then have "scan_int (decimal (nat x) @ s) = Some (x, s)"
    using takeWhile_digits [OF decimal_digits assms(3), of "nat x"] False assms(1,2)
      value_decimal [of "nat x"]
    by (simp add: scan_int_def Let_def d clamp_long_def)
  then show ?thesis using False by (simp add: decimal_int_def)
qed

definition fits :: "int \<Rightarrow> bool" where
  "fits x \<longleftrightarrow> - (2 ^ 31) \<le> x \<and> x < 2 ^ 31"

lemma scan_entry_body:
  assumes "fits p" "fits a" "fits b"
  shows "scan_entry (entry_body (p, a, b)) = Some (p, a, b)"
proof -
  have s: "scan_int (decimal_int x @ c # s) = Some (x, c # s)" if "fits x" "\<not> is_digit c" for x c s
    by (rule scan_decimal) (use that in \<open>simp_all add: fits_def\<close>)
  show ?thesis
    using assms by (simp add: scan_entry_def entry_body_def scan_lit_def bind_scan_def s)
qed

lemma tokens_entry:
  assumes "CHR ''>'' \<notin> set b" "b \<noteq> []" "s = [] \<or> hd s = CHR ''>''"
  shows "tokens (''>>'' @ b @ s) = b # tokens s"
proof -
  obtain c cs where b: "b = c # cs" using assms(2) by (cases b) auto
  have "dropWhile (\<lambda>c. c = CHR ''>'') (''>>'' @ b @ s) = b @ s" using assms(1) by (auto simp: b)
  moreover have "takeWhile (\<lambda>c. c \<noteq> CHR ''>'') (b @ s) = b" "dropWhile (\<lambda>c. c \<noteq> CHR ''>'') (b @ s) = s"
    using assms by (auto simp: takeWhile_append dropWhile_append takeWhile_eq_Nil_iff dropWhile_eq_self_iff)
  ultimately show ?thesis using assms(2) by (subst tokens.simps) simp
qed

lemma tokens_log: "tokens (concat (map log_entry es)) = map entry_body es"
proof (induction es)
  case Nil
  show ?case by (subst tokens.simps) simp
next
  case (Cons x es)
  have "entry_body x \<noteq> []" by (cases x) (simp add: entry_body_def)
  moreover have "concat (map log_entry es) = [] \<or> hd (concat (map log_entry es)) = CHR ''>''"
    by (cases es) (simp_all add: log_entry_body)
  ultimately show ?case
    using tokens_entry [OF entry_body_chars(1), of x "concat (map log_entry es)"] Cons
    unfolding list.map concat.simps log_entry_body [of x] append_assoc by simp
qed

section \<open>What the viewer keeps\<close>

text \<open>The slices an entry stands for: an empty turn counts as one slice.\<close>

definition covers :: "int \<times> int \<times> int \<Rightarrow> int \<Rightarrow> bool" where
  "covers = (\<lambda>(p, a, b) t. a \<le> t \<and> (t < b \<or> a = b \<and> t = a))"

definition slots :: "(int \<times> int \<times> int) list \<Rightarrow> int \<Rightarrow> int set" where
  "slots es p = {t. \<exists>x \<in> set es. fst x = p \<and> covers x t}"

text \<open>An entry the arrays have room for.\<close>

definition entry_ok :: "int \<times> int \<times> int \<Rightarrow> bool" where
  "entry_ok = (\<lambda>(p, a, b). 0 \<le> p \<and> p < MAX_PROCESSES \<and> 0 \<le> a \<and> a \<le> b \<and> b < MAX_TIME)"

lemma if_max: "(if (x :: int) < y then y else x) = max x y"
  and if_min: "(if (x :: int) < y then x else y) = min x y"
  by auto

lemma mark_slots_ok:
  "0 \<le> t \<Longrightarrow> b \<le> MAX_TIME \<Longrightarrow> mark_slots p a t b v = ret (v\<lparr>
     burst := (burst v)(p := burst v p + int (card {u. t \<le> u \<and> u < b \<and> active v p u = 0})),
     active := (active v)(p := \<lambda>u. if t \<le> u \<and> u < b then 1 else active v p u),
     last_slice := (if t < b then (last_slice v)(p := max (last_slice v p) a) else last_slice v)\<rparr>)"
proof (induction p a t b v rule: mark_slots.induct)
  case (1 p a t b v)
  show ?case
  proof (cases "t < b")
    case False
    then have none: "{u. t \<le> u \<and> u < b \<and> active v p u = 0} = {}" "(\<lambda>u. if t \<le> u \<and> u < b then 1 else active v p u) = active v p"
      by auto
    show ?thesis unfolding none using False by (subst mark_slots.simps) simp
  next
    case True
    define v1 where "v1 = (if active v p t = 0 then v\<lparr>burst := (burst v)(p := burst v p + 1)\<rparr> else v)"
    define v2 where "v2 = v1\<lparr>active := (active v1)(p := (active v1 p)(t := 1))\<rparr>"
    define v3 where "v3 = v2\<lparr>last_slice := (last_slice v2)(p := if last_slice v2 p < a then a else last_slice v2 p)\<rparr>"
    have t: "0 \<le> t \<and> t < MAX_TIME" using 1(2,3) True by simp
    have step: "mark_slots p a t b v = mark_slots p a (t + 1) b v3"
      using True t by (subst mark_slots.simps) (simp add: v1_def v2_def v3_def Let_def)
    define A where "A = {u. t + 1 \<le> u \<and> u < b \<and> active v p u = 0}"
    have A: "finite A" "t \<notin> A" unfolding A_def by (auto intro: finite_subset [of _ "{t..b}"])
    have "{u. t \<le> u \<and> u < b \<and> active v p u = 0} = (if active v p t = 0 then insert t A else A)"
      using True by (auto simp: A_def add1_zle_eq order_le_less)
    then have c: "int (card {u. t \<le> u \<and> u < b \<and> active v p u = 0}) = (if active v p t = 0 then 1 else 0) + int (card A)"
      using A by simp
    have a3: "active v3 = (active v)(p := (active v p)(t := 1))" by (simp add: v1_def v2_def v3_def)
    have A3: "{u. t + 1 \<le> u \<and> u < b \<and> active v3 p u = 0} = A" by (auto simp: A_def a3)
    have l3: "last_slice v3 = (last_slice v)(p := max (last_slice v p) a)"
      by (simp add: v1_def v2_def v3_def if_max)
    have b3: "burst v3 = (burst v)(p := burst v p + (if active v p t = 0 then 1 else 0))"
      by (simp add: v1_def v2_def v3_def)
    have row: "(\<lambda>u. if t + 1 \<le> u \<and> u < b then 1 else active v3 p u) =
        (\<lambda>u. if t \<le> u \<and> u < b then 1 else active v p u)"
      using True by (auto simp: a3)
    have "mark_slots p a (t + 1) b v3 = ret (v3\<lparr>burst := (burst v3)(p := burst v3 p + int (card A)),
        active := (active v3)(p := \<lambda>u. if t \<le> u \<and> u < b then 1 else active v p u),
        last_slice := (last_slice v)(p := max (last_slice v p) a)\<rparr>)"
      using 1(1) [OF True t v1_def v2_def v3_def] t 1(3) unfolding A3 row by (simp add: l3 del: fun_upd_apply) (simp add: l3)
    also have "\<dots> = ret (v\<lparr>burst := (burst v)(p := burst v p + int (card {u. t \<le> u \<and> u < b \<and> active v p u = 0})),
        active := (active v)(p := \<lambda>u. if t \<le> u \<and> u < b then 1 else active v p u),
        last_slice := (last_slice v)(p := max (last_slice v p) a)\<rparr>)"
      unfolding b3 a3 c by (simp add: v1_def v2_def v3_def add.assoc)
    finally show ?thesis using step True by (simp add: fun_upd_def)
  qed
qed

text \<open>The arrays after a list of entries.\<close>

definition shows_log :: "(int \<times> int \<times> int) list \<Rightarrow> view \<Rightarrow> bool" where
  "shows_log es v \<longleftrightarrow>
     (\<forall>p t. active v p t = (if t \<in> slots es p then 1 else 0)) \<and>
     (\<forall>p. available v p = (if p \<in> fst ` set es then 1 else 0)) \<and>
     (\<forall>p. burst v p = int (card (slots es p))) \<and>
     (\<forall>p. started v p = Min (insert 999999999 {a. \<exists>b. (p, a, b) \<in> set es})) \<and>
     (\<forall>p. last_slice v p = Max (insert 0 {a. \<exists>b. (p, a, b) \<in> set es})) \<and>
     max_process v = Max (insert 0 (fst ` set es)) \<and>
     current_time v = Max (insert 0 ((\<lambda>(p, a, b). b) ` set es))"

lemma shows_log_init: "shows_log [] (init_view)"
  by (simp add: shows_log_def init_view_def slots_def)

lemma finite_starts [simp]: "finite {a. \<exists>b. (p, a, b) \<in> set es}"
  by (rule finite_subset [of _ "(\<lambda>(p, a, b). a) ` set es"]) force+

lemma finite_covers: "finite {t. covers x t}"
proof -
  obtain p a b where "x = (p, a, b)" by (cases x)
  then have "{t. covers x t} \<subseteq> {a..max a b}" by (auto simp: covers_def)
  then show ?thesis by (rule finite_subset) simp
qed

lemma finite_slots [simp]: "finite (slots es p)"
proof -
  have "slots es p \<subseteq> (\<Union>x \<in> set es. {t. covers x t})" by (auto simp: slots_def)
  then show ?thesis by (rule finite_subset) (simp add: finite_covers)
qed

lemma slots_snoc: "slots (es @ [(p, a, b)]) q = slots es q \<union> (if q = p then {t. covers (p, a, b) t} else {})"
  by (auto simp: slots_def)

lemma starts_snoc: "{a'. \<exists>b'. (q, a', b') \<in> set (es @ [(p, a, b)])} =
    (if q = p then insert a {a'. \<exists>b'. (q, a', b') \<in> set es} else {a'. \<exists>b'. (q, a', b') \<in> set es})"
  by auto

lemma process_entry_ok:
  assumes v: "shows_log es v" and e: "entry_ok (p, a, b)"
  shows "\<exists>v'. process_entry p a b v = ret v' \<and> shows_log (es @ [(p, a, b)]) v' \<and>
    file_pos v' = file_pos v"
proof -
  define b' where "b' = (if a = b then i32 (b + 1) else b)"
  have r: "0 \<le> p" "p < MAX_PROCESSES" "0 \<le> a" "a \<le> b" "b < MAX_TIME"
    using e by (simp_all add: entry_ok_def)
  have b': "b' = (if a = b then b + 1 else b)" using r by (simp add: b'_def MAX_TIME_def)
  have lim: "a < b'" "b' \<le> MAX_TIME" using r by (auto simp: b')
  have cov: "covers (p, a, b) t \<longleftrightarrow> a \<le> t \<and> t < b'" for t using r(4) by (auto simp: covers_def b')
  define v1 where "v1 = v\<lparr>available := (available v)(p := 1),
    started := (started v)(p := min (started v p) a), max_process := max (max_process v) p,
    current_time := max (current_time v) b\<rparr>"
  have "process_entry p a b v = mark_slots p a a b' v1"
    using r by (cases "p > max_process v"; cases "b > current_time v")
      (simp_all add: process_entry_def Let_def v1_def b'_def if_min max.absorb1 max.absorb2)
  also have "\<dots> = ret (v1\<lparr>
     burst := (burst v1)(p := burst v1 p + int (card {u. a \<le> u \<and> u < b' \<and> active v1 p u = 0})),
     active := (active v1)(p := \<lambda>u. if a \<le> u \<and> u < b' then 1 else active v1 p u),
     last_slice := (last_slice v1)(p := max (last_slice v1 p) a)\<rparr>)"
    using mark_slots_ok [OF r(3) lim(2), of p a v1] lim(1) by simp
  also have "active v1 = active v" by (simp add: v1_def)
  finally obtain v' where v': "process_entry p a b v = ret v'" and
    f: "active v' = (active v)(p := \<lambda>u. if a \<le> u \<and> u < b' then 1 else active v p u)"
    "available v' = (available v)(p := 1)"
    "burst v' = (burst v)(p := burst v p + int (card {u. a \<le> u \<and> u < b' \<and> active v p u = 0}))"
    "started v' = (started v)(p := min (started v p) a)"
    "last_slice v' = (last_slice v)(p := max (last_slice v p) a)"
    "max_process v' = max (max_process v) p" "current_time v' = max (current_time v) b"
    "file_pos v' = file_pos v"
    by (rule that) (simp_all add: v1_def del: fun_upd_apply)
  define new where "new = {t. covers (p, a, b) t} - slots es p"
  have new: "{u. a \<le> u \<and> u < b' \<and> active v p u = 0} = new"
    using v by (auto simp: shows_log_def cov new_def)
  have "slots (es @ [(p, a, b)]) p = slots es p \<union> new" by (auto simp: slots_snoc new_def)
  moreover have "finite new" "slots es p \<inter> new = {}" by (auto simp: new_def finite_covers)
  ultimately have "card (slots (es @ [(p, a, b)]) p) = card (slots es p) + card new"
    by (simp add: card_Un_disjoint)
  then have c: "int (card (slots (es @ [(p, a, b)]) p)) =
      burst v p + int (card {u. a \<le> u \<and> u < b' \<and> active v p u = 0})"
    using v unfolding new by (simp add: shows_log_def)
  have "shows_log (es @ [(p, a, b)]) v'"
    unfolding shows_log_def starts_snoc
  proof (intro conjI allI)
    fix q t
    show "active v' q t = (if t \<in> slots (es @ [(p, a, b)]) q then 1 else 0)"
      using v by (auto simp: f(1) shows_log_def slots_snoc cov)
    show "available v' q = (if q \<in> fst ` set (es @ [(p, a, b)]) then 1 else 0)"
      using v by (simp add: f(2) shows_log_def)
    show "burst v' q = int (card (slots (es @ [(p, a, b)]) q))"
      using v c by (cases "q = p") (simp_all add: f(3) shows_log_def slots_snoc)
    have s: "started v q = Min (insert 999999999 {a. \<exists>b. (q, a, b) \<in> set es})"
      "last_slice v q = Max (insert 0 {a. \<exists>b. (q, a, b) \<in> set es})"
      using v by (simp_all add: shows_log_def)
    show "started v' q = Min (insert 999999999 (if q = p then insert a {a'. \<exists>b'. (q, a', b') \<in> set es}
        else {a'. \<exists>b'. (q, a', b') \<in> set es}))"
      using s(1) by (cases "q = p") (simp_all add: f(4) insert_commute [of 999999999] min.commute)
    show "last_slice v' q = Max (insert 0 (if q = p then insert a {a'. \<exists>b'. (q, a', b') \<in> set es}
        else {a'. \<exists>b'. (q, a', b') \<in> set es}))"
      using s(2) by (cases "q = p") (simp_all add: f(5) insert_commute [of 0] max.commute)
    show "max_process v' = Max (insert 0 (fst ` set (es @ [(p, a, b)])))"
      using v by (simp add: f(6) shows_log_def insert_commute [of 0] max.commute)
    show "current_time v' = Max (insert 0 ((\<lambda>(p, a, b). b) ` set (es @ [(p, a, b)])))"
      using v by (simp add: f(7) shows_log_def insert_commute [of 0] max.commute)
  qed
  then show ?thesis using v' f(8) by blast
qed

lemma process_tokens_append:
  "process_tokens (s @ t) = (\<lambda>v. kbind (process_tokens s v) (process_tokens t))"
proof (induction s)
  case (Cons tok s)
  show ?case by (rule ext) (simp add: Cons kbind_assoc)
qed simp

lemma process_tokens_ok:
  assumes "shows_log [] u" "list_all entry_ok es"
  shows "\<exists>v. process_tokens (map entry_body es) u = ret v \<and> shows_log es v \<and> file_pos v = file_pos u"
  using assms(2)
proof (induction es rule: rev_induct)
  case Nil
  then show ?case using assms(1) by simp
next
  case (snoc x es)
  obtain v where v: "process_tokens (map entry_body es) u = ret v" "shows_log es v"
    "file_pos v = file_pos u"
    using snoc by auto
  obtain p a b where x: "x = (p, a, b)" by (cases x)
  have e: "entry_ok (p, a, b)" using snoc.prems x by simp
  then have "scan_entry (entry_body x) = Some (p, a, b)"
    unfolding x by (intro scan_entry_body)
      (simp_all add: entry_ok_def fits_def MAX_PROCESSES_def MAX_TIME_def)
  then show ?case
    using process_entry_ok [OF v(2) e] v x by (auto simp: process_tokens_append)
qed

section \<open>The chart\<close>

lemma chart_slots_ok:
  "(\<And>t. t \<in> set ts \<Longrightarrow> 0 \<le> t \<and> t < MAX_TIME) \<Longrightarrow> \<exists>out. chart_slots v p ts = ret out"
  by (induction ts) (auto simp: at_time_def)

lemma chart_rows_ok: "0 \<le> a \<Longrightarrow> b < MAX_TIME \<Longrightarrow> \<exists>out. chart_rows v ps a b = ret out"
proof (induction ps)
  case (Cons p ps)
  then obtain out where "chart_rows v ps a b = ret out" by auto
  moreover obtain row where "chart_slots v p [a..b] = ret row"
    using chart_slots_ok [of "[a..b]" v p] Cons.prems by auto
  ultimately show ?case by auto
qed simp

lemma chart_stats_count:
  "0 \<le> num \<Longrightarrow> num + int (length ps) < 2 ^ 31 \<Longrightarrow>
    fst (chart_stats v ps num avg) = num + int (length (filter (\<lambda>p. available v p \<noteq> 0) ps))"
proof (induction ps arbitrary: num avg)
  case (Cons p ps)
  show ?case
  proof (cases "available v p = 0")
    case False
    then have "fst (chart_stats v (p # ps) num avg) =
        fst (chart_stats v ps (num + 1) (i32 (avg + waiting_time v p)))"
      using Cons.prems by (simp add: Let_def split: prod.split)
    also have "\<dots> = num + 1 + int (length (filter (\<lambda>p. available v p \<noteq> 0) ps))"
      using Cons.prems by (intro Cons.IH) simp_all
    finally show ?thesis using False by simp
  qed (use Cons in simp)
qed simp

lemma draw_chart_ok:
  assumes "list_all entry_ok es" "es \<noteq> []" "shows_log es v"
  shows "\<exists>out. draw_chart v (if current_time v > TIME_SLICE_STEP
    then i32 (current_time v - TIME_SLICE_STEP) else 0) (current_time v) = ret out"
proof -
  obtain x where x: "x \<in> set es" using assms(2) by (cases es) auto
  have ok: "0 \<le> fst y" "fst y < MAX_PROCESSES" "(\<lambda>(p, a, b). b) y < MAX_TIME" if "y \<in> set es" for y
    using assms(1) that by (cases y; force simp: list_all_iff entry_ok_def)+
  have t: "0 \<le> current_time v" "current_time v < MAX_TIME"
    using assms(3) ok(3) by (auto simp: shows_log_def MAX_TIME_def)
  have m: "fst x \<le> max_process v" "max_process v < MAX_PROCESSES"
    using assms(3) x ok(2) by (auto simp: shows_log_def MAX_PROCESSES_def)
  define a where "a = (if current_time v > TIME_SLICE_STEP then i32 (current_time v - TIME_SLICE_STEP) else 0)"
  have "0 \<le> a" using t by (simp add: a_def MAX_TIME_def TIME_SLICE_STEP_def)
  then obtain rows where rows: "chart_rows v [0..max_process v] a (current_time v) = ret rows"
    using chart_rows_ok t(2) by blast
  have "fst x \<in> set (filter (\<lambda>p. available v p \<noteq> 0) [0..max_process v])"
    using assms(3) x m(1) ok(1) by (simp add: shows_log_def)
  then have "filter (\<lambda>p. available v p \<noteq> 0) [0..max_process v] \<noteq> []"
    by (rule contrapos_pn) simp
  moreover have "0 + int (length [0..max_process v]) < 2 ^ 31" using m(2) by (simp add: MAX_PROCESSES_def)
  note chart_stats_count [OF order_refl this, of v 0]
  ultimately have "fst (chart_stats v [0..max_process v] 0 0) \<noteq> 0" by simp
  then show ?thesis
    unfolding a_def [symmetric] by (auto simp: draw_chart_def rows cdiv_def Let_def split: prod.split)
qed

text \<open>
  C39. The viewer reads back what the scheduler prints. For every log of turns that fits the
  viewer's buffer and arrays, one round of the viewer ends with the array of active slices, the
  busy times, first starts, last starts and availability flags that these turns define, and
  with the whole log consumed. On a log without any turn the round stops the program instead,
  with a division by zero in the average waiting time.
\<close>

theorem viewer_reads_log:
  assumes "list_all entry_ok es" and "length (concat (map log_entry es)) < BUFFER_SIZE"
  shows "if es = [] then viewer_round (concat (map log_entry es)) init_view = err Div_zero
    else \<exists>out v. viewer_round (concat (map log_entry es)) init_view = ret (out, v) \<and> shows_log es v \<and>
      last_read_position v = int (length (concat (map log_entry es)))"
proof -
  define contents where "contents = concat (map log_entry es)"
  define u where "u = init_view\<lparr>file_pos := length contents\<rparr>"
  have u: "shows_log [] u" using shows_log_init by (simp add: u_def shows_log_def)
  obtain v where v: "process_tokens (map entry_body es) u = ret v" "shows_log es v"
    "file_pos v = length contents"
    using process_tokens_ok [OF u assms(1)] by (auto simp: u_def)
  have "CHR 0x00 \<notin> set contents"
    using entry_body_chars(2) by (auto simp: contents_def log_entry_body)
  then have nul: "takeWhile (\<lambda>c. c \<noteq> CHR 0x00) contents = contents" by (auto simp: takeWhile_eq_all_conv)
  have size: "take (BUFFER_SIZE - 1) contents = contents" using assms(2) by (simp add: contents_def)
  have toks: "tokens contents = map entry_body es" unfolding contents_def by (rule tokens_log)
  have start: "(if 0 \<le> last_read_position init_view then nat (last_read_position init_view)
    else file_pos init_view) = 0" by (simp add: init_view_def)
  have small: "i32 (int (length contents)) = int (length contents)"
    using assms(2) by (intro i32_id) (simp_all add: contents_def BUFFER_SIZE_def)
  define w where "w = v\<lparr>last_read_position := int (length contents)\<rparr>"
  have r: "read_log contents init_view = ret w"
    unfolding read_log_def start Let_def drop_0 size nul toks add_0 u_def [symmetric]
    by (simp add: v(1,3) w_def small)
  have w: "shows_log es w" using v(2) by (simp add: w_def shows_log_def)
  show ?thesis unfolding contents_def [symmetric]
  proof (cases "es = []")
    case True
    have "current_time w = 0" "max_process w = 0" "available w 0 = 0"
      using w True by (simp_all add: shows_log_def)
    then have "viewer_round contents init_view = err Div_zero"
      by (simp add: viewer_round_def r Let_def draw_chart_def TIME_SLICE_STEP_def cdiv_def)
    with True show "if es = [] then viewer_round contents init_view = err Div_zero
      else \<exists>out v. viewer_round contents init_view = ret (out, v) \<and> shows_log es v \<and>
        last_read_position v = int (length contents)" by simp
  next
    case False
    obtain out where "draw_chart w (if current_time w > TIME_SLICE_STEP
        then i32 (current_time w - TIME_SLICE_STEP) else 0) (current_time w) = ret out"
      using draw_chart_ok [OF assms(1) False w] by blast
    then have "\<exists>out. viewer_round contents init_view = ret (out, w)"
      by (simp add: viewer_round_def r Let_def)
    with False w show "if es = [] then viewer_round contents init_view = err Div_zero
      else \<exists>out v. viewer_round contents init_view = ret (out, v) \<and> shows_log es v \<and>
        last_read_position v = int (length contents)" by (auto simp: w_def)
  qed
qed

theorem viewer_reads_log_witness:
  "viewer_round [] init_view = err Div_zero \<and>
   (\<exists>out v. viewer_round ''>>{p4,s7,e9}>>{p4,s12,e12}'' init_view = ret (out, v) \<and>
     burst v 4 = 3 \<and> started v 4 = 7 \<and> last_slice v 4 = 12)"
proof -
  define es :: "(int \<times> int \<times> int) list" where "es = [(4, 7, 9), (4, 12, 12)]"
  have line: "concat (map log_entry es) = ''>>{p4,s7,e9}>>{p4,s12,e12}''"
    unfolding es_def by code_simp
  have ok: "list_all entry_ok es" "list_all entry_ok []" "es \<noteq> []"
    by (simp_all add: es_def entry_ok_def MAX_PROCESSES_def MAX_TIME_def)
  have len: "length (concat (map log_entry es)) < BUFFER_SIZE" "length (concat (map log_entry [])) < BUFFER_SIZE"
    unfolding line by (simp_all add: BUFFER_SIZE_def)
  have s: "slots es 4 = {7, 8, 12}" by (auto simp: slots_def es_def covers_def)
  have a: "{a. \<exists>b. (4, a, b) \<in> set es} = {7, 12}" by (auto simp: es_def)
  obtain out v where v: "viewer_round (concat (map log_entry es)) init_view = ret (out, v)" "shows_log es v"
    using viewer_reads_log [OF ok(1) len(1)] ok(3) by auto
  have "burst v 4 = 3" "started v 4 = 7" "last_slice v 4 = 12"
    using v(2) unfolding shows_log_def by (simp_all add: s a)
  then show ?thesis
    using v(1) viewer_reads_log [OF ok(2) len(2)] unfolding line by auto
qed

end
