(* ===== verification/Benchmarks.thy ===== *)
theory Benchmarks
  imports Kernel
begin

text \<open>
  The benchmark programs \<open>benchmark1.c\<close>, \<open>benchmark2.c\<close> and \<open>benchmark3.c\<close>, which run in user
  space. A program is the tree of the system calls it makes: a call whose result the program
  looks at is followed by a function of that result, and a loop that never ends is an infinite
  branch, so the type is a codatatype. \<open>Printf\<close> stands for a call of the library function with
  the values passed after the format, \<open>Volatile\<close> for a store to the volatile variable that a
  load updates; control variables of loops are arguments of the recursion.
\<close>

codatatype uprog =
    Fork "int \<Rightarrow> uprog"
  | Getpid "int \<Rightarrow> uprog"
  | Setnice int uprog
  | Sleep int uprog
  | Wait int uprog
  | Printf string "printf_arg list" uprog
  | Volatile int uprog
  | Exit int

section \<open>benchmark1\<close>

text \<open>The endless calls of \<open>io_load\<close>, whose loop counter is \<open>i\<close>; the same in \<open>benchmark2.c\<close>.\<close>

primcorec io_loop :: "int \<Rightarrow> uprog" where
  "io_loop i = Printf ''>>>>>>>>>>>>'' [] (io_loop (if i + 1 < 5 then i + 1 else 0))"

text \<open>The endless loop of the processes with an even pid: a hundred increments and a \<open>sleep\<close>.\<close>

primcorec spin_sleep_loop :: "int \<Rightarrow> int \<Rightarrow> uprog" where
  "spin_sleep_loop i x =
     (if i < 100 then Volatile (i32 (x + 1)) (spin_sleep_loop (i + 1) (i32 (x + 1)))
      else Sleep 2 (spin_sleep_loop 0 x))"

definition benchmark1_load :: uprog where
  "benchmark1_load = Getpid (\<lambda>my_pid.
     if my_pid mod 2 = 0 then Volatile 0 (spin_sleep_loop 0 0) else io_loop 0)"

text \<open>The loop over \<open>i\<close>; a child leaves it at once.\<close>

function benchmark1_forks :: "int \<Rightarrow> uprog" where
  "benchmark1_forks i =
     (if i < 4 then
        Fork (\<lambda>pid. Setnice ((i + 2 mod 4) * 5)
          (if pid < 0 then Printf (''Fork failed'' @ [CHR 0x0A]) [] (Exit 1)
           else if pid = 0 then
             Getpid (\<lambda>n. Printf (''Benchmark pid: %d'' @ [CHR 0x0A]) [Arg_int n] benchmark1_load)
           else benchmark1_forks (i + 1)))
      else benchmark1_load)"
  by auto

termination
  by (relation "measure (\<lambda>i. nat (4 - i))") auto

declare benchmark1_forks.simps [simp del]

definition benchmark1 :: uprog where
  "benchmark1 = Getpid (\<lambda>n. Printf (''Benchmark pid: %d'' @ [CHR 0x0A]) [Arg_int n]
     (benchmark1_forks 1))"

section \<open>benchmark2\<close>

primcorec spin_loop :: "int \<Rightarrow> uprog" where
  "spin_loop x = Volatile (i32 (x + 1)) (spin_loop (i32 (x + 1)))"

definition benchmark2_load :: uprog where
  "benchmark2_load = Getpid (\<lambda>my_pid.
     if my_pid mod 2 = 0 then Volatile 0 (spin_loop 0) else io_loop 0)"

function benchmark2_forks :: "int \<Rightarrow> uprog" where
  "benchmark2_forks i =
     (if i < 8 then
        Fork (\<lambda>pid.
          if pid < 0 then Printf (''Fork failed'' @ [CHR 0x0A]) [] (Exit 1)
          else if pid = 0 then
            Getpid (\<lambda>n. Printf (''Benchmark pid: %d'' @ [CHR 0x0A]) [Arg_int n] benchmark2_load)
          else benchmark2_forks (i + 1))
      else benchmark2_load)"
  by auto

termination
  by (relation "measure (\<lambda>i. nat (8 - i))") auto

declare benchmark2_forks.simps [simp del]

definition benchmark2 :: uprog where
  "benchmark2 = Getpid (\<lambda>n. Printf (''Benchmark pid: %d'' @ [CHR 0x0A]) [Arg_int n]
     (benchmark2_forks 1))"

section \<open>benchmark3\<close>

text \<open>The two nested loops of \<open>load_cpu\<close> over \<open>i\<close> and \<open>j\<close>, and what the program does next.\<close>

function cpu_loop :: "int \<Rightarrow> int \<Rightarrow> int \<Rightarrow> uprog \<Rightarrow> uprog" where
  "cpu_loop i j sum0 k =
     (if i < 1000 then
        if j < 10 then
          (let sum0 = i32 (sum0 + (i * j + i mod (j + 1) - j mod (i + 1)))
           in Volatile sum0 (cpu_loop i (j + 1) sum0 k))
        else cpu_loop (i + 1) 0 sum0 k
      else k)"
  by auto

termination
  by (relation "measures [\<lambda>(i, j, sum0, k). nat (1000 - i), \<lambda>(i, j, sum0, k). nat (10 - j)]") auto

declare cpu_loop.simps [simp del]

definition load_cpu :: "uprog \<Rightarrow> uprog" where
  "load_cpu k = Volatile 0 (cpu_loop 0 0 0 k)"

function sleep_times :: "int \<Rightarrow> uprog \<Rightarrow> uprog" where
  "sleep_times i k = (if i < 10 then Sleep 1 (sleep_times (i + 1) k) else k)"
  by auto

termination
  by (relation "measure (\<lambda>(i, k). nat (10 - i))") auto

declare sleep_times.simps [simp del]

definition load_io :: "uprog \<Rightarrow> uprog" where
  "load_io k = sleep_times 0 k"

function wait_all :: "int \<Rightarrow> uprog" where
  "wait_all i = (if i < 6 * 10 then Wait 0 (wait_all (i + 1)) else Exit 0)"
  by auto

termination
  by (relation "measure (\<lambda>i. nat (60 - i))") auto

declare wait_all.simps [simp del]

text \<open>The loops over \<open>i\<close> and \<open>j\<close>. A child that has carried its load goes on with the loops.\<close>

function benchmark3_forks :: "int \<Rightarrow> int \<Rightarrow> uprog" where
  "benchmark3_forks i j =
     (if i \<le> 6 then
        if j < 10 then
          Fork (\<lambda>pid. Sleep 10
            (if pid < 0 then Printf (''Fork failed'' @ [CHR 0x0A]) [] (Exit 1)
             else if pid = 0 then
               Getpid (\<lambda>n. Printf (''Benchmark pid: %d'' @ [CHR 0x0A]) [Arg_int n] (Setnice i
                 (Getpid (\<lambda>n. (if n mod 2 = 0 then load_cpu else load_io)
                   (Printf ([CHR 0x0A] @ ''we dont get here'' @ [CHR 0x0A]) []
                     (benchmark3_forks i (j + 1)))))))
             else benchmark3_forks i (j + 1)))
        else benchmark3_forks (i + 1) 0
      else wait_all 0)"
  by auto

termination
  by (relation "measures [\<lambda>(i, j). nat (7 - i), \<lambda>(i, j). nat (10 - j)]") auto

declare benchmark3_forks.simps [simp del]

definition benchmark3 :: uprog where
  "benchmark3 = Getpid (\<lambda>n. Printf (''Benchmark pid: %d'' @ [CHR 0x0A]) [Arg_int n]
     (benchmark3_forks 1 0))"

section \<open>The processes of a program\<close>

text \<open>
  \<open>population d s p n m\<close>: the process with pid \<open>s\<close> and program \<open>p\<close> and all its descendants, when
  each of them has made \<open>d\<close> calls or has exited and every \<open>fork\<close> has succeeded with some
  positive pid for the child, are \<open>n\<close> processes, of which \<open>m\<close> have not exited. A \<open>wait\<close> counts as
  a call that returns.
\<close>

inductive population :: "nat \<Rightarrow> int \<Rightarrow> uprog \<Rightarrow> nat \<Rightarrow> nat \<Rightarrow> bool" where
  exited: "population d s (Exit c) 1 0"
| stopped: "p \<notin> range Exit \<Longrightarrow> population 0 s p 1 1"
| forked: "0 < c \<Longrightarrow> population d c (f 0) n m \<Longrightarrow> population d s (f c) n' m' \<Longrightarrow>
    population (Suc d) s (Fork f) (n + n') (m + m')"
| got_pid: "population d s (f s) n m \<Longrightarrow> population (Suc d) s (Getpid f) n m"
| set_nice: "population d s p n m \<Longrightarrow> population (Suc d) s (Setnice v p) n m"
| slept: "population d s p n m \<Longrightarrow> population (Suc d) s (Sleep t p) n m"
| waited: "population d s p n m \<Longrightarrow> population (Suc d) s (Wait a p) n m"
| printed: "population d s p n m \<Longrightarrow> population (Suc d) s (Printf fmt args p) n m"
| stored: "population d s p n m \<Longrightarrow> population (Suc d) s (Volatile v p) n m"

inductive_simps population_Exit [simp]: "population d s (Exit c) n m"

inductive_simps population_0: "population 0 s p n m"

inductive_simps population_Fork: "population (Suc d) s (Fork f) n m"

inductive_simps population_calls [simp]:
  "population (Suc d) s (Getpid f) n m"
  "population (Suc d) s (Setnice v p) n m"
  "population (Suc d) s (Sleep t p) n m"
  "population (Suc d) s (Wait a p) n m"
  "population (Suc d) s (Printf fmt args p) n m"
  "population (Suc d) s (Volatile v p) n m"

end
