(* ===== verification/Benchmark_Properties.thy ===== *)
theory Benchmark_Properties
  imports Benchmarks
begin

text \<open>
  How many processes the benchmark programs start, and which of them ever exit.
\<close>

section \<open>Single calls\<close>

lemma population_call:
  assumes "0 < d"
  shows "population d s (Getpid f) n m \<longleftrightarrow> population (d - 1) s (f s) n m"
    and "population d s (Setnice v p) n m \<longleftrightarrow> population (d - 1) s p n m"
    and "population d s (Sleep t p) n m \<longleftrightarrow> population (d - 1) s p n m"
    and "population d s (Wait a p) n m \<longleftrightarrow> population (d - 1) s p n m"
    and "population d s (Printf fmt args p) n m \<longleftrightarrow> population (d - 1) s p n m"
    and "population d s (Volatile v p) n m \<longleftrightarrow> population (d - 1) s p n m"
  using assms by (cases d; simp)+

text \<open>A \<open>fork\<close> whose two continuations have fixed populations.\<close>

lemma population_fork:
  assumes "0 < d"
    and "\<And>c n m. 0 < c \<Longrightarrow> population (d - 1) c (f 0) n m \<longleftrightarrow> n = a \<and> m = b"
    and "\<And>c n m. 0 < c \<Longrightarrow> population (d - 1) s (f c) n m \<longleftrightarrow> n = a' \<and> m = b'"
  shows "population d s (Fork f) n m \<longleftrightarrow> n = a + a' \<and> m = b + b'"
proof -
  obtain e where d: "d = Suc e" using \<open>0 < d\<close> by (cases d) auto
  have kid: "population e c (f 0) n m \<longleftrightarrow> n = a \<and> m = b"
    and rest: "population e s (f c) n m \<longleftrightarrow> n = a' \<and> m = b'" if "0 < c" for c n m
    using assms(2,3) [OF that] by (simp_all add: d)
  show ?thesis
  proof
    assume "population d s (Fork f) n m"
    then show "n = a + a' \<and> m = b + b'" unfolding d population_Fork by (auto simp: kid rest)
  next
    assume "n = a + a' \<and> m = b + b'"
    then show "population d s (Fork f) n m"
      unfolding d using forked [of 1 e f a b s a' b'] by (simp add: kid rest)
  qed
qed

section \<open>Loads that never end\<close>

lemma io_loop_runs: "population d s (io_loop i) n m \<longleftrightarrow> n = 1 \<and> m = 1"
proof (induction d arbitrary: i)
  case 0
  show ?case by (subst io_loop.code) (auto simp: population_0)
next
  case (Suc d)
  show ?case by (subst io_loop.code) (simp add: Suc)
qed

lemma spin_loop_runs: "population d s (spin_loop x) n m \<longleftrightarrow> n = 1 \<and> m = 1"
proof (induction d arbitrary: x)
  case 0
  show ?case by (subst spin_loop.code) (auto simp: population_0)
next
  case (Suc d)
  show ?case by (subst spin_loop.code) (simp add: Suc)
qed

lemma spin_sleep_loop_runs: "population d s (spin_sleep_loop i x) n m \<longleftrightarrow> n = 1 \<and> m = 1"
proof (induction d arbitrary: i x)
  case 0
  show ?case by (subst spin_sleep_loop.code) (auto simp: population_0)
next
  case (Suc d)
  show ?case by (subst spin_sleep_loop.code) (simp add: Suc)
qed

lemma store_runs:
  assumes "\<And>e. population e s p n m \<longleftrightarrow> n = 1 \<and> m = 1"
  shows "population d s (Volatile v p) n m \<longleftrightarrow> n = 1 \<and> m = 1"
  using assms by (cases d) (auto simp: population_0)

lemma benchmark1_load_runs:
  "0 < d \<Longrightarrow> population d s benchmark1_load n m \<longleftrightarrow> n = 1 \<and> m = 1"
  by (simp add: benchmark1_load_def population_call io_loop_runs spin_sleep_loop_runs store_runs)

lemma benchmark2_load_runs:
  "0 < d \<Longrightarrow> population d s benchmark2_load n m \<longleftrightarrow> n = 1 \<and> m = 1"
  by (simp add: benchmark2_load_def population_call io_loop_runs spin_loop_runs store_runs)

section \<open>The loops that fork\<close>

lemma benchmark1_forks_population:
  "13 - 2 * i \<le> int d \<Longrightarrow> i \<le> 4 \<Longrightarrow>
   population d s (benchmark1_forks i) n m \<longleftrightarrow> n = nat (5 - i) \<and> m = nat (5 - i)"
proof (induction i arbitrary: d s n m rule: benchmark1_forks.induct)
  case (1 i)
  show ?case
  proof (cases "i < 4")
    case True
    have *: "nat (5 - i) = 1 + nat (4 - i)" using True by simp
    have IH: "population e t (benchmark1_forks (i + 1)) n' m' \<longleftrightarrow> n' = nat (4 - i) \<and> m' = nat (4 - i)"
      if "11 - 2 * i \<le> int e" for e t n' m'
      using 1(1) [OF True, of 1 e t n' m'] that True by simp
    show ?thesis
      unfolding * benchmark1_forks.simps [of i] if_P [OF True]
      by (rule population_fork) (use 1(2) True in \<open>auto simp: population_call benchmark1_load_runs IH\<close>)
  next
    case False
    with 1(3) have "i = 4" by simp
    with 1(2) show ?thesis by (simp add: benchmark1_forks.simps [of 4] benchmark1_load_runs)
  qed
qed

lemma benchmark2_forks_population:
  "11 - i \<le> int d \<Longrightarrow> i \<le> 8 \<Longrightarrow>
   population d s (benchmark2_forks i) n m \<longleftrightarrow> n = nat (9 - i) \<and> m = nat (9 - i)"
proof (induction i arbitrary: d s n m rule: benchmark2_forks.induct)
  case (1 i)
  show ?case
  proof (cases "i < 8")
    case True
    have *: "nat (9 - i) = 1 + nat (8 - i)" using True by simp
    have IH: "population e t (benchmark2_forks (i + 1)) n' m' \<longleftrightarrow> n' = nat (8 - i) \<and> m' = nat (8 - i)"
      if "10 - i \<le> int e" for e t n' m'
      using 1(1) [OF True, of 1 e t n' m'] that True by simp
    show ?thesis
      unfolding * benchmark2_forks.simps [of i] if_P [OF True]
      by (rule population_fork) (use 1(2) True in \<open>auto simp: population_call benchmark2_load_runs IH\<close>)
  next
    case False
    with 1(3) have "i = 8" by simp
    with 1(2) show ?thesis by (simp add: benchmark2_forks.simps [of 8] benchmark2_load_runs)
  qed
qed

lemma cpu_loop_stores:
  "0 \<le> i \<Longrightarrow> i \<le> 1000 \<Longrightarrow> 0 \<le> j \<Longrightarrow> j \<le> 10 \<Longrightarrow>
   population (d + nat (10 * (1000 - i) - (if i < 1000 then j else 0))) s (cpu_loop i j x p) n m
   \<longleftrightarrow> population d s p n m"
proof (induction i j x p rule: cpu_loop.induct)
  case (1 i j x p)
  show ?case
  proof (cases "i < 1000 \<and> j < 10")
    case True
    then have "nat (10 * (1000 - i) - j) = Suc (nat (10 * (1000 - i) - (j + 1)))"
      using Suc_nat_eq_nat_zadd1 [of "10 * (1000 - i) - (j + 1)"] by (simp add: algebra_simps)
    with True 1 show ?thesis by (subst cpu_loop.simps) (simp add: Let_def)
  next
    case False
    show ?thesis
    proof (cases "i < 1000")
      case True
      with False 1(4,6) have "j = 10" by simp
      then have "nat (10 * (1000 - i) - j) = nat (10 * (1000 - (i + 1)) - (if i + 1 < 1000 then 0 else 0))"
        by simp
      with True False 1 show ?thesis by (subst cpu_loop.simps) simp
    next
      case False
      then show ?thesis using 1 by (subst cpu_loop.simps) simp
    qed
  qed
qed

lemma load_cpu_stores:
  assumes "10001 \<le> d"
  shows "population d s (load_cpu p) n m \<longleftrightarrow> population (d - 10001) s p n m"
proof -
  have "d - Suc 0 = (d - 10001) + nat (10 * (1000 - 0) - (if (0::int) < 1000 then 0 else 0))"
    using assms by simp
  then show ?thesis
    using assms cpu_loop_stores [of 0 0 "d - 10001" s 0 p n m]
    by (simp add: load_cpu_def population_call)
qed

lemma sleep_times_calls:
  "0 \<le> i \<Longrightarrow> i \<le> 10 \<Longrightarrow>
   population (d + nat (10 - i)) s (sleep_times i p) n m \<longleftrightarrow> population d s p n m"
proof (induction i p rule: sleep_times.induct)
  case (1 i p)
  show ?case
  proof (cases "i < 10")
    case True
    then have "nat (10 - i) = Suc (nat (10 - (i + 1)))" by simp
    with True 1 show ?thesis by (subst sleep_times.simps) simp
  next
    case False
    with 1 show ?thesis by (subst sleep_times.simps) simp
  qed
qed

lemma load_io_calls:
  "10 \<le> d \<Longrightarrow> population d s (load_io p) n m \<longleftrightarrow> population (d - 10) s p n m"
  using sleep_times_calls [of 0 "d - 10" s p n m] by (simp add: load_io_def)

lemma wait_all_exits:
  "60 - i \<le> int d \<Longrightarrow> population d s (wait_all i) n m \<longleftrightarrow> n = 1 \<and> m = 0"
proof (induction i arbitrary: d rule: wait_all.induct)
  case (1 i)
  show ?case
  proof (cases "i < 60")
    case True
    with 1(2) have "0 < d" "60 - (i + 1) \<le> int (d - 1)" by auto
    with True 1(1) [of "d - 1"] show ?thesis
      by (subst wait_all.simps) (simp add: population_call)
  qed (simp add: wait_all.simps [of i])
qed

text \<open>
  The forks still to come double the number of processes each, since a child carries out all
  the forks that its parent has left.
\<close>

lemma benchmark3_forks_population:
  "10010 * (10 * (7 - i) - j) + 61 \<le> int d \<Longrightarrow> i \<le> 7 \<Longrightarrow> 0 \<le> j \<Longrightarrow>
   j \<le> (if i = 7 then 0 else 10) \<Longrightarrow>
   population d s (benchmark3_forks i j) n m \<longleftrightarrow> n = 2 ^ nat (10 * (7 - i) - j) \<and> m = 0"
proof (induction i j arbitrary: d s n m rule: benchmark3_forks.induct)
  case (1 i j)
  let ?rest = "nat (10 * (7 - i) - (j + 1))"
  consider "i \<le> 6" "j < 10" | "i \<le> 6" "j = 10" | "i = 7" "j = 0"
    using "1.prems"(2-4) by (cases "i = 7"; cases "j < 10") auto
  then show ?case
  proof cases
    case 1
    have IH: "population e t (benchmark3_forks i (j + 1)) n' m' \<longleftrightarrow> n' = 2 ^ ?rest \<and> m' = 0"
      if "10010 * (10 * (7 - i) - (j + 1)) + 61 \<le> int e" for e t n' m'
      using "1.IH"(2) [OF 1, of 1 e t n' m'] that "1.prems" 1 by simp
    have "nat (10 * (7 - i) - j) = Suc ?rest"
      using Suc_nat_eq_nat_zadd1 [of "10 * (7 - i) - (j + 1)"] 1 by (simp add: algebra_simps)
    then have two: "(2::nat) ^ nat (10 * (7 - i) - j) = 2 ^ ?rest + 2 ^ ?rest" by simp
    have "10010 * (10 * (7 - i) - j) + 61 = 10010 * (10 * (7 - i) - (j + 1)) + 61 + 10010"
      by (simp add: algebra_simps)
    moreover have "0 \<le> 10010 * (10 * (7 - i) - (j + 1))" using 1 by simp
    ultimately have d: "10010 * (10 * (7 - i) - (j + 1)) + 61 + 10010 \<le> int d" "10071 \<le> d"
      using "1.prems"(1) by linarith+
    have "population d s (benchmark3_forks i j) n m \<longleftrightarrow> n = 2 ^ ?rest + 2 ^ ?rest \<and> m = 0 + 0"
      unfolding benchmark3_forks.simps [of i j] if_P [OF 1(1)] if_P [OF 1(2)]
      by (rule population_fork)
        (use d in \<open>auto simp: population_call load_cpu_stores load_io_calls IH\<close>)
    then show ?thesis unfolding two by simp
  next
    case 2
    with "1.IH"(3) [of d s n m] "1.prems" show ?thesis
      by (simp add: benchmark3_forks.simps [of i 10])
  next
    case 3
    with "1.prems" show ?thesis by (simp add: benchmark3_forks.simps [of 7] wait_all_exits)
  qed
qed

section \<open>The programs\<close>

text \<open>
  C40. When every fork succeeds, benchmark1 becomes four and benchmark2 eight processes, none of
  which ever exits, from the time at which each process has made thirteen respectively twelve
  calls. In benchmark3 a
  child goes on with the loops of its parent after its load, so the sixty forks of the program
  make two to the power of sixty processes, all of which exit in the end.
\<close>

theorem benchmark_populations:
  "(population (13 + d) s benchmark1 n m \<longleftrightarrow> n = 4 \<and> m = 4) \<and>
   (population (12 + d) s benchmark2 n m \<longleftrightarrow> n = 8 \<and> m = 8) \<and>
   (population (600663 + d) s benchmark3 n m \<longleftrightarrow> n = 2 ^ 60 \<and> m = 0)"
proof (intro conjI)
  show "population (13 + d) s benchmark1 n m \<longleftrightarrow> n = 4 \<and> m = 4"
    by (simp add: benchmark1_def population_call benchmark1_forks_population)
  show "population (12 + d) s benchmark2 n m \<longleftrightarrow> n = 8 \<and> m = 8"
    by (simp add: benchmark2_def population_call benchmark2_forks_population)
  show "population (600663 + d) s benchmark3 n m \<longleftrightarrow> n = 2 ^ 60 \<and> m = 0"
    by (simp add: benchmark3_def population_call benchmark3_forks_population)
qed

end
