(* ===== verification/Spec2Isabelle.thy ===== *)
theory Spec2Isabelle
  imports Tree_Properties Proc_Properties Sched_Properties Syscall_Properties Syscall_Contract
    Trap_Properties Cpu_Scheduler_Properties Lock_Order Debug_Properties Visual_Properties
    Benchmark_Properties
begin

text \<open>
  A verification library for the CFS scheduler in xv6 (files under \<open>src/src/\<close>).

  \<^bold>\<open>The program.\<close> \<open>proc.c\<close> and \<open>proc.h\<close> hold the process table, a red-black tree of runnable
  processes ordered by virtual runtime (the ready tree), the operations on processes (\<open>fork\<close>,
  \<open>exit\<close>, \<open>wait\<close>, \<open>sleep\<close>, \<open>wakeup\<close>, \<open>kill\<close>, \<open>yield\<close>) and the scheduler thread of each hart.
  \<open>trap.c\<close> turns interrupts and system calls into calls of these, \<open>syscall.c\<close> and \<open>sysproc.c\<close>
  fetch the arguments and dispatch, and \<open>visual.c\<close> is a user program that draws a chart from the
  lines the scheduler prints.

  \<^bold>\<open>How code is modelled.\<close> A function of the kernel is a HOL function from a state to an outcome
  (theory \<open>Prelude\<close>): a return with a result and a new state, a stop (null pointer, division by
  zero, array index out of range, \<open>panic\<close>), or a computation that never returns. Pointers to
  processes are indices of the process table or null. An \<open>int\<close> is an integer brought back into
  32 bits by \<open>i32\<close> after every operation, a \<open>uint\<close> or \<open>uint64\<close> is a machine word. Loops over
  the table are recursions over the list of its indices; loops that may not end are partial
  functions whose value is then \<open>None\<close>. No fuel is used.

  \<^bold>\<open>What is outside.\<close> \<open>param.h\<close>, \<open>spinlock.c\<close>, \<open>kalloc.c\<close>, \<open>vm.c\<close>, \<open>swtch.S\<close>, \<open>trampoline.S\<close>, the
  file system and the drivers are not in the repository. Their functions and constants are the
  fields of the records \<open>ext\<close> (theory \<open>Kernel\<close>), \<open>files\<close> (\<open>Syscalls\<close>) and \<open>hw\<close> (\<open>Trap\<close>), and
  theorems name what they need of them: \<open>spin_ok\<close> (locks), \<open>intr_ok\<close> (interrupts are off under a
  lock), \<open>filedup_ok\<close>, \<open>fs_ok\<close>, \<open>namei_ok\<close>, \<open>uvm_ok\<close>, \<open>csr_restores\<close> and \<open>stvec_ok\<close>. Of the file
  system, \<open>fs_ok\<close> (theory \<open>Exit_Wait\<close>) says that a view \<open>V\<close> of it counts the references that are
  held, that \<open>fileclose\<close> and \<open>iput\<close> return and give back one reference when they are passed one
  that is held, \<open>iput\<close> inside a transaction, and that \<open>begin_op\<close> and \<open>end_op\<close> open and close one;
  on any other argument they may do anything. Theory \<open>Samples\<close> gives concrete environments and
  states in which all of these hold. \<open>swtch\<close> is a parameter that takes
  the state at the switch to the state in which the process or the scheduler runs again, so
  theorems on code that switches speak of the state at the switch and of what follows it.

  \<^bold>\<open>The ready tree.\<close> \<open>Proc_Data\<close> has the structures of \<open>proc.h\<close> and \<open>RB_Code\<close> the tree operations of
  \<open>proc.c\<close> 31-579, pointer writes in the order of the code. \<open>RB_Spec\<close> is a functional red-black
  tree with insertion and removal of the minimum as the code rebalances; \<open>RB_Heap\<close> relates the
  links of the process table to it; \<open>RB_Insert\<close> and \<open>RB_Remove\<close> show that the code follows it.
  \<open>Queue_Interface\<close> is the contract of a ready queue as a locale, with what follows from the
  contract alone (stable sorting, no starvation), and \<open>Ready_Queue\<close> interprets it on the code.
  \<open>Tree_Properties\<close> states the results: insertion and removal, logarithmic height, time slices,
  how long a turn lasts under the preemption test (there is no threshold, although the README
  speaks of one, and the slice need only be reached, not exceeded), and the hang on positive nice
  values.

  \<^bold>\<open>Processes.\<close> \<open>Kernel\<close> has the state of the kernel and the lock calls, \<open>Proc_Table\<close> the operations
  of \<open>proc.c\<close> 581-1365. \<open>Kernel_Rules\<close> evaluates critical sections and defines the invariant
  \<open>table_ok\<close>: the ready tree is well formed, holds runnable processes only, and all others could
  be queued. \<open>Wakeups\<close>, \<open>Proc_Alloc\<close>, \<open>Fork\<close> and \<open>Exit_Wait\<close> prove each operation, and
  \<open>Proc_Properties\<close> states what it does on every branch.

  \<^bold>\<open>The machine.\<close> \<open>Sched_System\<close> is a transition system of any number of harts and of the processes as
  kernel threads, which interleave at the granularity of the critical sections of \<open>proc.c\<close>. There
  is one step relation for each of \<open>scheduler\<close>, \<open>yield\<close>, \<open>sleep\<close>, \<open>exit\<close>, \<open>wakeup\<close>, \<open>fork\<close> and \<open>wait\<close>,
  and \<open>step\<close> is their union with anything harmless. What a hart is in the middle of and what a
  thread is in the middle of are kept apart, because interrupts are on between the critical
  sections of \<open>fork\<close>: the timer can preempt the parent there, whose child may then be runnable
  but in no tree, while the hart runs something else, and the parent resumes on any hart. A
  preemption is possible wherever a process holds no lock. \<open>boot\<close> runs the models of \<open>procinit\<close> and
  \<open>userinit\<close> on the zeroed table. \<open>Transition_Systems\<close> has the induction over reachable states as a
  locale, which \<open>Sched_System\<close> and \<open>Spin_Locks\<close> interpret. \<open>Sched_Properties\<close>: no process runs on
  two harts, no interleaving makes a tree operation fault, no runnable process is lost, the
  process picked has the least virtual runtime of those that wait, and \<open>yield\<close> takes the step the
  machine gives it. The table is bounded by a million entries there, so that the counters of the
  tree stay within an \<open>int\<close>; xv6 has 64.

  \<^bold>\<open>Locks.\<close> The model of every operation records its calls of \<open>acquire\<close> and \<open>release\<close> in order.
  \<open>Spin_Locks\<close> interleaves such sequences of calls of any number of harts and shows mutual
  exclusion. Two properties rest on it: in \<open>Proc_Properties\<close>, that no wake-up is lost in \<open>sleep\<close>,
  which takes the process lock before it gives back the condition lock, and in \<open>Lock_Order\<close>, that
  the clock interrupt and the scheduler, which take two locks in opposite orders, can deadlock.

  \<^bold>\<open>Scheduler, traps and system calls.\<close> \<open>Cpu_Scheduler\<close> is the scheduler thread, given by the state
  after each number of rounds since it never returns; \<open>Syscalls\<close> is \<open>syscall.c\<close> and \<open>sysproc.c\<close>;
  \<open>Trap\<close> is the live part of \<open>trap.c\<close> (its lines 1-235 are a commented-out older copy) and
  \<open>forkret\<close>. Their properties are in \<open>Cpu_Scheduler_Properties\<close>, \<open>Syscall_Properties\<close> and
  \<open>Trap_Properties\<close>. \<open>Syscall_Contract\<close> is the contract between the dispatcher and the handlers that
  return without switching, as a locale with an interpretation for each of six calls: sequences
  of them keep the process table well formed, and none of them sets a nice value, since the table
  holds a stub in place of \<open>sys_setNice\<close>. The allocator may return any page in all of this. For
  traps from user space, \<open>Trap_Properties\<close> shows that each of them, and not only a clock tick,
  charges the process. The scheduler, against the README, leaves the ready tree alone when a
  process switches back to it, and logs only processes whose name begins with \<open>benchmark\<close>.

  \<^bold>\<open>Output.\<close> \<open>Debug_Output\<close> is \<open>log_cpu_state\<close> and \<open>procdump\<close>, \<open>Visual\<close> is \<open>visual.c\<close>, and \<open>Decimal\<close>
  has the decimal text both use. \<open>Debug_Properties\<close> and \<open>Visual_Properties\<close> show that the buffers
  suffice and that what is printed can be read back.

  \<^bold>\<open>Benchmarks.\<close> \<open>Benchmarks\<close> has the three benchmark programs as trees of the system calls they
  make, and the number of processes such a tree grows to; \<open>Benchmark_Properties\<close> computes it. The
  numbers of calls in the statements are upper bounds of the longest path to the last fork or
  exit of a process. There a \<open>fork\<close> always succeeds: the statement is about what the programs ask
  for, which in the case of \<open>benchmark3\<close> no process table can hold.

  \<^bold>\<open>Not modelled.\<close> \<open>trapinit\<close> and the calls of \<open>initlock\<close>, which have no effect on this state; memory
  ordering (the harts interleave sequentially); the build files and the generated user stubs.
\<close>

end
